(* ===== verification/Prelude.thy ===== *)
theory Prelude
  imports Main "HOL-Library.Word" "HOL-Library.Monad_Syntax"
begin

text \<open>
  Shared vocabulary of the development.

  Machine integers.  \<open>price_t\<close> and \<open>qty_t\<close> (\<^verbatim>\<open>int64_t\<close>, \<^verbatim>\<open>src/sor/types.hpp\<close>) are
  \<open>int\<close>: a signed overflow is undefined behaviour in C++, so there is no wrap-around to model.
  Timestamps (\<^verbatim>\<open>uint64_t\<close>) are 64-bit words, whose subtraction wraps, because the freshness
  tests of the code depend on that; ring indices (\<^verbatim>\<open>uint32_t\<close> with a mask) are 32-bit words.
  Identifiers that are only stored and used as array indices are natural numbers.

  Faults.  A failed \<^verbatim>\<open>assert\<close> and an access outside an array are both the value \<open>None\<close> of an
  option-typed operation; the operations are composed with the option monad.

  Arrays.  A C array that is always accessed under a guard is a HOL list or a function from
  indices; \<open>nth_opt\<close> is the checked read used where the code has no guard of its own.
\<close>

unbundle bit_operations_syntax

type_synonym price_t = int
type_synonym qty_t = int
type_synonym u8 = "8 word"
type_synonym u16 = "16 word"
type_synonym u32 = "32 word"
type_synonym u64 = "64 word"

named_theorems wf_defs \<open>well-formedness predicates\<close>
named_theorems op_defs \<open>definitions of the operations of a component\<close>
named_theorems frame \<open>what an operation leaves unchanged\<close>

abbreviation INT64_MAX :: int where "INT64_MAX \<equiv> 9223372036854775807"
abbreviation INT64_MIN :: int where "INT64_MIN \<equiv> -9223372036854775808"

definition nth_opt :: "'a list \<Rightarrow> nat \<Rightarrow> 'a option" where
  "nth_opt xs i = (if i < length xs then Some (xs ! i) else None)"

lemma nth_opt_Some [simp]: "i < length xs \<Longrightarrow> nth_opt xs i = Some (xs ! i)"
  by (simp add: nth_opt_def)

lemma nth_opt_eq_Some: "nth_opt xs i = Some x \<longleftrightarrow> i < length xs \<and> x = xs ! i"
  by (auto simp: nth_opt_def)

definition assert_opt :: "bool \<Rightarrow> unit option" where
  "assert_opt b = (if b then Some () else None)"

lemma assert_opt_simps [simp]:
  "assert_opt True = Some ()" "assert_opt False = None"
  by (simp_all add: assert_opt_def)

lemma assert_opt_eq_Some [simp]: "assert_opt b = Some u \<longleftrightarrow> b"
  by (cases b) (simp_all add: assert_opt_def)

lemma bind_eq_SomeE:
  assumes "Option.bind m f = Some y"
  obtains x where "m = Some x" and "f x = Some y"
  using assms by (cases m) simp_all

subsection \<open>Lists\<close>

lemma distinct_snoc_iff: "distinct (xs @ [x]) \<longleftrightarrow> distinct xs \<and> x \<notin> set xs"
  by auto

lemma sum_list_update_int:
  "i < length xs \<Longrightarrow> sum_list (xs[i := (v::int)]) = sum_list xs - xs ! i + v"
  by (induction xs arbitrary: i) (auto split: nat.splits)

lemma sum_list_map_update_less:
  fixes f :: "'a \<Rightarrow> nat"
  assumes "i < length xs" and "f y < f (xs ! i)"
  shows "sum_list (map f (xs[i := y])) < sum_list (map f xs)"
  using assms
proof (induction xs arbitrary: i)
  case (Cons x xs)
  then show ?case by (cases i) auto
qed simp

lemma upt_split: "i \<le> n \<Longrightarrow> [0..<n] = [0..<i] @ [i..<n]"
  by (metis le_Suc_ex le0 upt_add_eq_append)

lemma upt_split_Cons: "i < n \<Longrightarrow> [0..<n] = [0..<i] @ i # [Suc i..<n]"
  by (metis less_imp_le_nat upt_conv_Cons upt_split)

lemma length_filter_upt_eq:
  "length (filter P (map f [0..<n])) = n \<longleftrightarrow> (\<forall>i<n. P (f i))"
proof -
  let ?xs = "map f [0..<n]"
  have "length (filter P ?xs) = length ?xs \<longleftrightarrow> (\<forall>x\<in>set ?xs. P x)"
    by (metis filter_id_conv length_filter_less nat_neq_iff)
  then show ?thesis by auto
qed

subsection \<open>Words\<close>

lemma unat_and_mask:
  fixes w :: "'a::len word"
  shows "unat (w AND (2 ^ k - 1)) = unat w mod 2 ^ k"
proof -
  have "w AND (2 ^ k - 1) = take_bit k w"
    by (simp add: take_bit_eq_mask mask_eq_exp_minus_1)
  moreover have "unat (take_bit k w) = unat w mod 2 ^ k"
    by (simp only: unsigned_take_bit_eq) (simp add: take_bit_eq_mod)
  ultimately show ?thesis by simp
qed

subsection \<open>Search loops\<close>

text \<open>\<^verbatim>\<open>for (i = lo; i < hi; ++i) if (P(i)) return i;\<close>\<close>

function find_from :: "(nat \<Rightarrow> bool) \<Rightarrow> nat \<Rightarrow> nat \<Rightarrow> nat option" where
  "find_from P lo hi = (if lo < hi then (if P lo then Some lo else find_from P (Suc lo) hi) else None)"
  by pat_completeness auto
termination
  by (relation "measure (\<lambda>(P, lo, hi). hi - lo)") auto

declare find_from.simps [simp del]

lemma find_from_Some:
  "find_from P lo hi = Some i \<Longrightarrow> lo \<le> i \<and> i < hi \<and> P i \<and> (\<forall>j. lo \<le> j \<and> j < i \<longrightarrow> \<not> P j)"
proof (induction P lo hi rule: find_from.induct)
  case (1 P lo hi)
  then show ?case
    by (auto simp: find_from.simps [of P lo hi] Suc_le_eq nat_less_le split: if_splits)
qed

lemma find_from_None: "find_from P lo hi = None \<longleftrightarrow> (\<forall>i. lo \<le> i \<and> i < hi \<longrightarrow> \<not> P i)"
proof (induction P lo hi rule: find_from.induct)
  case (1 P lo hi)
  show ?case
  proof (cases "lo < hi \<and> \<not> P lo")
    case True
    then have "find_from P lo hi = find_from P (Suc lo) hi" by (simp add: find_from.simps [of P lo hi])
    then show ?thesis using 1 True by (auto simp: Suc_le_eq) (metis le_neq_implies_less)
  next
    case False
    then show ?thesis by (auto simp: find_from.simps [of P lo hi])
  qed
qed

end
