(* ===== verification/Double.thy ===== *)
theory Double
  imports Prelude "HOL-Library.Log_Nat"
begin

text \<open>
  The C++ type \<^verbatim>\<open>double\<close>: IEEE 754 binary64 with rounding to nearest, ties to even.

  A finite value is the rational it denotes; \<open>rnd\<close> rounds an exact result to the nearest value
  with a 53-bit significand and exponents from -1074 (gradual underflow) to overflow at
  \<open>2 ^ 1024\<close>.  Every arithmetic operation is the exact operation followed by \<open>rnd\<close>, as the
  standard prescribes.  Comparisons with a NaN are false.  The two zeros are one value: the
  program never divides by a zero whose sign it could observe.

  A cast to \<^verbatim>\<open>int64_t\<close> truncates; outside the range (where C++ leaves the result undefined) it
  is the x86 indefinite integer \<open>-2 ^ 63\<close>, the program being x86 code (\<^verbatim>\<open>__builtin_ia32_pause\<close>).

  The lemmas: rounding is monotone, exact on integers up to \<open>2 ^ 53\<close>, and has a relative error
  of at most \<open>2 ^ -53\<close> in the normal range; and, from the error bound, that
  multiplying a lot count by a lot size and dividing by the same lot size gives the count back
  after \<^verbatim>\<open>std::round\<close>.
\<close>

subsection \<open>Rounding\<close>

definition ilog2 :: "rat \<Rightarrow> int" where
  "ilog2 x = (let (p, q) = quotient_of x; k = bitlen p - bitlen q
     in if 2 powi k \<le> x then k else k - 1)"

definition rne :: "rat \<Rightarrow> int" where
  "rne x = (let f = \<lfloor>x\<rfloor>; d = x - of_int f
     in if d < 1/2 then f else if 1/2 < d then f + 1 else if even f then f else f + 1)"

definition fexp :: "rat \<Rightarrow> int" where
  "fexp x = max (ilog2 \<bar>x\<bar> - 52) (-1074)"

definition rnd_val :: "rat \<Rightarrow> rat" where
  "rnd_val x = (if x = 0 then 0 else of_int (rne (x / 2 powi fexp x)) * 2 powi fexp x)"

datatype double = NaN | NInf | PInf | Fin rat

definition rnd :: "rat \<Rightarrow> double" where
  "rnd x = (if 2 ^ 1024 \<le> \<bar>rnd_val x\<bar> then (if x < 0 then NInf else PInf) else Fin (rnd_val x))"

subsection \<open>Arithmetic and comparison\<close>

instantiation double :: "{zero, one, plus, minus, times, uminus, inverse, ord}"
begin

definition zero_double_def: "(0::double) = Fin 0"
definition one_double_def: "(1::double) = Fin 1"

fun uminus_double :: "double \<Rightarrow> double" where
  "uminus_double NaN = NaN"
| "uminus_double NInf = PInf"
| "uminus_double PInf = NInf"
| "uminus_double (Fin x) = Fin (- x)"

fun plus_double :: "double \<Rightarrow> double \<Rightarrow> double" where
  "plus_double (Fin x) (Fin y) = rnd (x + y)"
| "plus_double (Fin x) b = b"
| "plus_double PInf NInf = NaN"
| "plus_double PInf NaN = NaN"
| "plus_double PInf b = PInf"
| "plus_double NInf PInf = NaN"
| "plus_double NInf NaN = NaN"
| "plus_double NInf b = NInf"
| "plus_double NaN b = NaN"

definition minus_double :: "double \<Rightarrow> double \<Rightarrow> double" where
  "minus_double a b = a + (- b)"

fun times_double :: "double \<Rightarrow> double \<Rightarrow> double" where
  "times_double (Fin x) (Fin y) = rnd (x * y)"
| "times_double NaN b = NaN"
| "times_double a NaN = NaN"
| "times_double (Fin x) PInf = (if x = 0 then NaN else if x < 0 then NInf else PInf)"
| "times_double (Fin x) NInf = (if x = 0 then NaN else if x < 0 then PInf else NInf)"
| "times_double PInf (Fin y) = (if y = 0 then NaN else if y < 0 then NInf else PInf)"
| "times_double NInf (Fin y) = (if y = 0 then NaN else if y < 0 then PInf else NInf)"
| "times_double PInf PInf = PInf"
| "times_double PInf NInf = NInf"
| "times_double NInf PInf = NInf"
| "times_double NInf NInf = PInf"

fun divide_double :: "double \<Rightarrow> double \<Rightarrow> double" where
  "divide_double (Fin x) (Fin y) =
     (if y = 0 then (if x = 0 then NaN else if x < 0 then NInf else PInf) else rnd (x / y))"
| "divide_double NaN b = NaN"
| "divide_double a NaN = NaN"
| "divide_double (Fin x) b = Fin 0"
| "divide_double PInf (Fin y) = (if y < 0 then NInf else PInf)"
| "divide_double NInf (Fin y) = (if y < 0 then PInf else NInf)"
| "divide_double a b = NaN"

definition inverse_double :: "double \<Rightarrow> double" where
  "inverse_double a = Fin 1 div a"

fun less_double :: "double \<Rightarrow> double \<Rightarrow> bool" where
  "less_double (Fin x) (Fin y) = (x < y)"
| "less_double NaN b = False"
| "less_double a NaN = False"
| "less_double NInf b = (b \<noteq> NInf)"
| "less_double a NInf = False"
| "less_double a PInf = (a \<noteq> PInf)"
| "less_double PInf b = False"

definition less_eq_double :: "double \<Rightarrow> double \<Rightarrow> bool" where
  "less_eq_double a b = (a < b \<or> (a = b \<and> a \<noteq> NaN))"

instance ..

end

text \<open>A decimal literal of the source is the double nearest to the decimal.\<close>

definition lit :: "rat \<Rightarrow> double" where "lit x = rnd x"

text \<open>\<^verbatim>\<open>static_cast<double>\<close> of an integer.\<close>

definition of_i64 :: "int \<Rightarrow> double" where "of_i64 n = rnd (of_int n)"

text \<open>\<^verbatim>\<open>std::round\<close>: to the nearest integer, halfway cases away from zero.\<close>

definition round_away :: "rat \<Rightarrow> int" where
  "round_away x = (if 0 \<le> x then \<lfloor>x + 1/2\<rfloor> else - \<lfloor>1/2 - x\<rfloor>)"

fun std_round :: "double \<Rightarrow> double" where
  "std_round (Fin x) = Fin (of_int (round_away x))"
| "std_round a = a"

definition trunc_rat :: "rat \<Rightarrow> int" where
  "trunc_rat x = (if 0 \<le> x then \<lfloor>x\<rfloor> else - \<lfloor>- x\<rfloor>)"

text \<open>\<^verbatim>\<open>static_cast<int64_t>\<close> and \<^verbatim>\<open>static_cast<uint64_t>\<close> of a double.\<close>

fun to_i64 :: "double \<Rightarrow> int" where
  "to_i64 (Fin x) = (let n = trunc_rat x in if INT64_MIN \<le> n \<and> n \<le> INT64_MAX then n else INT64_MIN)"
| "to_i64 a = INT64_MIN"

fun to_u64 :: "double \<Rightarrow> u64" where
  "to_u64 (Fin x) = (let n = trunc_rat x in if 0 \<le> n \<and> n < 2 ^ 64 then word_of_int n else 2 ^ 63)"
| "to_u64 a = 2 ^ 63"

text \<open>\<^verbatim>\<open>std::llround\<close>: rounds like \<^verbatim>\<open>std::round\<close> and returns the integer.\<close>

definition llround :: "double \<Rightarrow> int" where "llround a = to_i64 (std_round a)"

subsection \<open>Facts about rounding\<close>

lemma bitlen_powi:
  assumes "0 < p"
  shows "2 powi (bitlen p - 1) \<le> (of_int p :: rat)" and "of_int p < (2 powi bitlen p :: rat)"
proof -
  have b: "0 < bitlen p" using assms bitlen_ge_iff_power [of 1 p] by simp
  note bb = bitlen_bounds [OF assms]
  have "(2::rat) powi (bitlen p - 1) = of_int (2 ^ nat (bitlen p - 1))"
    using b by (simp add: power_int_def)
  also have "\<dots> \<le> of_int p" using bb by (simp only: of_int_le_iff)
  finally show "2 powi (bitlen p - 1) \<le> (of_int p :: rat)" .
  have "(of_int p :: rat) < of_int (2 ^ nat (bitlen p))" using bb by (simp only: of_int_less_iff)
  also have "\<dots> = 2 powi bitlen p" using b by (simp add: power_int_def)
  finally show "of_int p < (2 powi bitlen p :: rat)" .
qed

lemma powi2_pos [simp]: "0 < (2 powi k :: rat)"
  by (simp add: zero_less_power_int)

lemma powi2_nz [simp]: "(2 powi k :: rat) \<noteq> 0"
  by simp

lemma powi2_le: "j \<le> k \<Longrightarrow> (2 powi j :: rat) \<le> 2 powi k"
  by (simp add: power_int_increasing)

lemma powi2_add: "(2 powi (j + k) :: rat) = 2 powi j * 2 powi k"
  by (simp add: power_int_add)

lemma powi2_Suc: "(2 powi (k + 1) :: rat) = 2 * 2 powi k"
  by (simp add: power_int_add)

lemma powi2_split:
  assumes "e \<le> k"
  shows "(2 powi k :: rat) = of_int (2 ^ nat (k - e)) * 2 powi e"
proof -
  have "of_int (2 ^ nat (k - e)) = (2 powi (k - e) :: rat)"
    using assms by (simp add: power_int_def)
  then show ?thesis by (simp flip: powi2_add)
qed

lemma powi2_less_cancel: "(2 powi j :: rat) < 2 powi k \<Longrightarrow> j < k"
  using powi2_le [of k j] by (meson not_le)

lemma ilog2_bounds:
  assumes "0 < x"
  shows "2 powi ilog2 x \<le> x" and "x < 2 powi (ilog2 x + 1)"
proof -
  obtain p q where pq: "quotient_of x = (p, q)" by force
  have q: "0 < q" using quotient_of_denom_pos [OF pq] .
  have x: "x = of_int p / of_int q" using quotient_of_div [OF pq] .
  have p: "0 < p" using assms x q by (simp add: zero_less_divide_iff)
  let ?k = "bitlen p - bitlen q"
  note P = bitlen_powi [OF p] and Q = bitlen_powi [OF q]
  have lo: "2 powi (?k - 1) \<le> x"
  proof -
    have "2 powi (?k - 1) * (of_int q :: rat) \<le> 2 powi (?k - 1) * 2 powi bitlen q"
      using Q(2) by (intro mult_left_mono) auto
    also have "\<dots> = 2 powi (bitlen p - 1)" by (simp flip: powi2_add)
    also have "\<dots> \<le> of_int p" by (rule P(1))
    finally show ?thesis using q by (simp add: x le_divide_eq)
  qed
  have hi: "x < 2 powi (?k + 1)"
  proof -
    have "of_int p < (2 powi bitlen p :: rat)" by (rule P(2))
    also have "\<dots> = 2 powi (?k + 1) * 2 powi (bitlen q - 1)" by (simp flip: powi2_add)
    also have "\<dots> \<le> 2 powi (?k + 1) * of_int q"
      using Q(1) by (intro mult_left_mono) auto
    finally show ?thesis using q by (simp add: x divide_less_eq)
  qed
  show "2 powi ilog2 x \<le> x" using lo by (simp add: ilog2_def pq Let_def)
  show "x < 2 powi (ilog2 x + 1)" using hi by (auto simp: ilog2_def pq Let_def not_le)
qed

lemma ilog2_eqI:
  assumes "2 powi k \<le> x" and "x < 2 powi (k + 1)"
  shows "ilog2 x = k"
proof -
  have x: "0 < x" using assms(1) powi2_pos [of k] by linarith
  have "2 powi ilog2 x < (2 powi (k + 1) :: rat)" and "2 powi k < (2 powi (ilog2 x + 1) :: rat)"
    using ilog2_bounds [OF x] assms by linarith+
  then have "ilog2 x < k + 1" and "k < ilog2 x + 1" by (blast dest: powi2_less_cancel)+
  then show ?thesis by simp
qed

lemma ilog2_mono:
  assumes "0 < x" and "x \<le> y"
  shows "ilog2 x \<le> ilog2 y"
proof -
  have "2 powi ilog2 x < (2 powi (ilog2 y + 1) :: rat)"
    using ilog2_bounds [OF assms(1)] ilog2_bounds [of y] assms by linarith
  then show ?thesis by (auto dest: powi2_less_cancel)
qed

lemma rne_of_int [simp]: "rne (of_int n) = n"
  by (simp add: rne_def)

lemma rne_err: "\<bar>of_int (rne x) - x\<bar> \<le> 1/2"
proof -
  have "of_int \<lfloor>x\<rfloor> \<le> x" "x < of_int \<lfloor>x\<rfloor> + 1" by linarith+
  then show ?thesis unfolding rne_def Let_def by (auto split: if_splits simp: abs_le_iff)
qed

lemma rne_floor: "rne x = \<lfloor>x\<rfloor> \<or> rne x = \<lfloor>x\<rfloor> + 1"
  by (simp add: rne_def Let_def)

lemma rne_mono:
  assumes "x \<le> y"
  shows "rne x \<le> rne y"
proof (cases "\<lfloor>x\<rfloor> = \<lfloor>y\<rfloor>")
  case True
  then have "x - of_int \<lfloor>x\<rfloor> \<le> y - of_int \<lfloor>y\<rfloor>" using assms by simp
  with True show ?thesis unfolding rne_def Let_def by (auto split: if_splits)
next
  case False
  then have "\<lfloor>x\<rfloor> + 1 \<le> \<lfloor>y\<rfloor>" using floor_mono [OF assms] by linarith
  with rne_floor [of x] rne_floor [of y] show ?thesis by linarith
qed

lemma rne_minus: "rne (- x) = - rne x"
proof (cases "x \<in> \<int>")
  case True
  then obtain n where "x = of_int n" by (auto elim: Ints_cases)
  then show ?thesis using rne_of_int [of "- n"] by simp
next
  case False
  then have f: "\<lfloor>- x\<rfloor> = - \<lfloor>x\<rfloor> - 1"
    by (metis add.inverse_inverse ceiling_def ceiling_altdef diff_conv_add_uminus minus_add_distrib
        Ints_of_int add.commute)
  show ?thesis unfolding rne_def Let_def f by auto
qed

lemma fexp_minus [simp]: "fexp (- x) = fexp x"
  by (simp add: fexp_def)

lemma rnd_val_0 [simp]: "rnd_val 0 = 0"
  by (simp add: rnd_val_def)

lemma rnd_val_minus: "rnd_val (- x) = - rnd_val x"
  by (simp add: rnd_val_def rne_minus)

lemma rnd_val_grid:
  assumes "x \<noteq> 0" and "x = of_int m * 2 powi e" and "fexp x \<le> e"
  shows "rnd_val x = x"
proof -
  have q: "x / 2 powi fexp x = of_int (m * 2 ^ nat (e - fexp x))"
    using assms(2) powi2_split [OF assms(3)] by (simp add: divide_eq_eq)
  show ?thesis unfolding rnd_val_def q rne_of_int using q assms(1) by (simp add: divide_eq_eq)
qed

lemma rnd_val_nonneg: "0 \<le> x \<Longrightarrow> 0 \<le> rnd_val x"
proof -
  assume "0 \<le> x"
  then have "0 \<le> x / 2 powi fexp x" by (simp add: divide_nonneg_pos)
  from rne_mono [OF this] have "0 \<le> rne (x / 2 powi fexp x)"
    using rne_of_int [of 0] by simp
  then show ?thesis by (simp add: rnd_val_def)
qed

lemma rnd_val_le_powi:
  assumes "0 < x" and "x \<le> 2 powi k" and "fexp x \<le> k"
  shows "rnd_val x \<le> 2 powi k"
proof -
  let ?e = "fexp x"
  have g: "(2 powi k :: rat) = of_int (2 ^ nat (k - ?e)) * 2 powi ?e"
    by (rule powi2_split [OF assms(3)])
  have "x / 2 powi ?e \<le> of_int (2 ^ nat (k - ?e))"
    using assms(2) unfolding g by (simp add: divide_le_eq)
  from rne_mono [OF this] have "rne (x / 2 powi ?e) \<le> 2 ^ nat (k - ?e)"
    by (simp only: rne_of_int)
  then have "(of_int (rne (x / 2 powi ?e)) :: rat) \<le> of_int (2 ^ nat (k - ?e))"
    by (simp only: of_int_le_iff)
  then have "of_int (rne (x / 2 powi ?e)) * 2 powi ?e \<le> of_int (2 ^ nat (k - ?e)) * (2 powi ?e :: rat)"
    by (intro mult_right_mono) auto
  then show ?thesis using assms(1) g by (simp add: rnd_val_def)
qed

lemma powi_le_rnd_val:
  assumes "0 < x" and "2 powi k \<le> x" and "fexp x \<le> k"
  shows "2 powi k \<le> rnd_val x"
proof -
  let ?e = "fexp x"
  have g: "(2 powi k :: rat) = of_int (2 ^ nat (k - ?e)) * 2 powi ?e"
    by (rule powi2_split [OF assms(3)])
  have "of_int (2 ^ nat (k - ?e)) \<le> x / 2 powi ?e"
    using assms(2) unfolding g by (simp add: le_divide_eq)
  from rne_mono [OF this] have "2 ^ nat (k - ?e) \<le> rne (x / 2 powi ?e)"
    by (simp only: rne_of_int)
  then have "(of_int (2 ^ nat (k - ?e)) :: rat) \<le> of_int (rne (x / 2 powi ?e))"
    by (simp only: of_int_le_iff)
  then have "of_int (2 ^ nat (k - ?e)) * (2 powi ?e :: rat) \<le> of_int (rne (x / 2 powi ?e)) * 2 powi ?e"
    by (intro mult_right_mono) auto
  then show ?thesis using assms(1) g by (simp add: rnd_val_def)
qed

lemma fexp_le_mono:
  assumes "0 < x" and "x \<le> y"
  shows "fexp x \<le> fexp y"
  using ilog2_mono [OF assms] assms by (simp add: fexp_def)

lemma rnd_val_mono_pos:
  assumes "0 < x" and "x \<le> y"
  shows "rnd_val x \<le> rnd_val y"
proof (cases "fexp x = fexp y")
  case True
  have "x / 2 powi fexp x \<le> y / 2 powi fexp x" using assms(2) by (simp add: divide_right_mono)
  then have "rne (x / 2 powi fexp x) \<le> rne (y / 2 powi fexp y)" using True by (simp add: rne_mono)
  then show ?thesis using assms True by (simp add: rnd_val_def mult_right_mono)
next
  case False
  with fexp_le_mono [OF assms] have lt: "fexp x < fexp y" by simp
  then have ey: "fexp y = ilog2 y - 52" using assms by (simp add: fexp_def max_def split: if_splits)
  have "ilog2 x - 52 \<le> fexp x" using assms by (simp add: fexp_def)
  with lt ey have il: "ilog2 x + 1 \<le> ilog2 y" by simp
  have "x \<le> 2 powi ilog2 y"
    using ilog2_bounds(2) [OF assms(1)] powi2_le [OF il] by linarith
  then have "rnd_val x \<le> 2 powi ilog2 y"
    using assms(1) lt ey by (intro rnd_val_le_powi) auto
  also have "\<dots> \<le> rnd_val y"
    using assms ey ilog2_bounds(1) [of y] by (intro powi_le_rnd_val) auto
  finally show ?thesis .
qed

lemma rnd_val_nonpos: "x \<le> 0 \<Longrightarrow> rnd_val x \<le> 0"
  using rnd_val_nonneg [of "- x"] by (simp add: rnd_val_minus)

lemma rnd_val_mono:
  assumes "x \<le> y"
  shows "rnd_val x \<le> rnd_val y"
proof -
  consider "0 < x" | "x \<le> 0" "0 \<le> y" | "y < 0" by linarith
  then show ?thesis
  proof cases
    case 1
    then show ?thesis using assms by (rule rnd_val_mono_pos)
  next
    case 2
    then show ?thesis using rnd_val_nonpos [of x] rnd_val_nonneg [of y] by linarith
  next
    case 3
    then show ?thesis using rnd_val_mono_pos [of "- y" "- x"] assms by (simp add: rnd_val_minus)
  qed
qed

lemma rnd_val_int:
  assumes "\<bar>n\<bar> < 2 ^ 53"
  shows "rnd_val (of_int n) = of_int n"
proof (cases "n = 0")
  case False
  have "2 powi ilog2 \<bar>of_int n\<bar> \<le> \<bar>of_int n :: rat\<bar>"
    using False by (intro ilog2_bounds(1)) simp
  also have "\<bar>of_int n :: rat\<bar> = of_int \<bar>n\<bar>" by simp
  also have "\<dots> < of_int (2 ^ 53)" using assms by (simp only: of_int_less_iff)
  also have "\<dots> = 2 powi 53" by simp
  finally have "ilog2 \<bar>of_int n\<bar> < 53" by (rule powi2_less_cancel)
  then have "fexp (of_int n) \<le> 0" by (simp add: fexp_def)
  then show ?thesis using False by (intro rnd_val_grid [where m = n and e = 0]) auto
qed simp

lemma rnd_val_err_pos:
  assumes "2 powi (-1022) \<le> x"
  shows "\<bar>rnd_val x - x\<bar> \<le> x / 2 ^ 53"
proof -
  have x: "0 < x" using assms powi2_pos [of "-1022"] by linarith
  have "2 powi (-1022) < (2 powi (ilog2 x + 1) :: rat)"
    using assms ilog2_bounds(2) [OF x] by linarith
  then have "-1022 < ilog2 x + 1" by (rule powi2_less_cancel)
  then have e: "fexp x = ilog2 x - 52" using x by (simp add: fexp_def)
  let ?s = "2 powi fexp x :: rat"
  have "rnd_val x - x = (of_int (rne (x / ?s)) - x / ?s) * ?s"
    using x by (simp add: rnd_val_def left_diff_distrib)
  then have "\<bar>rnd_val x - x\<bar> = \<bar>of_int (rne (x / ?s)) - x / ?s\<bar> * ?s"
    by (simp add: abs_mult)
  also have "\<dots> \<le> 1/2 * ?s" by (intro mult_right_mono rne_err) auto
  also have "\<dots> = 2 powi ilog2 x / 2 ^ 53"
    unfolding e by (simp add: power_int_diff)
  also have "\<dots> \<le> x / 2 ^ 53" using ilog2_bounds(1) [OF x] by (intro divide_right_mono) auto
  finally show ?thesis .
qed

lemma rnd_val_err:
  assumes "2 powi (-1022) \<le> \<bar>x\<bar>"
  shows "\<bar>rnd_val x - x\<bar> \<le> \<bar>x\<bar> / 2 ^ 53"
proof (cases "0 \<le> x")
  case True
  then show ?thesis using assms rnd_val_err_pos [of x] by simp
next
  case False
  then show ?thesis using assms rnd_val_err_pos [of "- x"] by (simp add: rnd_val_minus abs_minus_commute)
qed

lemma rnd_Fin:
  assumes "\<bar>x\<bar> < 2 ^ 1023"
  shows "rnd x = Fin (rnd_val x)"
proof -
  have "\<bar>rnd_val x\<bar> \<le> 2 ^ 1023"
  proof (cases "x = 0")
    case False
    have "2 powi ilog2 \<bar>x\<bar> \<le> \<bar>x\<bar>" using False by (intro ilog2_bounds(1)) simp
    also have "\<dots> < 2 powi 1023" using assms by (simp add: power_int_def)
    finally have "ilog2 \<bar>x\<bar> < 1023" by (rule powi2_less_cancel)
    then have "rnd_val \<bar>x\<bar> \<le> 2 powi 1023"
      using assms False by (intro rnd_val_le_powi) (auto simp: fexp_def power_int_def)
    then have "rnd_val \<bar>x\<bar> \<le> 2 ^ 1023" by (simp add: power_int_def)
    then show ?thesis
      using rnd_val_nonneg [of "\<bar>x\<bar>"] by (cases "0 \<le> x") (auto simp: rnd_val_minus)
  qed simp
  also have "(2::rat) ^ 1023 < 2 ^ 1024" by simp
  finally show ?thesis by (simp add: rnd_def)
qed

lemma rnd_of_int: "\<bar>n\<bar> < 2 ^ 53 \<Longrightarrow> rnd (of_int n) = Fin (of_int n)"
proof -
  assume n: "\<bar>n\<bar> < 2 ^ 53"
  have "\<bar>of_int n :: rat\<bar> = of_int \<bar>n\<bar>" by simp
  also have "\<dots> < of_int (2 ^ 53)" using n by (simp only: of_int_less_iff)
  also have "\<dots> < (2 ^ 1023 :: rat)" by simp
  finally show ?thesis using n by (simp add: rnd_Fin rnd_val_int)
qed

lemma rnd_numeral [simp]:
  "(numeral k :: int) < 2 ^ 53 \<Longrightarrow> rnd (numeral k) = Fin (numeral k)"
  "(numeral k :: int) < 2 ^ 53 \<Longrightarrow> rnd (- numeral k) = Fin (- numeral k)"
  using rnd_of_int [of "numeral k"] rnd_of_int [of "- numeral k"] by simp_all

lemma rnd_0_1 [simp]: "rnd 0 = Fin 0" "rnd 1 = Fin 1"
  using rnd_of_int [of 0] rnd_of_int [of 1] by simp_all

lemma Fin_less_Fin [simp]: "Fin x < Fin y \<longleftrightarrow> x < y"
  by simp

lemma Fin_le_Fin [simp]: "Fin x \<le> Fin y \<longleftrightarrow> x \<le> y"
  by (auto simp: less_eq_double_def)

lemma double_le_simps [simp]:
  "NInf \<le> a \<longleftrightarrow> a \<noteq> NaN" "a \<le> PInf \<longleftrightarrow> a \<noteq> NaN"
  "\<not> NaN \<le> a" "\<not> a \<le> NaN"
  by (cases a; simp add: less_eq_double_def)+

lemma rnd_mono: "x \<le> y \<Longrightarrow> rnd x \<le> rnd y"
  using rnd_val_mono [of x y] rnd_val_nonneg [of x] rnd_val_nonneg [of y] rnd_val_nonpos [of x] rnd_val_nonpos [of y]
  by (auto simp: rnd_def abs_if split: if_splits)

lemma round_away_near:
  assumes "\<bar>x - of_int n\<bar> < 1/2"
  shows "round_away x = n"
proof -
  have b: "of_int n < x + 1/2" "x < of_int n + 1/2"
    using assms by (simp_all only: abs_less_iff) linarith+
  have "\<lfloor>x + 1/2\<rfloor> = n" using b by (intro floor_unique) simp_all
  moreover have "\<lfloor>1/2 - x\<rfloor> = - n" using b by (intro floor_unique) simp_all
  ultimately show ?thesis by (simp add: round_away_def)
qed

lemma round_away_of_int [simp]: "round_away (of_int n) = n"
  by (rule round_away_near) simp

lemma trunc_of_int [simp]: "trunc_rat (of_int n) = n"
  by (simp add: trunc_rat_def)

lemma rnd_relerr:
  assumes "2 powi (-1022) \<le> \<bar>x\<bar>" and "\<bar>x\<bar> < 2 ^ 1023"
  obtains y where "rnd x = Fin y" and "\<bar>y - x\<bar> \<le> \<bar>x\<bar> / 2 ^ 53"
  using rnd_Fin [OF assms(2)] rnd_val_err [OF assms(1)] by blast

text \<open>Evaluation of one rounding: the significand \<open>m\<close> and the exponent \<open>e\<close> of the result.\<close>

lemma rnd_evalI:
  assumes "2 powi (e + 52) \<le> x" and "x < 2 powi (e + 53)" and "-1074 \<le> e" and "e \<le> 900"
    and "\<bar>x - of_int m * 2 powi e\<bar> < 2 powi (e - 1)"
  shows "rnd x = Fin (of_int m * 2 powi e)"
proof -
  have x: "0 < x" using assms(1) powi2_pos [of "e + 52"] by linarith
  have "ilog2 x = e + 52" using assms(1,2) by (intro ilog2_eqI) (auto simp: add.assoc)
  then have fe: "fexp x = e" using x assms(3) by (simp add: fexp_def)
  have h: "2 powi (e - 1) = (2 powi e / 2 :: rat)" by (simp add: power_int_diff)
  have "\<bar>x / 2 powi e - of_int m\<bar> = \<bar>x - of_int m * 2 powi e\<bar> / 2 powi e"
    by (metis abs_divide abs_of_pos diff_divide_distrib nonzero_mult_div_cancel_right powi2_nz powi2_pos)
  also have "\<dots> < 1/2" using assms(5) h by (simp add: divide_less_eq)
  finally have d: "\<bar>x / 2 powi e - of_int m\<bar> < 1/2" .
  have "rne (x / 2 powi e) = m"
  proof -
    have "\<bar>of_int (rne (x / 2 powi e)) - (of_int m :: rat)\<bar> < 1"
      using rne_err [of "x / 2 powi e"] d by linarith
    then have "\<bar>rne (x / 2 powi e) - m\<bar> < 1"
      by (metis of_int_abs of_int_diff of_int_less_1_iff)
    then show ?thesis by simp
  qed
  then have v: "rnd_val x = of_int m * 2 powi e" using x fe by (simp add: rnd_val_def)
  have "x < 2 powi 1023" using assms(2,4) powi2_le [of "e + 53" 1023] by linarith
  then have "x < 2 ^ 1023" by (simp add: power_int_def)
  then show ?thesis using x rnd_Fin [of x] v by simp
qed

text \<open>
  The conversion pattern of the code: a count of lots times a lot size, divided by the same lot
  size and rounded to an integer, is the count again.
\<close>

lemma scaled_range:
  fixes x l :: rat
  assumes "1 \<le> \<bar>x\<bar>" and "\<bar>x\<bar> \<le> 2 ^ 50" and "2 powi (-500) \<le> l" and "l \<le> 2 ^ 500"
  shows "2 powi (-1022) \<le> \<bar>x * l\<bar>" and "\<bar>x * l\<bar> < 2 ^ 1023"
proof -
  have l0: "0 < l" using assms(3) powi2_pos [of "-500"] by linarith
  then have a: "\<bar>x * l\<bar> = \<bar>x\<bar> * l" by (simp add: abs_mult)
  have "2 powi (-1022) \<le> (2 powi (-500) :: rat)" by (rule powi2_le) simp
  also have "\<dots> \<le> 1 * l" using assms(3) by simp
  also have "\<dots> \<le> \<bar>x\<bar> * l" using assms(1) l0 by (intro mult_right_mono) auto
  finally show "2 powi (-1022) \<le> \<bar>x * l\<bar>" using a by simp
  have "\<bar>x\<bar> * l \<le> 2 ^ 50 * 2 ^ 500" using assms(2,4) l0 by (intro mult_mono) auto
  also have "\<dots> < (2 ^ 1023 :: rat)" by simp
  finally show "\<bar>x * l\<bar> < 2 ^ 1023" using a by simp
qed

lemma quotient_relerr:
  fixes x y l e :: rat
  assumes "0 < l" and "\<bar>y - x * l\<bar> \<le> \<bar>x * l\<bar> / e"
  shows "\<bar>y / l - x\<bar> \<le> \<bar>x\<bar> / e"
proof -
  have "y / l - x = (y - x * l) / l" using assms(1) by (simp add: diff_divide_distrib)
  then have "\<bar>y / l - x\<bar> = \<bar>y - x * l\<bar> / l" using assms(1) by (simp add: abs_divide)
  also have "\<dots> \<le> (\<bar>x\<bar> * l / e) / l" using assms by (intro divide_right_mono) (auto simp: abs_mult)
  finally show ?thesis using assms(1) by simp
qed

lemma scale_unscale_err:
  assumes n: "\<bar>n\<bar> \<le> 2 ^ 50" "n \<noteq> 0" and l: "2 powi (-500) \<le> l" "l \<le> 2 ^ 500"
  obtains z where "of_i64 n * Fin l / Fin l = Fin z" and "\<bar>z - of_int n\<bar> \<le> 3 * \<bar>of_int n\<bar> / 2 ^ 53"
proof -
  let ?n = "of_int n :: rat"
  have l0: "0 < l" using l(1) powi2_pos [of "-500"] by linarith
  have n1: "1 \<le> \<bar>?n\<bar>" using n(2) by (metis abs_ge_zero linorder_not_less of_int_1_le_iff of_int_abs zero_less_abs_iff int_one_le_iff_zero_less)
  have n2: "\<bar>?n\<bar> \<le> 2 ^ 50" using n(1) by (metis of_int_abs of_int_le_iff of_int_numeral of_int_power)
  obtain y where y: "rnd (?n * l) = Fin y" and ye: "\<bar>y - ?n * l\<bar> \<le> \<bar>?n * l\<bar> / 2 ^ 53"
    using scaled_range [OF n1 n2 l] by (rule rnd_relerr)
  have w: "\<bar>y / l - ?n\<bar> \<le> \<bar>?n\<bar> / 2 ^ 53" using l0 ye by (rule quotient_relerr)
  have "\<bar>?n\<bar> / 2 ^ 53 \<le> \<bar>?n\<bar> / 2" by simp
  then have w': "\<bar>y / l - ?n\<bar> \<le> \<bar>?n\<bar> / 2" using w by linarith
  have w2: "\<bar>y / l\<bar> \<le> 2 * \<bar>?n\<bar>" and w3: "\<bar>?n\<bar> / 2 \<le> \<bar>y / l\<bar>"
    using w' by linarith+
  have "2 powi (-1022) \<le> (2 powi (-1) :: rat)" by (rule powi2_le) simp
  moreover have "(2 powi (-1) :: rat) = 1/2" by (simp add: power_int_minus)
  ultimately have lo2: "2 powi (-1022) \<le> \<bar>y / l\<bar>" using w3 n1 by linarith
  have hi2: "\<bar>y / l\<bar> < 2 ^ 1023" using w2 n2 by simp
  obtain z where z: "rnd (y / l) = Fin z" and ze: "\<bar>z - y / l\<bar> \<le> \<bar>y / l\<bar> / 2 ^ 53"
    using lo2 hi2 by (rule rnd_relerr)
  have "of_i64 n = Fin ?n" unfolding of_i64_def using n(1) by (intro rnd_of_int) simp
  then have "of_i64 n * Fin l / Fin l = Fin z" using y z l0 by simp
  moreover have "\<bar>y / l\<bar> / 2 ^ 53 \<le> 2 * \<bar>?n\<bar> / 2 ^ 53" using w2 by (rule divide_right_mono) simp
  then have "\<bar>z - ?n\<bar> \<le> 3 * \<bar>?n\<bar> / 2 ^ 53" using ze w by linarith
  ultimately show ?thesis by (rule that)
qed

lemma scale_unscale_round:
  assumes n: "\<bar>n\<bar> \<le> 2 ^ 50" and l: "2 powi (-500) \<le> l" "l \<le> 2 ^ 500"
  shows "to_i64 (std_round (of_i64 n * Fin l / Fin l)) = n"
proof (cases "n = 0")
  case True
  have "0 < l" using l(1) powi2_pos [of "-500"] by linarith
  then show ?thesis using True round_away_of_int [of 0] trunc_of_int [of 0]
    by (simp add: of_i64_def del: round_away_of_int trunc_of_int)
next
  case False
  obtain z where z: "of_i64 n * Fin l / Fin l = Fin z" and e: "\<bar>z - of_int n\<bar> \<le> 3 * \<bar>of_int n\<bar> / 2 ^ 53"
    using n False l by (rule scale_unscale_err)
  have "\<bar>of_int n :: rat\<bar> \<le> 2 ^ 50" using n by (metis of_int_abs of_int_le_iff of_int_numeral of_int_power)
  then have "\<bar>z - of_int n\<bar> < 1/2" using e by simp
  then have "round_away z = n" by (rule round_away_near)
  then show ?thesis using z n by (auto simp: abs_le_iff)
qed


lemma rnd_not_NaN [simp]: "rnd x \<noteq> NaN"
  by (simp add: rnd_def)

lemma rnd_between:
  assumes "rnd lo = Fin lo" and "rnd hi = Fin hi" and "lo \<le> x" and "x \<le> hi"
  obtains u where "rnd x = Fin u" and "lo \<le> u" and "u \<le> hi"
proof -
  have "Fin lo \<le> rnd x" "rnd x \<le> Fin hi"
    using rnd_mono [OF assms(3)] rnd_mono [OF assms(4)] assms(1,2) by simp_all
  then show ?thesis by (cases "rnd x") (auto simp: less_eq_double_def intro: that)
qed

lemma rnd_half: "rnd (1/2) = Fin (1/2)"
proof -
  have "rnd (1/2) = Fin (of_int (2 ^ 52) * 2 powi (-53))"
    by (rule rnd_evalI) (simp_all add: power_int_minus)
  then show ?thesis by (simp add: power_int_minus)
qed

lemma round_away_literal [simp]:
  "round_away 0 = 0" "round_away 1 = 1" "round_away (numeral k) = numeral k"
  using round_away_of_int [of 0] round_away_of_int [of 1] round_away_of_int [of "numeral k"] by simp_all

lemma trunc_literal [simp]: "trunc_rat 0 = 0" "trunc_rat 1 = 1" "trunc_rat (numeral k) = numeral k"
  using trunc_of_int [of 0] trunc_of_int [of 1] trunc_of_int [of "numeral k"] by simp_all

end
