(* ===== verification/Sor_Types.thy ===== *)
theory Sor_Types
  imports Double
begin

text \<open>
  \<^verbatim>\<open>src/sor/types.hpp\<close>: limits, conversions between doubles and integer ticks and lots, the
  enumerations, the fee matrix and the records of the routing engine.
  The padding members of the structs carry no information and are left out.

  The lemmas say what the conversions do to each other: ticks and lots survive a trip through
  \<^verbatim>\<open>double\<close> when the way back rounds; \<^verbatim>\<open>to_lots\<close>, which truncates, can lose a lot.
\<close>

definition kMaxExchanges :: nat where "kMaxExchanges = 5"
definition kMaxDepth :: nat where "kMaxDepth = 20"
definition kMaxChildOrders :: nat where "kMaxChildOrders = kMaxExchanges * kMaxDepth"

lemma kMaxChildOrders_eq [simp]: "kMaxChildOrders = 100"
  by (simp add: kMaxChildOrders_def kMaxExchanges_def kMaxDepth_def)

lemma kMaxExchanges_eq [simp]: "kMaxExchanges = 5"
  by (simp add: kMaxExchanges_def)

lemma kMaxDepth_eq [simp]: "kMaxDepth = 20"
  by (simp add: kMaxDepth_def)

definition to_ticks :: "double \<Rightarrow> double \<Rightarrow> price_t" where
  "to_ticks price tick_size = to_i64 (std_round (price / tick_size))"

definition to_lots :: "double \<Rightarrow> double \<Rightarrow> qty_t" where
  "to_lots qty lot_size = to_i64 (qty / lot_size)"

definition from_ticks :: "price_t \<Rightarrow> double \<Rightarrow> double" where
  "from_ticks ticks tick_size = of_i64 ticks * tick_size"

definition from_lots :: "qty_t \<Rightarrow> double \<Rightarrow> double" where
  "from_lots lots lot_size = of_i64 lots * lot_size"

datatype Side = BID | ASK
datatype OrderDir = BUY | SELL
datatype OrderType = MAKER | TAKER

text \<open>\<^verbatim>\<open>static_cast<uint8_t>(Side)\<close>, the index into \<^verbatim>\<open>NormalizedBook::sides\<close>.\<close>

fun side_index :: "Side \<Rightarrow> nat" where
  "side_index BID = 0"
| "side_index ASK = 1"

text \<open>\<^verbatim>\<open>FeeMatrix\<close>: the row of an exchange is its (maker, taker) pair.\<close>

record FeeMatrix =
  rates :: "(double \<times> double) list"

definition fee_taker :: "FeeMatrix \<Rightarrow> nat \<Rightarrow> double option" where
  "fee_taker f ex = map_option snd (nth_opt (rates f) ex)"

definition fee_maker :: "FeeMatrix \<Rightarrow> nat \<Rightarrow> double option" where
  "fee_maker f ex = map_option fst (nth_opt (rates f) ex)"

record ChildOrder =
  co_price :: double
  co_qty :: double
  co_effective_cost :: double
  co_exchange_id :: nat
  co_level_idx :: nat
  co_type :: OrderType
  co_dir :: OrderDir

record CostSlice =
  effective_ticks :: int
  available_lots :: qty_t
  raw_price_ticks :: price_t
  cs_exchange_id :: nat
  cs_level_idx :: nat

record SplitResult =
  sr_success :: bool
  sr_child_count :: nat
  sr_filled_qty :: double
  sr_unfilled_qty :: double
  sr_total_effective_cost :: double
  sr_avg_effective_price :: double
  sr_spread_capture_bps :: double
  sr_market_impact_bps :: double
  sr_adverse_selection_est :: double

text \<open>\<^verbatim>\<open>SplitResult result{}\<close>: every member zero.\<close>

definition empty_result :: SplitResult where
  "empty_result = \<lparr>sr_success = False, sr_child_count = 0, sr_filled_qty = 0, sr_unfilled_qty = 0,
     sr_total_effective_cost = 0, sr_avg_effective_price = 0, sr_spread_capture_bps = 0,
     sr_market_impact_bps = 0, sr_adverse_selection_est = 0\<rparr>"

subsection \<open>Round trips\<close>

text \<open>C38: Converting a price in ticks to a double and back with \<^verbatim>\<open>to_ticks\<close> gives the same
  number of ticks, for every tick size between \<open>2 ^ -500\<close> and \<open>2 ^ 500\<close> and every price up to
  \<open>2 ^ 50\<close> ticks, under binary64 rounding of the product and of the quotient.\<close>

theorem to_ticks_from_ticks:
  assumes "\<bar>n\<bar> \<le> 2 ^ 50" and "2 powi (-500) \<le> t" and "t \<le> 2 ^ 500"
  shows "to_ticks (from_ticks n (Fin t)) (Fin t) = n"
  unfolding to_ticks_def from_ticks_def using assms by (rule scale_unscale_round)

theorem to_ticks_from_ticks_witness:
  "to_ticks (from_ticks 130231 (Fin (1/2))) (Fin (1/2)) = 130231"
  by (rule to_ticks_from_ticks) (simp_all add: power_int_minus)

text \<open>The double of the literal \<open>0.001\<close>, the lot size of every example and of
  \<^verbatim>\<open>InstrumentTable::kFallbackLotSize\<close>.\<close>

lemma lit_thousandth: "lit (1/1000) = Fin (1152921504606847 / 2 ^ 60)"
proof -
  have "rnd (1/1000) = Fin (of_int 4611686018427388 * 2 powi (-62))"
    by (rule rnd_evalI) (simp_all add: power_int_minus)
  then show ?thesis by (simp add: lit_def power_int_minus)
qed

text \<open>The truncating conversion \<^verbatim>\<open>to_lots\<close> is not an inverse of \<^verbatim>\<open>from_lots\<close>: at the lot size
  \<open>0.001\<close>, 2001 lots become 2000 when converted to a quantity and back.\<close>

theorem to_lots_loses_a_lot:
  "to_lots (from_lots 2001 (lit (1/1000))) (lit (1/1000)) = 2000"
proof -
  let ?l = "1152921504606847 / 2 ^ 60 :: rat"
  have "rnd (2001 * ?l) = Fin (of_int 4505851427184181 * 2 powi (-51))"
    by (rule rnd_evalI) (simp_all add: power_int_minus)
  then have p: "from_lots 2001 (Fin ?l) = Fin (4505851427184181 / 2 ^ 51)"
    by (simp add: from_lots_def of_i64_def power_int_minus)
  have "rnd (4505851427184181 / 2 ^ 51 / ?l) = Fin (of_int 8800491068719103 * 2 powi (-42))"
    by (rule rnd_evalI) (simp_all add: power_int_minus)
  then have "Fin (4505851427184181 / 2 ^ 51) / Fin ?l = Fin (8800491068719103 / 2 ^ 42)"
    by (simp add: power_int_minus)
  then show ?thesis unfolding lit_thousandth p by (simp add: to_lots_def trunc_rat_def floor_eq_iff)
qed

end
