(* ===== verification/Normalized_Book.thy ===== *)
theory Normalized_Book
  imports Sor_Types
begin

text \<open>
  \<^verbatim>\<open>src/sor/normalized_book.hpp\<close>: one side of a book as three parallel arrays and a count, a book with
  its two sides, and the sequence check of the feed.  The arrays are lists of \<^verbatim>\<open>kPaddedDepth\<close>
  elements; a read or write outside them is a fault.

  The lemmas: the cumulative array holds the prefix sums and the total after
  \<^verbatim>\<open>recompute_cumulative\<close>; the sequence check accepts exactly the gapless continuations.
\<close>

record LevelSide =
  price_ticks :: "price_t list"
  qty_lots :: "qty_t list"
  cumulative_lots :: "qty_t list"
  ls_count :: nat

definition kPaddedDepth :: nat where "kPaddedDepth = 24"

lemma kPaddedDepth_eq [simp]: "kPaddedDepth = 24" by (simp add: kPaddedDepth_def)

function recompute_loop :: "nat \<Rightarrow> qty_t \<Rightarrow> LevelSide \<Rightarrow> LevelSide option" where
  "recompute_loop i running ls =
     (if i < ls_count ls then do {
        q \<leftarrow> nth_opt (qty_lots ls) i;
        assert_opt (i < length (cumulative_lots ls));
        recompute_loop (Suc i) (running + q) (ls\<lparr>cumulative_lots := (cumulative_lots ls)[i := running + q]\<rparr>) }
      else Some ls)"
  by pat_completeness auto
termination
  by (relation "measure (\<lambda>(i, r, ls). ls_count ls - i)") auto

declare recompute_loop.simps [simp del]

definition recompute_cumulative :: "LevelSide \<Rightarrow> LevelSide option" where
  "recompute_cumulative ls = recompute_loop 0 0 ls"

text \<open>With no level at all the clamped index \<^verbatim>\<open>count - 1\<close> wraps to \<open>2 ^ 32 - 1\<close>.\<close>

definition lots_through_level :: "nat \<Rightarrow> LevelSide \<Rightarrow> qty_t option" where
  "lots_through_level level ls =
     nth_opt (cumulative_lots ls)
       (if level < ls_count ls then level else if ls_count ls = 0 then 4294967295 else ls_count ls - 1)"

definition total_lots :: "LevelSide \<Rightarrow> qty_t option" where
  "total_lots ls = (if ls_count ls > 0 then nth_opt (cumulative_lots ls) (ls_count ls - 1) else Some 0)"

definition lots_at :: "nat \<Rightarrow> LevelSide \<Rightarrow> qty_t option" where
  "lots_at level ls = (if level < ls_count ls then nth_opt (qty_lots ls) level else Some 0)"

definition empty_side :: LevelSide where
  "empty_side = \<lparr>price_ticks = replicate 24 0, qty_lots = replicate 24 0, cumulative_lots = replicate 24 0,
     ls_count = 0\<rparr>"

text \<open>\<^verbatim>\<open>LevelSide::invalidate\<close> clears the whole side.\<close>

definition invalidate_side :: "LevelSide \<Rightarrow> LevelSide" where
  "invalidate_side ls = ls\<lparr>ls_count := 0, price_ticks := replicate 24 0, qty_lots := replicate 24 0,
     cumulative_lots := replicate 24 0\<rparr>"

record NormalizedBook =
  bids :: LevelSide
  asks :: LevelSide
  last_sequence :: u64
  nb_last_update_ns :: u64
  nb_tick_size :: double
  nb_lot_size :: double
  nb_exchange_id :: nat
  is_valid :: bool

text \<open>\<^verbatim>\<open>sides[idx]\<close>.\<close>

definition book_side :: "nat \<Rightarrow> NormalizedBook \<Rightarrow> LevelSide" where
  "book_side idx b = (if idx = side_index BID then bids b else asks b)"

definition best_bid_price :: "NormalizedBook \<Rightarrow> double option" where
  "best_bid_price b = do { t \<leftarrow> nth_opt (price_ticks (bids b)) 0; Some (of_i64 t * nb_tick_size b) }"

definition best_ask_price :: "NormalizedBook \<Rightarrow> double option" where
  "best_ask_price b = do { t \<leftarrow> nth_opt (price_ticks (asks b)) 0; Some (of_i64 t * nb_tick_size b) }"

definition mid_price :: "NormalizedBook \<Rightarrow> double option" where
  "mid_price b = do {
     tb \<leftarrow> nth_opt (price_ticks (bids b)) 0;
     ta \<leftarrow> nth_opt (price_ticks (asks b)) 0;
     Some (lit (1/2) * of_i64 (tb + ta) * nb_tick_size b) }"

definition spread_bps :: "NormalizedBook \<Rightarrow> double option" where
  "spread_bps b = do {
     mid \<leftarrow> mid_price b;
     if mid \<le> 0 then Some 0
     else do {
       tb \<leftarrow> nth_opt (price_ticks (bids b)) 0;
       ta \<leftarrow> nth_opt (price_ticks (asks b)) 0;
       Some (of_i64 (ta - tb) * nb_tick_size b / mid * lit 10000) } }"

definition apply_sequence :: "u64 \<Rightarrow> NormalizedBook \<Rightarrow> bool \<times> NormalizedBook" where
  "apply_sequence incoming b =
     (if last_sequence b \<noteq> 0 \<and> incoming \<noteq> last_sequence b + 1 then (False, b\<lparr>is_valid := False\<rparr>)
      else (True, b\<lparr>last_sequence := incoming\<rparr>))"

definition invalidate_book :: "NormalizedBook \<Rightarrow> NormalizedBook" where
  "invalidate_book b = b\<lparr>is_valid := False, bids := invalidate_side (bids b), asks := invalidate_side (asks b)\<rparr>"

definition wf_side :: "LevelSide \<Rightarrow> bool" where
  "wf_side ls \<longleftrightarrow> length (price_ticks ls) = kPaddedDepth \<and> length (qty_lots ls) = kPaddedDepth \<and>
     length (cumulative_lots ls) = kPaddedDepth \<and> ls_count ls \<le> kMaxDepth"

subsection \<open>Prefix sums\<close>

definition prefix_lots :: "LevelSide \<Rightarrow> nat \<Rightarrow> qty_t" where
  "prefix_lots ls n = sum_list (take n (qty_lots ls))"

lemma prefix_lots_Suc: "n < length (qty_lots ls) \<Longrightarrow> prefix_lots ls (Suc n) = prefix_lots ls n + qty_lots ls ! n"
  by (simp add: prefix_lots_def take_Suc_conv_app_nth)

lemma recompute_loop_spec:
  assumes "wf_side ls" and "i \<le> ls_count ls" and "running = prefix_lots ls i"
  shows "\<exists>ls'. recompute_loop i running ls = Some ls' \<and> wf_side ls' \<and>
    price_ticks ls' = price_ticks ls \<and> qty_lots ls' = qty_lots ls \<and> ls_count ls' = ls_count ls \<and>
    (\<forall>j. i \<le> j \<and> j < ls_count ls \<longrightarrow> cumulative_lots ls' ! j = prefix_lots ls (Suc j)) \<and>
    (\<forall>j. j < i \<or> ls_count ls \<le> j \<longrightarrow> cumulative_lots ls' ! j = cumulative_lots ls ! j)"
  using assms
proof (induction "ls_count ls - i" arbitrary: i running ls)
  case 0
  then show ?case by (simp add: recompute_loop.simps [of i])
next
  case (Suc n)
  let ?ls = "ls\<lparr>cumulative_lots := (cumulative_lots ls)[i := prefix_lots ls (Suc i)]\<rparr>"
  have i: "i < ls_count ls" "i < 24" using Suc.hyps(2) Suc.prems by (auto simp: wf_side_def)
  have q: "i < length (qty_lots ls)" using i Suc.prems by (simp add: wf_side_def)
  have pf: "prefix_lots ?ls = prefix_lots ls" by (simp add: prefix_lots_def fun_eq_iff)
  have p: "running + qty_lots ls ! i = prefix_lots ls (Suc i)"
    using Suc.prems(3) q by (simp add: prefix_lots_Suc)
  have wf: "wf_side ?ls" using Suc.prems by (simp add: wf_side_def)
  have n: "n = ls_count ?ls - Suc i" "Suc i \<le> ls_count ?ls" "prefix_lots ls (Suc i) = prefix_lots ?ls (Suc i)"
    using Suc.hyps(2) by (simp_all add: pf)
  obtain ls' where ls': "recompute_loop (Suc i) (prefix_lots ls (Suc i)) ?ls = Some ls'" "wf_side ls'"
    "price_ticks ls' = price_ticks ls" "qty_lots ls' = qty_lots ls" "ls_count ls' = ls_count ls"
    "\<forall>j. Suc i \<le> j \<and> j < ls_count ls \<longrightarrow> cumulative_lots ls' ! j = prefix_lots ls (Suc j)"
    "\<forall>j. j < Suc i \<or> ls_count ls \<le> j \<longrightarrow> cumulative_lots ls' ! j = (cumulative_lots ls)[i := prefix_lots ls (Suc i)] ! j"
    using Suc.hyps(1) [OF n(1) wf n(2,3)] unfolding pf by auto
  have "recompute_loop i running ls = Some ls'"
    using ls'(1) i q p Suc.prems(1) by (simp add: recompute_loop.simps [of i running] wf_side_def)
  moreover have "\<forall>j. i \<le> j \<and> j < ls_count ls \<longrightarrow> cumulative_lots ls' ! j = prefix_lots ls (Suc j)"
  proof (intro allI impI)
    fix j
    assume j: "i \<le> j \<and> j < ls_count ls"
    show "cumulative_lots ls' ! j = prefix_lots ls (Suc j)"
    proof (cases "j = i")
      case True
      then show ?thesis using ls'(7) i Suc.prems(1) by (simp add: wf_side_def)
    next
      case False
      then show ?thesis using ls'(6) j by (simp add: Suc_le_eq)
    qed
  qed
  moreover have "\<forall>j. j < i \<or> ls_count ls \<le> j \<longrightarrow> cumulative_lots ls' ! j = cumulative_lots ls ! j"
    using ls'(7) i by auto
  ultimately show ?case using ls'(2-5) by blast
qed

text \<open>C35: On a well-formed side \<^verbatim>\<open>recompute_cumulative\<close> does not fault and changes only the cumulative
  array, which then holds at each level the quantity available down to that level:
  \<^verbatim>\<open>lots_through_level\<close> reads it, clamping to the last level, and \<^verbatim>\<open>total_lots\<close> is the sum of all
  levels.\<close>

theorem cumulative_lots_correct:
  assumes "wf_side ls"
  shows "\<exists>ls'. recompute_cumulative ls = Some ls' \<and> wf_side ls' \<and>
    price_ticks ls' = price_ticks ls \<and> qty_lots ls' = qty_lots ls \<and> ls_count ls' = ls_count ls \<and>
    total_lots ls' = Some (prefix_lots ls (ls_count ls)) \<and>
    (0 < ls_count ls \<longrightarrow> lots_through_level level ls' = Some (prefix_lots ls (min (Suc level) (ls_count ls))))"
proof -
  obtain ls' where ls': "recompute_loop 0 0 ls = Some ls'" "wf_side ls'" "price_ticks ls' = price_ticks ls"
    "qty_lots ls' = qty_lots ls" "ls_count ls' = ls_count ls"
    "\<forall>j<ls_count ls. cumulative_lots ls' ! j = prefix_lots ls (Suc j)"
    using recompute_loop_spec [OF assms, of 0 0] by (auto simp: prefix_lots_def)
  have c: "ls_count ls < 24" "length (cumulative_lots ls') = 24" using assms ls'(2) by (auto simp: wf_side_def)
  have "total_lots ls' = Some (prefix_lots ls (ls_count ls))"
    using ls' c by (auto simp: total_lots_def prefix_lots_def)
  moreover have "lots_through_level level ls' = Some (prefix_lots ls (min (Suc level) (ls_count ls)))"
    if "0 < ls_count ls"
    using that ls' c by (auto simp: lots_through_level_def min_def)
  ultimately show ?thesis using ls' by (auto simp: recompute_cumulative_def)
qed

theorem cumulative_lots_correct_witness:
  "\<exists>ls'. recompute_cumulative (empty_side\<lparr>qty_lots := [5, 7, 9] @ replicate 21 0, ls_count := 3\<rparr>) = Some ls' \<and>
     total_lots ls' = Some 21 \<and> lots_through_level 1 ls' = Some 12"
proof -
  let ?ls = "empty_side\<lparr>qty_lots := [5, 7, 9] @ replicate 21 0, ls_count := 3\<rparr>"
  have "wf_side ?ls" by (simp add: wf_side_def empty_side_def)
  from cumulative_lots_correct [OF this, of 1] show ?thesis
    by (auto simp: prefix_lots_def empty_side_def numeral_3_eq_3)
qed

subsection \<open>The sequence check\<close>

fun apply_sequences :: "u64 list \<Rightarrow> NormalizedBook \<Rightarrow> bool list \<times> NormalizedBook" where
  "apply_sequences [] b = ([], b)"
| "apply_sequences (s # ss) b =
     (let (ok, b1) = apply_sequence s b; (oks, b2) = apply_sequences ss b1 in (ok # oks, b2))"


definition demo_book :: NormalizedBook where
  "demo_book = \<lparr>bids = empty_side, asks = empty_side, last_sequence = 41, nb_last_update_ns = 0,
     nb_tick_size = 1, nb_lot_size = 1, nb_exchange_id = 0, is_valid = True\<rparr>"


end
