(* ===== verification/Exchange_State.thy ===== *)
theory Exchange_State
  imports Normalized_Book
begin

text \<open>
  \<^verbatim>\<open>src/sor/exchange_state.hpp\<close>: the latency estimate of an exchange, its lot constraints and state,
  the context of one routing decision and the buffer of child orders.  The buffer is the list of
  its first \<^verbatim>\<open>count\<close> orders; \<^verbatim>\<open>states\<close>, a pointer to an array of exchange states, is a list.

  The lemmas keep the latency estimate within its cap.
\<close>

record LatencyTracker =
  ewma_rtt_us :: double
  sample_count :: u64

definition kAlpha :: double where "kAlpha = lit (1/10)"
definition kMaxRttUs :: double where "kMaxRttUs = lit 10000"
definition kPenaltyBpsPerUs :: double where "kPenaltyBpsPerUs = lit (1/1000)"
definition kVolSensitivity :: double where "kVolSensitivity = lit 2"
definition kImbSensitivity :: double where "kImbSensitivity = lit (3/2)"

definition latency_init :: LatencyTracker where
  "latency_init = \<lparr>ewma_rtt_us = lit 500, sample_count = 0\<rparr>"

definition latency_update :: "double \<Rightarrow> LatencyTracker \<Rightarrow> LatencyTracker" where
  "latency_update rtt_us l =
     (let capped = (if rtt_us < kMaxRttUs then rtt_us else kMaxRttUs); current = ewma_rtt_us l
      in l\<lparr>ewma_rtt_us := kAlpha * capped + (1 - kAlpha) * current, sample_count := sample_count l + 1\<rparr>)"

definition get_rtt_us :: "LatencyTracker \<Rightarrow> double" where
  "get_rtt_us l = ewma_rtt_us l"

definition latency_cost_adj :: "LatencyTracker \<Rightarrow> double" where
  "latency_cost_adj l = kPenaltyBpsPerUs * get_rtt_us l * lit (1/10000)"

definition dynamic_cost_adj :: "double \<Rightarrow> double \<Rightarrow> LatencyTracker \<Rightarrow> double" where
  "dynamic_cost_adj vol_factor directional_imb l =
     (let base = kPenaltyBpsPerUs * get_rtt_us l * lit (1/10000);
          vol_scale = 1 + kVolSensitivity * vol_factor;
          imb_pos = (if directional_imb > 0 then directional_imb else 0)
      in base * vol_scale * (1 + kImbSensitivity * imb_pos))"

record LotConstraints =
  lc_lot_size :: double
  lc_tick_size :: double
  lc_min_qty :: double
  lc_max_qty :: double
  lc_max_notional :: double

record ExchangeState =
  es_book :: NormalizedBook
  es_latency :: LatencyTracker
  es_lot :: LotConstraints
  es_fees :: FeeMatrix
  es_exchange_id :: nat
  es_enabled :: bool

record RoutingContext =
  ctx_states :: "ExchangeState list"
  ctx_active_exchanges :: nat
  ctx_dir :: OrderDir
  ctx_target_lots :: qty_t
  ctx_limit_price :: double
  ctx_reference_lot_size :: double
  ctx_decision_ns :: u64
  ctx_short_vol_factor :: double
  ctx_book_imbalance :: double

type_synonym ChildOrderBuffer = "ChildOrder list"

definition buf_full :: "ChildOrderBuffer \<Rightarrow> bool" where
  "buf_full out \<longleftrightarrow> length out \<ge> kMaxChildOrders"

subsection \<open>The latency estimate stays within its cap\<close>

definition rtt_ok :: "LatencyTracker \<Rightarrow> bool" where
  "rtt_ok l \<longleftrightarrow> (\<exists>x. ewma_rtt_us l = Fin x \<and> 0 \<le> x \<and> x \<le> 10000)"

definition latency_updates :: "double list \<Rightarrow> LatencyTracker \<Rightarrow> LatencyTracker" where
  "latency_updates rtts l = fold latency_update rtts l"

lemma kMaxRttUs_eq: "kMaxRttUs = Fin 10000"
  by (simp add: kMaxRttUs_def lit_def)

lemma kAlpha_eq: "kAlpha = Fin (3602879701896397 / 2 ^ 55)"
proof -
  have "rnd (1/10) = Fin (of_int 7205759403792794 * 2 powi (-56))"
    by (rule rnd_evalI) (simp_all add: power_int_minus)
  then show ?thesis by (simp add: kAlpha_def lit_def power_int_minus)
qed

lemma one_minus_kAlpha: "1 - kAlpha = Fin (8106479329266893 / 2 ^ 53)"
proof -
  have "rnd (1 - 3602879701896397 / 2 ^ 55) = Fin (of_int 8106479329266893 * 2 powi (-53))"
    by (rule rnd_evalI) (simp_all add: power_int_minus)
  then show ?thesis by (simp add: kAlpha_eq one_double_def minus_double_def power_int_minus)
qed

lemma rnd_scaled_le:
  assumes "rnd (a * m) = Fin b" and "0 \<le> a" and "0 \<le> x" and "x \<le> m" and "rnd b = Fin b"
  obtains u where "Fin a * Fin x = Fin u" and "0 \<le> u" and "u \<le> b"
proof -
  have "0 \<le> a * x" "a * x \<le> a * m" using assms by (simp_all add: mult_left_mono)
  then have "Fin 0 \<le> rnd (a * x)" "rnd (a * x) \<le> Fin b"
    using rnd_mono [of 0 "a * x"] rnd_mono [of "a * x" "a * m"] assms(1) by simp_all
  then show ?thesis by (cases "rnd (a * x)") (auto simp: less_eq_double_def intro: that)
qed

lemma alpha_times_max: "rnd (3602879701896397 / 2 ^ 55 * 10000) = Fin 1000"
proof -
  have "rnd (3602879701896397 / 2 ^ 55 * 10000) = Fin (of_int (1000 * 2 ^ 43) * 2 powi (-43))"
    by (rule rnd_evalI) (simp_all add: power_int_minus)
  then show ?thesis by (simp add: power_int_minus)
qed

lemma beta_times_max: "rnd (8106479329266893 / 2 ^ 53 * 10000) = Fin 9000"
proof -
  have "rnd (8106479329266893 / 2 ^ 53 * 10000) = Fin (of_int (9000 * 2 ^ 39) * 2 powi (-39))"
    by (rule rnd_evalI) (simp_all add: power_int_minus)
  then show ?thesis by (simp add: power_int_minus)
qed

lemma latency_update_ok:
  assumes "rtt_ok l" and "r = NaN \<or> 0 \<le> r"
  shows "rtt_ok (latency_update r l)"
proof -
  obtain x where x: "ewma_rtt_us l = Fin x" "0 \<le> x" "x \<le> 10000" using assms(1) by (auto simp: rtt_ok_def)
  obtain y where y: "(if r < kMaxRttUs then r else kMaxRttUs) = Fin y" "0 \<le> y" "y \<le> 10000"
    using assms(2) that [of 10000] unfolding kMaxRttUs_eq
    by (cases "r < Fin 10000"; cases r) (auto simp: zero_double_def less_eq_double_def)
  obtain u where u: "kAlpha * Fin y = Fin u" "0 \<le> u" "u \<le> 1000"
    using rnd_scaled_le [OF alpha_times_max _ y(2,3)] unfolding kAlpha_eq by auto
  obtain v where v: "(1 - kAlpha) * Fin x = Fin v" "0 \<le> v" "v \<le> 9000"
    using rnd_scaled_le [OF beta_times_max _ x(2,3)] unfolding one_minus_kAlpha by auto
  obtain w where w: "rnd (u + v) = Fin w" "0 \<le> w" "w \<le> 10000"
    using rnd_between [of 0 10000 "u + v"] u v by auto
  show ?thesis using x y u v w by (simp add: rtt_ok_def latency_update_def Let_def)
qed

text \<open>C37: The latency estimate of an exchange stays between 0 and the 10 ms cap under every sequence
  of samples, also samples above the cap, infinite ones and NaN, with the binary64 rounding of the
  moving average; only a negative sample could take it out of that range.\<close>

theorem latency_estimate_bounded:
  assumes "\<forall>r\<in>set rtts. r = NaN \<or> 0 \<le> r"
  shows "\<exists>x. get_rtt_us (latency_updates rtts latency_init) = Fin x \<and> 0 \<le> x \<and> x \<le> 10000"
proof -
  have "rtt_ok (latency_updates rtts l)" if "rtt_ok l" "\<forall>r\<in>set rtts. r = NaN \<or> 0 \<le> r" for l
    using that by (induction rtts arbitrary: l) (auto simp: latency_updates_def latency_update_ok)
  moreover have "rtt_ok latency_init" by (simp add: rtt_ok_def latency_init_def lit_def)
  ultimately show ?thesis using assms by (auto simp: rtt_ok_def get_rtt_us_def)
qed

theorem latency_estimate_bounded_witness:
  "\<exists>x. get_rtt_us (latency_updates [Fin 820, PInf, NaN, Fin 50000] latency_init) = Fin x \<and> 0 \<le> x \<and> x \<le> 10000"
  by (rule latency_estimate_bounded) (simp add: zero_double_def)

end
