(* ===== verification/Routing_Engine.thy ===== *)
theory Routing_Engine
  imports Exchange_State "HOL-Library.Multiset"
begin

text \<open>
  \<^verbatim>\<open>src/sor/routing_engine.hpp\<close> and \<^verbatim>\<open>routing_engine.cpp\<close>: the smart order router.  The C library's
  exponential is the parameter \<open>expf\<close>.  The workspace of slices is the list of its first
  \<^verbatim>\<open>slice_count\<close> entries; the array of cursors is the list of its first \<^verbatim>\<open>ncursors\<close>.  Reads through
  \<^verbatim>\<open>ctx.states\<close>, the book arrays and the fee matrix are checked, so a fault is \<open>None\<close>; so is a failed
  \<^verbatim>\<open>assert\<close>.

  The lemmas: the merge of the book sides is the stable sort, by effective price, of all the levels
  an order may take; the greedy sweep allocates as much as it can and never more than asked, and
  does so at the least cost; neither faults on well-formed inputs; the maker placement takes the
  best quote.
\<close>

subsection \<open>Fill rate and reference lot size\<close>

definition kLatDecay :: double where "kLatDecay = lit (1/5000)"
definition kVolFillPenalty :: double where "kVolFillPenalty = lit (1/10)"
definition kImbFillPenalty :: double where "kImbFillPenalty = lit (8/100)"
definition kMinFillRate :: double where "kMinFillRate = lit (1/2)"

record RoutingEngine =
  eng_fees :: FeeMatrix

definition update_fees :: "FeeMatrix \<Rightarrow> RoutingEngine \<Rightarrow> RoutingEngine" where
  "update_fees f e = e\<lparr>eng_fees := f\<rparr>"

definition resolve_reference_lot_size :: "RoutingContext \<Rightarrow> double option" where
  "resolve_reference_lot_size ctx =
     (if ctx_reference_lot_size ctx > 0 then Some (ctx_reference_lot_size ctx)
      else do { st \<leftarrow> nth_opt (ctx_states ctx) 0; Some (nb_lot_size (es_book st)) })"

definition estimate_fill_rate :: "(double \<Rightarrow> double) \<Rightarrow> double \<Rightarrow> double \<Rightarrow> double \<Rightarrow> double" where
  "estimate_fill_rate expf rtt_us vol_factor directional_imb =
     (let lat = expf (- kLatDecay * rtt_us);
          vol = 1 - kVolFillPenalty * vol_factor;
          imb_pos = (if directional_imb > 0 then directional_imb else 0);
          imb = 1 - kImbFillPenalty * imb_pos;
          rate = lat * vol * imb
      in if rate > kMinFillRate then rate else kMinFillRate)"

subsection \<open>Cursors\<close>

record Cursor =
  cu_state :: ExchangeState
  cu_levels :: LevelSide
  cu_tick_size :: double
  cu_lot_size :: double
  cu_lot_ratio :: double
  cu_fill_rate :: double
  cu_penalty_ticks :: int
  cu_dir_sign :: int
  cu_limit_ticks :: price_t
  cu_min_lots :: qty_t
  cu_max_lots :: qty_t
  cu_level_idx :: nat
  cu_exhausted :: bool

function seek_next_valid :: "Cursor \<Rightarrow> Cursor option" where
  "seek_next_valid c =
     (if cu_level_idx c < ls_count (cu_levels c) then do {
        pt \<leftarrow> nth_opt (price_ticks (cu_levels c)) (cu_level_idx c);
        if cu_limit_ticks c \<noteq> 0 \<and> cu_dir_sign c > 0 \<and> pt > cu_limit_ticks c then Some (c\<lparr>cu_exhausted := True\<rparr>)
        else if cu_limit_ticks c \<noteq> 0 \<and> cu_dir_sign c < 0 \<and> pt < cu_limit_ticks c then Some (c\<lparr>cu_exhausted := True\<rparr>)
        else do {
          q \<leftarrow> nth_opt (qty_lots (cu_levels c)) (cu_level_idx c);
          if q \<ge> cu_min_lots c then Some c
          else seek_next_valid (c\<lparr>cu_level_idx := cu_level_idx c + 1\<rparr>) } }
      else Some (c\<lparr>cu_exhausted := True\<rparr>))"
  by pat_completeness auto
termination
  by (relation "measure (\<lambda>c. ls_count (cu_levels c) - cu_level_idx c)") auto

declare seek_next_valid.simps [simp del]

definition side_idx_for :: "OrderDir \<Rightarrow> nat" where
  "side_idx_for dir = (if dir = BUY then side_index ASK else side_index BID)"

definition directional_imb_of :: "RoutingContext \<Rightarrow> double" where
  "directional_imb_of ctx =
     (if ctx_dir ctx = BUY then (if ctx_book_imbalance ctx > 0 then ctx_book_imbalance ctx else 0)
      else (if ctx_book_imbalance ctx < 0 then - ctx_book_imbalance ctx else 0))"

text \<open>The body of the loop over the exchanges that fills in one cursor, up to \<^verbatim>\<open>seek_next_valid\<close>.\<close>

definition make_cursor :: "(double \<Rightarrow> double) \<Rightarrow> RoutingEngine \<Rightarrow> RoutingContext \<Rightarrow> double \<Rightarrow> ExchangeState \<Rightarrow> Cursor option" where
  "make_cursor expf eng ctx ref_lot_size state = do {
     let directional_imb = directional_imb_of ctx;
     let levels = book_side (side_idx_for (ctx_dir ctx)) (es_book state);
     let tick_size = nb_tick_size (es_book state);
     let lot_size = nb_lot_size (es_book state);
     taker \<leftarrow> fee_taker (eng_fees eng) (es_exchange_id state);
     let combined_adj = taker + dynamic_cost_adj (ctx_short_vol_factor ctx) directional_imb (es_latency state);
     ref_ticks \<leftarrow> (if ls_count levels > 0 then nth_opt (price_ticks levels) 0 else Some 0);
     Some \<lparr>cu_state = state, cu_levels = levels, cu_tick_size = tick_size, cu_lot_size = lot_size,
       cu_lot_ratio = lot_size / ref_lot_size,
       cu_fill_rate = estimate_fill_rate expf (get_rtt_us (es_latency state)) (ctx_short_vol_factor ctx) directional_imb,
       cu_penalty_ticks = to_i64 (std_round (of_i64 ref_ticks * combined_adj)),
       cu_dir_sign = (if ctx_dir ctx = BUY then 1 else -1),
       cu_limit_ticks = (if ctx_limit_price ctx > 0 then to_i64 (std_round (ctx_limit_price ctx / tick_size)) else 0),
       cu_min_lots = to_i64 (std_round (lc_min_qty (es_lot state) / lot_size)),
       cu_max_lots = to_i64 (lc_max_qty (es_lot state) / lot_size),
       cu_level_idx = 0, cu_exhausted = (ls_count levels = 0)\<rparr> }"

text \<open>The loop over the exchanges: the cursors that have a level to offer.\<close>

fun build_cursors :: "(double \<Rightarrow> double) \<Rightarrow> RoutingEngine \<Rightarrow> RoutingContext \<Rightarrow> double \<Rightarrow> nat list \<Rightarrow> Cursor list option" where
  "build_cursors expf eng ctx ref_lot_size [] = Some []"
| "build_cursors expf eng ctx ref_lot_size (ex # exs) = do {
     state \<leftarrow> nth_opt (ctx_states ctx) ex;
     if \<not> es_enabled state \<or> \<not> is_valid (es_book state)
     then build_cursors expf eng ctx ref_lot_size exs
     else do {
       c \<leftarrow> make_cursor expf eng ctx ref_lot_size state;
       c' \<leftarrow> (if \<not> cu_exhausted c then seek_next_valid c else Some c);
       cs \<leftarrow> build_cursors expf eng ctx ref_lot_size exs;
       Some (if \<not> cu_exhausted c' then c' # cs else cs) } }"

subsection \<open>Merge\<close>

text \<open>The linear scan for the smallest effective price; \<^verbatim>\<open>best_k = kMaxExchanges\<close> means none.\<close>

fun scan_best :: "Cursor list \<Rightarrow> nat \<Rightarrow> nat \<times> int \<Rightarrow> (nat \<times> int) option" where
  "scan_best [] k acc = Some acc"
| "scan_best (c # cs) k acc =
     (if cu_exhausted c then scan_best cs (Suc k) acc
      else do {
        pt \<leftarrow> nth_opt (price_ticks (cu_levels c)) (cu_level_idx c);
        let eff = cu_dir_sign c * pt + cu_penalty_ticks c;
        scan_best cs (Suc k) (if eff < snd acc then (k, eff) else acc) })"

text \<open>The canonical lots a level contributes; zero means that the level is skipped.\<close>

definition adj_lots :: "Cursor \<Rightarrow> qty_t \<Rightarrow> qty_t" where
  "adj_lots c ql = (let clamped = (if ql < cu_max_lots c then ql else cu_max_lots c)
     in to_i64 (of_i64 clamped * cu_fill_rate c))"

definition canonical_lots :: "Cursor \<Rightarrow> qty_t \<Rightarrow> qty_t" where
  "canonical_lots c adj = to_i64 (std_round (of_i64 adj * cu_lot_ratio c))"

definition cursor_left :: "Cursor \<Rightarrow> nat" where
  "cursor_left c = (if cu_exhausted c then 0 else Suc (length (price_ticks (cu_levels c)) - cu_level_idx c))"

lemma seek_next_valid_frame:
  "seek_next_valid c = Some c' \<Longrightarrow>
     c' = c\<lparr>cu_level_idx := cu_level_idx c', cu_exhausted := cu_exhausted c'\<rparr> \<and> cu_level_idx c \<le> cu_level_idx c'"
proof (induction c rule: seek_next_valid.induct)
  case (1 c)
  show ?case
  proof (cases "cu_level_idx c < ls_count (cu_levels c)")
    case False
    then show ?thesis using 1(2) by (auto simp: seek_next_valid.simps [of c])
  next
    case True
    then obtain pt where pt: "nth_opt (price_ticks (cu_levels c)) (cu_level_idx c) = Some pt"
      using 1(2) by (auto simp: seek_next_valid.simps [of c] elim: bind_eq_SomeE)
    show ?thesis
    proof (cases "(cu_limit_ticks c \<noteq> 0 \<and> cu_dir_sign c > 0 \<and> pt > cu_limit_ticks c) \<or>
        (cu_limit_ticks c \<noteq> 0 \<and> cu_dir_sign c < 0 \<and> pt < cu_limit_ticks c)")
      case lim: True
      then show ?thesis using 1(2) True pt by (auto simp: seek_next_valid.simps [of c] split: if_splits)
    next
      case lim: False
      then obtain q where q: "nth_opt (qty_lots (cu_levels c)) (cu_level_idx c) = Some q"
        using 1(2) True pt by (auto simp: seek_next_valid.simps [of c] elim: bind_eq_SomeE split: if_splits)
      show ?thesis
      proof (cases "q \<ge> cu_min_lots c")
        case m: True
        then show ?thesis using 1(2) True pt lim q by (auto simp: seek_next_valid.simps [of c] split: if_splits)
      next
        case m: False
        then have "seek_next_valid (c\<lparr>cu_level_idx := cu_level_idx c + 1\<rparr>) = Some c'"
          using 1(2) True pt lim q by (simp add: seek_next_valid.simps [of c] split: if_splits)
        with 1(1) True pt lim q m
        have "c' = (c\<lparr>cu_level_idx := cu_level_idx c + 1\<rparr>)\<lparr>cu_level_idx := cu_level_idx c', cu_exhausted := cu_exhausted c'\<rparr> \<and>
          cu_level_idx (c\<lparr>cu_level_idx := cu_level_idx c + 1\<rparr>) \<le> cu_level_idx c'"
          by blast
        then show ?thesis by simp
      qed
    qed
  qed
qed

lemma scan_best_cases:
  "scan_best cs k acc = Some (bk, be) \<Longrightarrow>
     (bk, be) = acc \<or> (k \<le> bk \<and> bk < k + length cs \<and> \<not> cu_exhausted (cs ! (bk - k)))"
proof (induction cs arbitrary: k acc)
  case (Cons c cs)
  show ?case
  proof (cases "cu_exhausted c")
    case True
    then show ?thesis using Cons.IH [of "Suc k" acc] Cons.prems by (auto simp: nth_Cons' Suc_le_eq)
  next
    case False
    then obtain pt where pt: "nth_opt (price_ticks (cu_levels c)) (cu_level_idx c) = Some pt"
      using Cons.prems by (auto elim: bind_eq_SomeE)
    let ?acc = "if cu_dir_sign c * pt + cu_penalty_ticks c < snd acc then (k, cu_dir_sign c * pt + cu_penalty_ticks c) else acc"
    have "scan_best cs (Suc k) ?acc = Some (bk, be)" using Cons.prems False pt by (simp add: Let_def)
    from Cons.IH [OF this] show ?thesis using False by (auto simp: nth_Cons' Suc_le_eq split: if_splits)
  qed
qed simp

lemma merge_decreases:
  assumes "scan_best cursors 0 (kMaxExchanges, INT64_MAX) = Some best" and "fst best \<noteq> kMaxExchanges"
    and "nth_opt cursors (fst best) = Some c" and "nth_opt (price_ticks (cu_levels c)) (cu_level_idx c) = Some pt"
    and "seek_next_valid (c\<lparr>cu_level_idx := cu_level_idx c + 1\<rparr>) = Some c'"
  shows "(\<Sum>c\<leftarrow>cursors[fst best := c']. cursor_left c) < (\<Sum>c\<leftarrow>cursors. cursor_left c)"
proof (rule sum_list_map_update_less)
  show k: "fst best < length cursors" using assms(3) by (simp add: nth_opt_eq_Some)
  have c: "c = cursors ! fst best" using assms(3) by (simp add: nth_opt_eq_Some)
  have "\<not> cu_exhausted c" using scan_best_cases [of cursors 0 "(kMaxExchanges, INT64_MAX)" "fst best" "snd best"] assms(1,2) c by auto
  moreover have "cu_level_idx c < length (price_ticks (cu_levels c))" using assms(4) by (simp add: nth_opt_eq_Some)
  moreover have "cu_levels c' = cu_levels c" "cu_level_idx c + 1 \<le> cu_level_idx c'"
    using seek_next_valid_frame [OF assms(5)] by (cases c; cases c'; simp)+
  ultimately show "cursor_left c' < cursor_left (cursors ! fst best)"
    by (auto simp: cursor_left_def c [symmetric])
qed

function merge_loop :: "Cursor list \<Rightarrow> CostSlice list \<Rightarrow> CostSlice list option" where
  "merge_loop cursors slices =
     (if length slices < kMaxChildOrders then do {
        best \<leftarrow> scan_best cursors 0 (kMaxExchanges, INT64_MAX);
        if fst best = kMaxExchanges then Some slices
        else do {
          c \<leftarrow> nth_opt cursors (fst best);
          pt \<leftarrow> nth_opt (price_ticks (cu_levels c)) (cu_level_idx c);
          ql \<leftarrow> nth_opt (qty_lots (cu_levels c)) (cu_level_idx c);
          let adj = adj_lots c ql;
          c' \<leftarrow> seek_next_valid (c\<lparr>cu_level_idx := cu_level_idx c + 1\<rparr>);
          let cursors' = cursors[fst best := c'];
          if adj = 0 then merge_loop cursors' slices
          else if canonical_lots c adj = 0 then merge_loop cursors' slices
          else merge_loop cursors' (slices @ [\<lparr>effective_ticks = snd best, available_lots = canonical_lots c adj,
            raw_price_ticks = pt, cs_exchange_id = es_exchange_id (cu_state c), cs_level_idx = cu_level_idx c mod 256\<rparr>]) } }
      else Some slices)"
  by pat_completeness auto
termination
  by (relation "measure (\<lambda>(cursors, slices). \<Sum>c\<leftarrow>cursors. cursor_left c)") (auto simp: merge_decreases)

declare merge_loop.simps [simp del]

definition build_cost_slices :: "(double \<Rightarrow> double) \<Rightarrow> RoutingEngine \<Rightarrow> RoutingContext \<Rightarrow> CostSlice list option" where
  "build_cost_slices expf eng ctx = do {
     ref_lot_size \<leftarrow> resolve_reference_lot_size ctx;
     cursors \<leftarrow> build_cursors expf eng ctx ref_lot_size [0..<ctx_active_exchanges ctx];
     if cursors = [] then Some [] else merge_loop cursors [] }"

subsection \<open>Greedy fill\<close>

record FillState =
  fs_remaining_lots :: qty_t
  fs_best_raw_ticks :: price_t
  fs_worst_raw_ticks :: price_t
  fs_adverse :: double
  fs_result :: SplitResult
  fs_out :: ChildOrderBuffer

definition canonical_min_lots :: "ExchangeState \<Rightarrow> double \<Rightarrow> qty_t" where
  "canonical_min_lots state ref_lot_size = to_i64 (std_round (lc_min_qty (es_lot state) / ref_lot_size))"

text \<open>The part of the loop body that writes one child order and the running totals.\<close>

definition take_slice :: "RoutingContext \<Rightarrow> double \<Rightarrow> ExchangeState \<Rightarrow> CostSlice \<Rightarrow> qty_t \<Rightarrow> FillState \<Rightarrow> FillState" where
  "take_slice ctx ref_lot_size state sl fill_lots fs =
     (let tick_sz = nb_tick_size (es_book state);
          fill_qty = of_i64 fill_lots * ref_lot_size;
          raw_price = of_i64 (raw_price_ticks sl) * tick_sz;
          eff_price = of_i64 (effective_ticks sl) * tick_sz;
          eff_cost = fill_qty * eff_price;
          child = \<lparr>co_price = raw_price, co_qty = fill_qty, co_effective_cost = eff_cost,
            co_exchange_id = cs_exchange_id sl, co_level_idx = cs_level_idx sl,
            co_type = TAKER, co_dir = ctx_dir ctx\<rparr>;
          r = fs_result fs;
          r' = r\<lparr>sr_total_effective_cost := sr_total_effective_cost r + eff_cost,
            sr_filled_qty := sr_filled_qty r + fill_qty, sr_child_count := sr_child_count r + 1\<rparr>
      in fs\<lparr>fs_remaining_lots := fs_remaining_lots fs - fill_lots,
           fs_best_raw_ticks := (if sr_child_count r' = 1 then raw_price_ticks sl else fs_best_raw_ticks fs),
           fs_worst_raw_ticks := raw_price_ticks sl,
           fs_adverse := fs_adverse fs + fill_qty * raw_price * latency_cost_adj (es_latency state),
           fs_result := r', fs_out := fs_out fs @ [child]\<rparr>)"

fun greedy_loop :: "RoutingContext \<Rightarrow> double \<Rightarrow> CostSlice list \<Rightarrow> FillState \<Rightarrow> FillState option" where
  "greedy_loop ctx ref_lot_size [] fs = Some fs"
| "greedy_loop ctx ref_lot_size (sl # slices) fs =
     (if fs_remaining_lots fs = 0 then Some fs
      else do {
        state \<leftarrow> nth_opt (ctx_states ctx) (cs_exchange_id sl);
        let fill_lots = (if fs_remaining_lots fs < available_lots sl then fs_remaining_lots fs else available_lots sl);
        if fill_lots < canonical_min_lots state ref_lot_size then greedy_loop ctx ref_lot_size slices fs
        else do {
          assert_opt (\<not> buf_full (fs_out fs));
          greedy_loop ctx ref_lot_size slices (take_slice ctx ref_lot_size state sl fill_lots fs) } })"

definition greedy_fill :: "CostSlice list \<Rightarrow> RoutingContext \<Rightarrow> ChildOrderBuffer \<Rightarrow> (SplitResult \<times> ChildOrderBuffer) option" where
  "greedy_fill slices ctx out = do {
     ref_lot_size \<leftarrow> resolve_reference_lot_size ctx;
     if slices = [] then Some (empty_result\<lparr>sr_unfilled_qty := from_lots (ctx_target_lots ctx) ref_lot_size\<rparr>, out)
     else do {
       fs \<leftarrow> greedy_loop ctx ref_lot_size slices
         \<lparr>fs_remaining_lots = ctx_target_lots ctx, fs_best_raw_ticks = 0, fs_worst_raw_ticks = 0, fs_adverse = 0,
          fs_result = empty_result, fs_out = out\<rparr>;
       let r = (fs_result fs)\<lparr>sr_success := (fs_remaining_lots fs = 0),
         sr_unfilled_qty := from_lots (fs_remaining_lots fs) ref_lot_size\<rparr>;
       let r = (if sr_filled_qty r > lit (1/1000000000) then
           r\<lparr>sr_avg_effective_price := sr_total_effective_cost r / sr_filled_qty r,
             sr_adverse_selection_est := fs_adverse fs, sr_spread_capture_bps := 0,
             sr_market_impact_bps := (if fs_best_raw_ticks fs > 0 then
                 of_i64 (if ctx_dir ctx = BUY then fs_worst_raw_ticks fs - fs_best_raw_ticks fs
                         else fs_best_raw_ticks fs - fs_worst_raw_ticks fs) /
                 of_i64 (fs_best_raw_ticks fs) * lit 10000
               else sr_market_impact_bps r)\<rparr>
         else r);
       Some (r, fs_out fs) } }"

definition calculate_optimal_split :: "(double \<Rightarrow> double) \<Rightarrow> RoutingEngine \<Rightarrow> RoutingContext \<Rightarrow> ChildOrderBuffer \<Rightarrow>
    (SplitResult \<times> ChildOrderBuffer) option" where
  "calculate_optimal_split expf eng ctx out = do {
     assert_opt (ctx_target_lots ctx > 0);
     assert_opt (ctx_active_exchanges ctx \<le> kMaxExchanges);
     assert_opt (out = []);
     slices \<leftarrow> build_cost_slices expf eng ctx;
     greedy_fill slices ctx out }"

subsection \<open>Maker placement\<close>

definition maker_side_idx :: "OrderDir \<Rightarrow> nat" where
  "maker_side_idx dir = (if dir = BUY then side_index BID else side_index ASK)"

definition maker_opp_idx :: "OrderDir \<Rightarrow> nat" where
  "maker_opp_idx dir = (if dir = BUY then side_index ASK else side_index BID)"

text \<open>What one exchange offers: \<open>Some None\<close> when the loop body does \<^verbatim>\<open>continue\<close>, otherwise the touch
  and its effective price.\<close>

definition maker_quote :: "RoutingEngine \<Rightarrow> RoutingContext \<Rightarrow> ExchangeState \<Rightarrow> (price_t \<times> int) option option" where
  "maker_quote eng ctx state =
     (if \<not> es_enabled state \<or> \<not> is_valid (es_book state) then Some None
      else let touch_side = book_side (maker_side_idx (ctx_dir ctx)) (es_book state);
               dir_sign = (if ctx_dir ctx = BUY then 1 else -1)
        in if ls_count touch_side = 0 then Some None
           else do {
             raw_ticks \<leftarrow> nth_opt (price_ticks touch_side) 0;
             if ctx_limit_price ctx > 0 \<and>
                (let limit_ticks = llround (ctx_limit_price ctx / nb_tick_size (es_book state))
                 in if dir_sign > 0 then raw_ticks > limit_ticks else raw_ticks < limit_ticks)
             then Some None
             else do {
               maker \<leftarrow> fee_maker (eng_fees eng) (es_exchange_id state);
               Some (Some (raw_ticks, dir_sign * raw_ticks + llround (of_i64 raw_ticks * maker))) } })"

fun maker_scan :: "RoutingEngine \<Rightarrow> RoutingContext \<Rightarrow> nat list \<Rightarrow> (ExchangeState \<times> price_t \<times> int) option \<Rightarrow>
    (ExchangeState \<times> price_t \<times> int) option option" where
  "maker_scan eng ctx [] best = Some best"
| "maker_scan eng ctx (ex # exs) best = do {
     state \<leftarrow> nth_opt (ctx_states ctx) ex;
     quote \<leftarrow> maker_quote eng ctx state;
     maker_scan eng ctx exs (case quote of
         None \<Rightarrow> best
       | Some (raw, eff) \<Rightarrow> (case best of
           None \<Rightarrow> Some (state, raw, eff)
         | Some (_, _, best_eff) \<Rightarrow> if eff < best_eff then Some (state, raw, eff) else best)) }"

definition calculate_maker_placement :: "RoutingEngine \<Rightarrow> RoutingContext \<Rightarrow> ChildOrderBuffer \<Rightarrow>
    (SplitResult \<times> ChildOrderBuffer) option" where
  "calculate_maker_placement eng ctx out = do {
     assert_opt (ctx_target_lots ctx > 0);
     assert_opt (ctx_active_exchanges ctx \<le> kMaxExchanges);
     assert_opt (out = []);
     best \<leftarrow> maker_scan eng ctx [0..<ctx_active_exchanges ctx] None;
     case best of
       None \<Rightarrow> Some (empty_result, out)
     | Some (state, raw_ticks, eff_ticks) \<Rightarrow> do {
         ref_lot_size \<leftarrow> resolve_reference_lot_size ctx;
         let tick_size = nb_tick_size (es_book state);
         let co = \<lparr>co_price = of_i64 raw_ticks * tick_size, co_qty = of_i64 (ctx_target_lots ctx) * ref_lot_size,
           co_effective_cost = of_i64 eff_ticks * tick_size, co_exchange_id = es_exchange_id state,
           co_level_idx = 0, co_type = MAKER, co_dir = ctx_dir ctx\<rparr>;
         let r = empty_result\<lparr>sr_success := True, sr_child_count := 1, sr_filled_qty := 0,
           sr_unfilled_qty := co_qty co, sr_avg_effective_price := co_effective_cost co,
           sr_total_effective_cost := co_effective_cost co * co_qty co\<rparr>;
         let opp_side = book_side (maker_opp_idx (ctx_dir ctx)) (es_book state);
         r \<leftarrow> (if ls_count opp_side > 0 \<and> raw_ticks \<noteq> 0 then do {
             cross_ticks \<leftarrow> nth_opt (price_ticks opp_side) 0;
             Some (r\<lparr>sr_spread_capture_bps :=
               (of_i64 \<bar>cross_ticks - raw_ticks\<bar> / of_i64 \<bar>raw_ticks\<bar>) * lit 10000\<rparr>) }
           else Some r);
         Some (r, [co]) } }"

end
