(* ===== verification/Routing_Merge.thy ===== *)
theory Routing_Merge
  imports Routing_Engine
begin

text \<open>
  The first phase of the router, \<^verbatim>\<open>build_cost_slices\<close> of \<^verbatim>\<open>src/sor/routing_engine.cpp\<close>: the merge of the
  book sides through cursors computes the stable sort, by effective price, of all the levels that
  satisfy the limit price and the minimum quantity and offer at least one lot.
\<close>

subsection \<open>The levels a cursor has in front of it\<close>

definition price_ok :: "Cursor \<Rightarrow> nat \<Rightarrow> bool" where
  "price_ok c i \<longleftrightarrow> cu_limit_ticks c = 0 \<or>
     (if cu_dir_sign c > 0 then price_ticks (cu_levels c) ! i \<le> cu_limit_ticks c
      else cu_limit_ticks c \<le> price_ticks (cu_levels c) ! i)"

definition level_ok :: "Cursor \<Rightarrow> nat \<Rightarrow> bool" where
  "level_ok c i \<longleftrightarrow> price_ok c i \<and> cu_min_lots c \<le> qty_lots (cu_levels c) ! i"

definition level_eff :: "Cursor \<Rightarrow> nat \<Rightarrow> int" where
  "level_eff c i = cu_dir_sign c * price_ticks (cu_levels c) ! i + cu_penalty_ticks c"

text \<open>A book side stored best price first, as the order's direction sees it.\<close>

definition best_first :: "int \<Rightarrow> LevelSide \<Rightarrow> bool" where
  "best_first dir_sign ls \<longleftrightarrow>
     (\<forall>i j. i \<le> j \<and> j < ls_count ls \<longrightarrow> dir_sign * price_ticks ls ! i \<le> dir_sign * price_ticks ls ! j)"

definition wf_cursor :: "Cursor \<Rightarrow> bool" where
  "wf_cursor c \<longleftrightarrow> wf_side (cu_levels c) \<and> best_first (cu_dir_sign c) (cu_levels c) \<and>
     (cu_dir_sign c = 1 \<or> cu_dir_sign c = -1) \<and> (\<forall>i<ls_count (cu_levels c). level_eff c i < INT64_MAX)"

definition levels_from :: "Cursor \<Rightarrow> nat \<Rightarrow> nat list" where
  "levels_from c i = filter (level_ok c) [i..<ls_count (cu_levels c)]"

definition open_levels :: "Cursor \<Rightarrow> nat list" where
  "open_levels c = (if cu_exhausted c then [] else levels_from c (cu_level_idx c))"

definition ready :: "Cursor \<Rightarrow> bool" where
  "ready c \<longleftrightarrow> cu_exhausted c \<or> (cu_level_idx c < ls_count (cu_levels c) \<and> level_ok c (cu_level_idx c))"

text \<open>Everything of a cursor but its position.\<close>

definition same_fixed :: "Cursor \<Rightarrow> Cursor \<Rightarrow> bool" where
  "same_fixed c c' \<longleftrightarrow> c' = c\<lparr>cu_level_idx := cu_level_idx c', cu_exhausted := cu_exhausted c'\<rparr>"

lemma same_fixedD:
  assumes "same_fixed c c'"
  shows "cu_state c' = cu_state c" "cu_levels c' = cu_levels c" "cu_lot_ratio c' = cu_lot_ratio c"
    "cu_fill_rate c' = cu_fill_rate c" "cu_penalty_ticks c' = cu_penalty_ticks c" "cu_dir_sign c' = cu_dir_sign c"
    "cu_limit_ticks c' = cu_limit_ticks c" "cu_min_lots c' = cu_min_lots c" "cu_max_lots c' = cu_max_lots c"
  by (subst assms [unfolded same_fixed_def], simp)+

lemma same_fixed_levels:
  assumes "same_fixed c c'"
  shows "price_ok c' = price_ok c" "level_ok c' = level_ok c" "level_eff c' = level_eff c"
  by (simp_all add: fun_eq_iff price_ok_def level_ok_def level_eff_def same_fixedD [OF assms])

lemma same_fixed_cong:
  assumes "same_fixed c c'"
  shows "wf_cursor c' = wf_cursor c" "levels_from c' = levels_from c" "adj_lots c' = adj_lots c"
    "canonical_lots c' = canonical_lots c"
  by (simp_all add: fun_eq_iff wf_cursor_def levels_from_def adj_lots_def canonical_lots_def Let_def
      same_fixedD [OF assms] same_fixed_levels [OF assms])

lemma same_fixed_trans: "same_fixed a b \<Longrightarrow> same_fixed b c \<Longrightarrow> same_fixed a c"
  by (cases a; cases b; cases c) (simp add: same_fixed_def)

lemma levels_from_step:
  "i < ls_count (cu_levels c) \<Longrightarrow>
     levels_from c i = (if level_ok c i then i # levels_from c (Suc i) else levels_from c (Suc i))"
  by (simp add: levels_from_def upt_conv_Cons)

lemma levels_from_end: "\<not> i < ls_count (cu_levels c) \<Longrightarrow> levels_from c i = []"
  by (simp add: levels_from_def)

lemma levels_from_limit:
  assumes "wf_cursor c" and "\<not> price_ok c i"
  shows "levels_from c i = []"
proof -
  have "\<not> price_ok c j" if "i \<le> j" "j < ls_count (cu_levels c)" for j
  proof -
    have "cu_dir_sign c * price_ticks (cu_levels c) ! i \<le> cu_dir_sign c * price_ticks (cu_levels c) ! j"
      using assms(1) that by (simp add: wf_cursor_def best_first_def)
    then show ?thesis using assms by (auto simp: price_ok_def wf_cursor_def)
  qed
  then show ?thesis by (auto simp: levels_from_def filter_empty_conv level_ok_def)
qed

lemma wf_cursor_reads:
  assumes "wf_cursor c" and "i < ls_count (cu_levels c)"
  shows "nth_opt (price_ticks (cu_levels c)) i = Some (price_ticks (cu_levels c) ! i)"
    and "nth_opt (qty_lots (cu_levels c)) i = Some (qty_lots (cu_levels c) ! i)"
  using assms by (simp_all add: wf_cursor_def wf_side_def)

lemma seek_price_ok:
  assumes "wf_cursor c"
  shows "\<not> price_ok c (cu_level_idx c) \<longleftrightarrow>
    cu_limit_ticks c \<noteq> 0 \<and> cu_dir_sign c > 0 \<and> price_ticks (cu_levels c) ! cu_level_idx c > cu_limit_ticks c \<or>
    cu_limit_ticks c \<noteq> 0 \<and> cu_dir_sign c < 0 \<and> price_ticks (cu_levels c) ! cu_level_idx c < cu_limit_ticks c"
  using assms by (auto simp: price_ok_def wf_cursor_def)

lemma seek_step:
  assumes "wf_cursor c"
  shows "seek_next_valid c =
    (if cu_level_idx c < ls_count (cu_levels c) \<and> price_ok c (cu_level_idx c) then
       (if level_ok c (cu_level_idx c) then Some c
        else seek_next_valid (c\<lparr>cu_level_idx := cu_level_idx c + 1\<rparr>))
     else Some (c\<lparr>cu_exhausted := True\<rparr>))"
proof (cases "cu_level_idx c < ls_count (cu_levels c)")
  case True
  then show ?thesis using seek_price_ok [OF assms]
    by (simp add: seek_next_valid.simps [of c] wf_cursor_reads [OF assms] level_ok_def not_le) auto
qed (simp add: seek_next_valid.simps [of c])

lemma seek_spec:
  assumes "wf_cursor c" and "\<not> cu_exhausted c"
  shows "\<exists>c'. seek_next_valid c = Some c' \<and> same_fixed c c' \<and> ready c' \<and>
    open_levels c' = levels_from c (cu_level_idx c)"
  using assms
proof (induction "ls_count (cu_levels c) - cu_level_idx c" arbitrary: c)
  case 0
  then show ?case
    by (simp add: seek_step same_fixed_def ready_def open_levels_def levels_from_end)
next
  case (Suc n)
  let ?i = "cu_level_idx c" and ?d = "c\<lparr>cu_level_idx := cu_level_idx c + 1\<rparr>"
  have i: "?i < ls_count (cu_levels c)" using Suc.hyps(2) by simp
  have d: "same_fixed c ?d" by (simp add: same_fixed_def)
  show ?case
  proof (cases "price_ok c ?i")
    case False
    then show ?thesis using Suc.prems levels_from_limit [OF Suc.prems(1) False]
      by (simp add: seek_step same_fixed_def ready_def open_levels_def)
  next
    case p: True
    show ?thesis
    proof (cases "level_ok c ?i")
      case True
      then show ?thesis using Suc.prems i p by (simp add: seek_step same_fixed_def ready_def open_levels_def)
    next
      case False
      have "\<exists>c'. seek_next_valid ?d = Some c' \<and> same_fixed ?d c' \<and> ready c' \<and> open_levels c' = levels_from ?d (cu_level_idx ?d)"
        using Suc.hyps(2) Suc.prems same_fixed_cong(1) [OF d] by (intro Suc.hyps(1)) auto
      then show ?thesis using Suc.prems i p False same_fixed_trans [OF d] same_fixed_cong(2) [OF d]
        by (auto simp: seek_step [OF Suc.prems(1)] levels_from_step)
    qed
  qed
qed

lemma open_levels_ready:
  assumes "ready c" and "\<not> cu_exhausted c"
  shows "open_levels c = cu_level_idx c # levels_from c (Suc (cu_level_idx c))"
  using assms by (auto simp: ready_def open_levels_def levels_from_step)

lemma levels_from_range: "i \<in> set (levels_from c k) \<Longrightarrow> k \<le> i \<and> i < ls_count (cu_levels c) \<and> level_ok c i"
  by (auto simp: levels_from_def)

lemma level_eff_mono:
  "wf_cursor c \<Longrightarrow> i \<le> j \<Longrightarrow> j < ls_count (cu_levels c) \<Longrightarrow> level_eff c i \<le> level_eff c j"
  by (simp add: wf_cursor_def best_first_def level_eff_def)

subsection \<open>Slices\<close>

definition slice_of :: "Cursor \<Rightarrow> nat \<Rightarrow> CostSlice" where
  "slice_of c i = \<lparr>effective_ticks = level_eff c i,
     available_lots = canonical_lots c (adj_lots c (qty_lots (cu_levels c) ! i)),
     raw_price_ticks = price_ticks (cu_levels c) ! i,
     cs_exchange_id = es_exchange_id (cu_state c), cs_level_idx = i mod 256\<rparr>"

definition emits :: "Cursor \<Rightarrow> nat \<Rightarrow> bool" where
  "emits c i \<longleftrightarrow> adj_lots c (qty_lots (cu_levels c) ! i) \<noteq> 0 \<and>
     canonical_lots c (adj_lots c (qty_lots (cu_levels c) ! i)) \<noteq> 0"

definition cursor_slices :: "Cursor \<Rightarrow> CostSlice list" where
  "cursor_slices c = map (slice_of c) (filter (emits c) (open_levels c))"

lemma slice_of_cong:
  assumes "same_fixed c c'"
  shows "slice_of c' = slice_of c" "emits c' = emits c"
  by (simp_all add: fun_eq_iff slice_of_def emits_def same_fixed_cong [OF assms] same_fixed_levels [OF assms] same_fixedD [OF assms])

lemma slice_of_eff [simp]: "effective_ticks (slice_of c i) = level_eff c i"
  by (simp add: slice_of_def)

lemma cursor_slices_eff:
  assumes "wf_cursor c" and "ready c" and "s \<in> set (cursor_slices c)"
  shows "\<not> cu_exhausted c \<and> level_eff c (cu_level_idx c) \<le> effective_ticks s"
proof -
  obtain i where i: "s = slice_of c i" "i \<in> set (open_levels c)" using assms(3) by (auto simp: cursor_slices_def)
  have ne: "\<not> cu_exhausted c" using i(2) by (auto simp: open_levels_def split: if_splits)
  then have "cu_level_idx c \<le> i" "i < ls_count (cu_levels c)"
    using i(2) by (auto simp: open_levels_def dest: levels_from_range)
  then show ?thesis using ne i(1) level_eff_mono [OF assms(1)] by simp
qed

subsection \<open>The scan for the best cursor\<close>

abbreviation head_eff :: "Cursor \<Rightarrow> int" where
  "head_eff c \<equiv> level_eff c (cu_level_idx c)"

definition above :: "int \<Rightarrow> Cursor list \<Rightarrow> bool" where
  "above e cs \<longleftrightarrow> (\<forall>c\<in>set cs. cu_exhausted c \<or> e \<le> head_eff c)"

definition strictly_above :: "int \<Rightarrow> Cursor list \<Rightarrow> bool" where
  "strictly_above e cs \<longleftrightarrow> (\<forall>c\<in>set cs. cu_exhausted c \<or> e < head_eff c)"

lemma scan_best_live:
  assumes "wf_cursor c" and "ready c" and "\<not> cu_exhausted c"
  shows "scan_best (c # cs) k acc = scan_best cs (Suc k) (if head_eff c < snd acc then (k, head_eff c) else acc)"
proof -
  have "nth_opt (price_ticks (cu_levels c)) (cu_level_idx c) = Some (price_ticks (cu_levels c) ! cu_level_idx c)"
    using assms by (auto simp: ready_def intro: wf_cursor_reads)
  then show ?thesis using assms(3) by (simp add: level_eff_def Let_def)
qed

lemma scan_best_spec:
  assumes "\<forall>c\<in>set cs. wf_cursor c \<and> ready c"
  shows "\<exists>bk be. scan_best cs k acc = Some (bk, be) \<and> be \<le> snd acc \<and> above be cs \<and>
    ((bk, be) = acc \<or> (\<exists>as c bs. cs = as @ c # bs \<and> bk = k + length as \<and> \<not> cu_exhausted c \<and>
       be = head_eff c \<and> be < snd acc \<and> strictly_above be as))"
  using assms
proof (induction cs arbitrary: k acc)
  case (Cons c cs)
  let ?acc = "if \<not> cu_exhausted c \<and> head_eff c < snd acc then (k, head_eff c) else acc"
  have sc: "scan_best (c # cs) k acc = scan_best cs (Suc k) ?acc"
    using Cons.prems by (cases "cu_exhausted c") (simp_all add: scan_best_live del: scan_best.simps(2), simp)
  obtain bk be where r: "scan_best cs (Suc k) ?acc = Some (bk, be)" "be \<le> snd ?acc" "above be cs"
    and d: "(bk, be) = ?acc \<or> (\<exists>as c bs. cs = as @ c # bs \<and> bk = Suc k + length as \<and> \<not> cu_exhausted c \<and>
       be = head_eff c \<and> be < snd ?acc \<and> strictly_above be as)"
    using Cons.IH [of "Suc k" ?acc] list.set_intros(2) [of _ cs c] Cons.prems by blast
  have le: "be \<le> snd acc" "cu_exhausted c \<or> be \<le> head_eff c" using r(2) by (auto split: if_splits)
  have "(bk, be) = acc \<or> (\<exists>as d bs. c # cs = as @ d # bs \<and> bk = k + length as \<and> \<not> cu_exhausted d \<and>
       be = head_eff d \<and> be < snd acc \<and> strictly_above be as)"
    using d
  proof (elim disjE exE conjE)
    assume "(bk, be) = ?acc"
    then show ?thesis
      by (cases "\<not> cu_exhausted c \<and> head_eff c < snd acc") (auto simp: strictly_above_def intro: exI [of _ "[]"])
  next
    fix as d bs assume a: "cs = as @ d # bs" "bk = Suc k + length as" "\<not> cu_exhausted d"
      "be = head_eff d" "be < snd ?acc" "strictly_above be as"
    then have "strictly_above be (c # as)" "be < snd acc"
      by (auto simp: strictly_above_def split: if_splits)
    with a have "c # cs = (c # as) @ d # bs \<and> bk = k + length (c # as) \<and> \<not> cu_exhausted d \<and>
       be = head_eff d \<and> be < snd acc \<and> strictly_above be (c # as)" by simp
    then show ?thesis by blast
  qed
  then show ?case using sc r(1,3) le by (auto simp: above_def)
next
  case Nil
  then show ?case by (cases acc) (simp add: above_def)
qed


subsection \<open>The merge is a stable sort\<close>

lemma sort_key_first_min:
  assumes "\<forall>a\<in>set as. f x < f a" and "\<forall>b\<in>set bs. f x \<le> f b"
  shows "sort_key f (as @ x # bs) = x # sort_key f (as @ bs)"
  using assms
proof (induction as)
  case Nil
  then show ?case by (simp add: insort_is_Cons)
next
  case (Cons a as)
  then show ?case by (simp add: not_le [symmetric])
qed

abbreviation all_slices :: "Cursor list \<Rightarrow> CostSlice list" where
  "all_slices cs \<equiv> concat (map cursor_slices cs)"

lemma above_slices:
  assumes "\<forall>c\<in>set cs. wf_cursor c \<and> ready c"
  shows "above e cs \<Longrightarrow> s \<in> set (all_slices cs) \<Longrightarrow> e \<le> effective_ticks s"
    and "strictly_above e cs \<Longrightarrow> s \<in> set (all_slices cs) \<Longrightarrow> e < effective_ticks s"
  using assms cursor_slices_eff by (force simp: above_def strictly_above_def)+

lemma cursor_slices_advance:
  assumes "ready c" and "\<not> cu_exhausted c" and "same_fixed c c'" and "open_levels c' = levels_from c (Suc (cu_level_idx c))"
  shows "cursor_slices c = (if emits c (cu_level_idx c) then slice_of c (cu_level_idx c) # cursor_slices c' else cursor_slices c')"
  using assms by (simp add: cursor_slices_def open_levels_ready slice_of_cong [OF assms(3)])

text \<open>One turn of the merge loop: the cursor with the least effective price advances, its level is
  emitted if it offers any lots.\<close>

lemma merge_loop_turn:
  assumes cs: "cs = as @ c # bs" and wf: "\<forall>c\<in>set cs. wf_cursor c \<and> ready c" and ne: "\<not> cu_exhausted c"
    and ab: "above (head_eff c) cs" and sab: "strictly_above (head_eff c) as"
    and sc: "scan_best cs 0 (kMaxExchanges, INT64_MAX) = Some (length as, head_eff c)"
    and len: "length cs \<le> 5" "length acc < 100"
  shows "\<exists>c'. same_fixed c c' \<and> ready c' \<and> wf_cursor c' \<and>
    (if emits c (cu_level_idx c)
     then merge_loop cs acc = merge_loop (as @ c' # bs) (acc @ [slice_of c (cu_level_idx c)]) \<and>
       sort_key effective_ticks (all_slices cs) = slice_of c (cu_level_idx c) # sort_key effective_ticks (all_slices (as @ c' # bs))
     else merge_loop cs acc = merge_loop (as @ c' # bs) acc \<and> all_slices cs = all_slices (as @ c' # bs)) \<and>
    (\<Sum>c\<leftarrow>as @ c' # bs. cursor_left c) < (\<Sum>c\<leftarrow>cs. cursor_left c)"
proof -
  let ?i = "cu_level_idx c" and ?d = "c\<lparr>cu_level_idx := cu_level_idx c + 1\<rparr>"
  have c: "wf_cursor c" "ready c" using wf cs by auto
  then have i: "?i < ls_count (cu_levels c)" using ne by (simp add: ready_def)
  have d: "same_fixed c ?d" by (simp add: same_fixed_def)
  obtain c' where c': "seek_next_valid ?d = Some c'" "same_fixed ?d c'" "ready c'" "open_levels c' = levels_from c (Suc ?i)"
    using seek_spec [of ?d] c ne same_fixed_cong [OF d] by auto
  have f: "same_fixed c c'" using same_fixed_trans [OF d c'(2)] .
  have k: "nth_opt cs (length as) = Some c" "cs[length as := c'] = as @ c' # bs" "length as \<noteq> 5"
    using cs len by (simp_all add: nth_opt_def)
  note rd = wf_cursor_reads [OF c(1) i]
  have dec: "(\<Sum>c\<leftarrow>as @ c' # bs. cursor_left c) < (\<Sum>c\<leftarrow>cs. cursor_left c)"
    using merge_decreases [OF sc _ _ _ c'(1)] k rd(1) by simp
  have ml: "merge_loop cs acc = (if emits c ?i then merge_loop (as @ c' # bs) (acc @ [slice_of c ?i])
      else merge_loop (as @ c' # bs) acc)"
    using sc len(2) k rd c'(1) by (simp add: merge_loop.simps [of cs acc] emits_def slice_of_def level_eff_def Let_def)
  have sl: "sort_key effective_ticks (all_slices cs) = slice_of c ?i # sort_key effective_ticks (all_slices (as @ c' # bs))"
    if "emits c ?i"
  proof -
    have cc: "cursor_slices c = slice_of c ?i # cursor_slices c'"
      using cursor_slices_advance [OF c(2) ne f c'(4)] that by simp
    have "\<forall>s\<in>set (all_slices as). effective_ticks (slice_of c ?i) < effective_ticks s"
      using above_slices(2) [of as] sab wf cs by auto
    moreover have "\<forall>s\<in>set (cursor_slices c' @ all_slices bs). effective_ticks (slice_of c ?i) \<le> effective_ticks s"
      using above_slices(1) [OF wf ab] by (simp add: cs cc)
    ultimately show ?thesis
      using sort_key_first_min [of "all_slices as" effective_ticks "slice_of c ?i" "cursor_slices c' @ all_slices bs"]
      by (simp add: cs cc)
  qed
  show ?thesis using f c' dec ml sl c(1) cursor_slices_advance [OF c(2) ne f c'(4)] cs same_fixed_cong(1) [OF f]
    by (intro exI [of _ c']) auto
qed

lemma merge_loop_spec:
  assumes "\<forall>c\<in>set cs. wf_cursor c \<and> ready c" and "length cs \<le> 5" and "length acc \<le> 100"
  shows "merge_loop cs acc = Some (take 100 (acc @ sort_key effective_ticks (all_slices cs)))"
  using assms
proof (induction "\<Sum>c\<leftarrow>cs. cursor_left c" arbitrary: cs acc rule: less_induct)
  case less
  obtain bk be where sc: "scan_best cs 0 (kMaxExchanges, INT64_MAX) = Some (bk, be)" "above be cs"
    and d: "(bk, be) = (kMaxExchanges, INT64_MAX) \<or> (\<exists>as c bs. cs = as @ c # bs \<and> bk = 0 + length as \<and>
       \<not> cu_exhausted c \<and> be = head_eff c \<and> be < snd (kMaxExchanges, INT64_MAX) \<and> strictly_above be as)"
    using scan_best_spec [OF less.prems(1)] by blast
  consider "length acc = 100" | "length acc < 100" "(bk, be) = (kMaxExchanges, INT64_MAX)"
    | as c bs where "length acc < 100" "cs = as @ c # bs" "bk = length as" "\<not> cu_exhausted c" "be = head_eff c" "strictly_above be as"
    using d less.prems(3) by fastforce
  then show ?case
  proof cases
    case 1
    then show ?thesis by (simp add: merge_loop.simps [of cs acc])
  next
    case 2
    have "cu_exhausted c" if "c \<in> set cs" for c
      using that less.prems(1) sc(2) 2(2) by (fastforce simp: above_def ready_def wf_cursor_def)
    then have e: "all_slices cs = []" by (auto simp: cursor_slices_def open_levels_def)
    show ?thesis unfolding e using 2 sc(1) by (simp add: merge_loop.simps [of cs acc])
  next
    case 3
    obtain c' where c': "ready c'" "wf_cursor c'"
      "if emits c (cu_level_idx c)
       then merge_loop cs acc = merge_loop (as @ c' # bs) (acc @ [slice_of c (cu_level_idx c)]) \<and>
         sort_key effective_ticks (all_slices cs) = slice_of c (cu_level_idx c) # sort_key effective_ticks (all_slices (as @ c' # bs))
       else merge_loop cs acc = merge_loop (as @ c' # bs) acc \<and> all_slices cs = all_slices (as @ c' # bs)"
      "(\<Sum>c\<leftarrow>as @ c' # bs. cursor_left c) < (\<Sum>c\<leftarrow>cs. cursor_left c)"
      using merge_loop_turn [OF 3(2) less.prems(1) 3(4) _ _ _ less.prems(2) 3(1)] sc 3 by blast
    have "\<forall>c\<in>set (as @ c' # bs). wf_cursor c \<and> ready c" "length (as @ c' # bs) \<le> 5"
      using less.prems 3(2) c'(1,2) by auto
    note IH = less.hyps [OF c'(4) this]
    show ?thesis
    proof (cases "emits c (cu_level_idx c)")
      case True
      then show ?thesis using c'(3) IH [of "acc @ [slice_of c (cu_level_idx c)]"] 3(1) by simp
    next
      case False
      then show ?thesis using c'(3) IH [of acc] 3(1) by simp
    qed
  qed
qed


subsection \<open>All levels an order may take\<close>

definition dir_sign_of :: "RoutingContext \<Rightarrow> int" where
  "dir_sign_of ctx = (if ctx_dir ctx = BUY then 1 else -1)"

text \<open>The reference: of one exchange, every level that satisfies the limit and the minimum quantity and
  offers at least one lot, in book order.\<close>

definition takeable :: "(double \<Rightarrow> double) \<Rightarrow> RoutingEngine \<Rightarrow> RoutingContext \<Rightarrow> double \<Rightarrow> ExchangeState \<Rightarrow> CostSlice list" where
  "takeable expf eng ctx ref_lot_size state =
     (if es_enabled state \<and> is_valid (es_book state) then
        (case make_cursor expf eng ctx ref_lot_size state of
           None \<Rightarrow> []
         | Some c \<Rightarrow> map (slice_of c) (filter (emits c) (filter (level_ok c) [0..<ls_count (cu_levels c)])))
      else [])"

definition taken_side :: "RoutingContext \<Rightarrow> ExchangeState \<Rightarrow> LevelSide" where
  "taken_side ctx state = book_side (side_idx_for (ctx_dir ctx)) (es_book state)"

text \<open>What the router relies on: well-formed book sides sorted best price first, exchange identifiers
  within the fee matrix and the array of states, and effective prices below the sentinel of the
  scan.\<close>

definition wf_exchange :: "(double \<Rightarrow> double) \<Rightarrow> RoutingEngine \<Rightarrow> RoutingContext \<Rightarrow> double \<Rightarrow> ExchangeState \<Rightarrow> bool" where
  "wf_exchange expf eng ctx ref_lot_size state \<longleftrightarrow>
     wf_side (taken_side ctx state) \<and> best_first (dir_sign_of ctx) (taken_side ctx state) \<and>
     es_exchange_id state < length (rates (eng_fees eng)) \<and> es_exchange_id state < length (ctx_states ctx) \<and>
     (case make_cursor expf eng ctx ref_lot_size state of None \<Rightarrow> False
      | Some c \<Rightarrow> \<forall>i<ls_count (cu_levels c). level_eff c i < INT64_MAX)"

definition active_states :: "RoutingContext \<Rightarrow> ExchangeState list" where
  "active_states ctx = take (ctx_active_exchanges ctx) (ctx_states ctx)"

definition wf_ctx :: "(double \<Rightarrow> double) \<Rightarrow> RoutingEngine \<Rightarrow> RoutingContext \<Rightarrow> double \<Rightarrow> bool" where
  "wf_ctx expf eng ctx ref_lot_size \<longleftrightarrow> resolve_reference_lot_size ctx = Some ref_lot_size \<and>
     ctx_active_exchanges ctx \<le> kMaxExchanges \<and> ctx_active_exchanges ctx \<le> length (ctx_states ctx) \<and>
     list_all (wf_exchange expf eng ctx ref_lot_size) (active_states ctx)"

lemma make_cursor_fields:
  assumes "make_cursor expf eng ctx r state = Some c"
  shows "cu_levels c = taken_side ctx state" "cu_dir_sign c = dir_sign_of ctx" "cu_level_idx c = 0"
    "cu_exhausted c \<longleftrightarrow> ls_count (taken_side ctx state) = 0" "cu_state c = state"
    "cu_limit_ticks c = (if ctx_limit_price ctx > 0 then to_i64 (std_round (ctx_limit_price ctx / nb_tick_size (es_book state))) else 0)"
    "cu_fill_rate c = estimate_fill_rate expf (get_rtt_us (es_latency state)) (ctx_short_vol_factor ctx) (directional_imb_of ctx)"
    "cu_max_lots c = to_i64 (lc_max_qty (es_lot state) / nb_lot_size (es_book state))"
  using assms by (auto simp: make_cursor_def Let_def taken_side_def dir_sign_of_def elim!: bind_eq_SomeE)

lemma wf_exchange_cursor:
  assumes "wf_exchange expf eng ctx r state"
  obtains c where "make_cursor expf eng ctx r state = Some c" and "wf_cursor c"
proof -
  obtain c where c: "make_cursor expf eng ctx r state = Some c" and e: "\<forall>i<ls_count (cu_levels c). level_eff c i < INT64_MAX"
    using assms by (auto simp: wf_exchange_def split: option.splits)
  have "wf_cursor c" using assms e make_cursor_fields [OF c]
    by (auto simp: wf_cursor_def wf_exchange_def dir_sign_of_def)
  then show ?thesis using c that by blast
qed

lemma build_cursors_spec:
  assumes "\<forall>ex\<in>set exs. ex < length (ctx_states ctx) \<and> wf_exchange expf eng ctx r (ctx_states ctx ! ex)"
  shows "\<exists>cs. build_cursors expf eng ctx r exs = Some cs \<and> (\<forall>c\<in>set cs. wf_cursor c \<and> ready c) \<and>
    length cs \<le> length exs \<and>
    all_slices cs = concat (map (\<lambda>ex. takeable expf eng ctx r (ctx_states ctx ! ex)) exs)"
  using assms
proof (induction exs)
  case (Cons ex exs)
  let ?st = "ctx_states ctx ! ex"
  obtain cs where cs: "build_cursors expf eng ctx r exs = Some cs" "\<forall>c\<in>set cs. wf_cursor c \<and> ready c"
    "length cs \<le> length exs" "all_slices cs = concat (map (\<lambda>ex. takeable expf eng ctx r (ctx_states ctx ! ex)) exs)"
    using Cons by auto
  have st: "nth_opt (ctx_states ctx) ex = Some ?st" using Cons.prems by simp
  show ?case
  proof (cases "es_enabled ?st \<and> is_valid (es_book ?st)")
    case False
    then show ?thesis using cs st by (auto simp: takeable_def)
  next
    case True
    obtain c where c: "make_cursor expf eng ctx r ?st = Some c" "wf_cursor c"
      using Cons.prems by (meson list.set_intros(1) wf_exchange_cursor)
    have tk: "takeable expf eng ctx r ?st = map (slice_of c) (filter (emits c) (levels_from c 0))"
      using True c(1) by (simp add: takeable_def levels_from_def)
    show ?thesis
    proof (cases "cu_exhausted c")
      case ex: True
      then have "takeable expf eng ctx r ?st = []"
        using tk make_cursor_fields [OF c(1)] by (simp add: levels_from_end)
      then show ?thesis using cs st True c ex by auto
    next
      case ex: False
      obtain c' where c': "seek_next_valid c = Some c'" "same_fixed c c'" "ready c'" "open_levels c' = levels_from c 0"
        using seek_spec [OF c(2) ex] make_cursor_fields(3) [OF c(1)] by auto
      have "cursor_slices c' = takeable expf eng ctx r ?st"
        by (simp add: cursor_slices_def c'(4) tk slice_of_cong [OF c'(2)])
      moreover have "cursor_slices c' = []" if "cu_exhausted c'"
        using that by (simp add: cursor_slices_def open_levels_def)
      ultimately show ?thesis using cs st True c ex c' same_fixed_cong(1) [OF c'(2)] by auto
    qed
  qed
qed simp

lemma takeable_length:
  assumes "wf_exchange expf eng ctx r state"
  shows "length (takeable expf eng ctx r state) \<le> 20"
proof -
  obtain c where c: "make_cursor expf eng ctx r state = Some c" "wf_cursor c"
    using assms by (rule wf_exchange_cursor)
  have "length (filter P (filter Q [0..<n])) \<le> n" for P Q n
    by (metis filter_filter length_filter_le length_upt diff_zero)
  moreover have "ls_count (cu_levels c) \<le> 20" using c(2) by (simp add: wf_cursor_def wf_side_def)
  ultimately show ?thesis using c(1) by (auto simp: takeable_def intro: order_trans)
qed

definition takeable_all :: "(double \<Rightarrow> double) \<Rightarrow> RoutingEngine \<Rightarrow> RoutingContext \<Rightarrow> double \<Rightarrow> CostSlice list" where
  "takeable_all expf eng ctx r = concat (map (takeable expf eng ctx r) (active_states ctx))"

lemma takeable_all_length:
  assumes "wf_ctx expf eng ctx r"
  shows "length (takeable_all expf eng ctx r) \<le> 100"
proof -
  have "length (concat (map (takeable expf eng ctx r) sts)) \<le> 20 * length sts"
    if "list_all (wf_exchange expf eng ctx r) sts" for sts
    using that takeable_length by (induction sts) fastforce+
  moreover have "length (active_states ctx) \<le> 5" using assms by (simp add: wf_ctx_def active_states_def)
  ultimately show ?thesis using assms by (fastforce simp: wf_ctx_def takeable_all_def)
qed

lemma build_cost_slices_eq:
  assumes "wf_ctx expf eng ctx r"
  shows "build_cost_slices expf eng ctx = Some (sort_key effective_ticks (takeable_all expf eng ctx r))"
proof -
  let ?exs = "[0..<ctx_active_exchanges ctx]"
  have a: "active_states ctx = map ((!) (ctx_states ctx)) ?exs"
    using assms by (auto simp: wf_ctx_def active_states_def list_eq_iff_nth_eq)
  have "\<forall>ex\<in>set ?exs. ex < length (ctx_states ctx) \<and> wf_exchange expf eng ctx r (ctx_states ctx ! ex)"
    using assms by (auto simp: wf_ctx_def a list_all_iff)
  from build_cursors_spec [OF this] obtain cs where cs: "build_cursors expf eng ctx r ?exs = Some cs"
    "\<forall>c\<in>set cs. wf_cursor c \<and> ready c" "length cs \<le> length ?exs"
    "all_slices cs = concat (map (\<lambda>ex. takeable expf eng ctx r (ctx_states ctx ! ex)) ?exs)" by blast
  then have al: "all_slices cs = takeable_all expf eng ctx r" by (simp add: takeable_all_def a o_def)
  have "merge_loop cs [] = Some (sort_key effective_ticks (takeable_all expf eng ctx r))"
    using merge_loop_spec [OF cs(2), of "[]"] cs(3) assms takeable_all_length [OF assms] unfolding al by (simp add: wf_ctx_def)
  moreover have "takeable_all expf eng ctx r = []" if "cs = []" using al that by simp
  ultimately show ?thesis using cs(1) assms by (auto simp: build_cost_slices_def wf_ctx_def)
qed


subsection \<open>A concrete market\<close>

text \<open>Two exchanges with half-dollar ticks, unit lots, no fees and no latency.\<close>

definition demo_side :: "price_t list \<Rightarrow> qty_t list \<Rightarrow> LevelSide" where
  "demo_side ps qs = \<lparr>price_ticks = ps @ replicate (24 - length ps) 0, qty_lots = qs @ replicate (24 - length qs) 0,
     cumulative_lots = replicate 24 0, ls_count = length ps\<rparr>"

definition demo_state :: "nat \<Rightarrow> price_t list \<Rightarrow> qty_t list \<Rightarrow> price_t list \<Rightarrow> qty_t list \<Rightarrow> ExchangeState" where
  "demo_state i bp bq ap aq = \<lparr>es_book = \<lparr>bids = demo_side bp bq, asks = demo_side ap aq, last_sequence = 1,
       nb_last_update_ns = 0, nb_tick_size = Fin (1/2), nb_lot_size = 1, nb_exchange_id = i, is_valid = True\<rparr>,
     es_latency = \<lparr>ewma_rtt_us = 0, sample_count = 0\<rparr>,
     es_lot = \<lparr>lc_lot_size = 1, lc_tick_size = Fin (1/2), lc_min_qty = 1, lc_max_qty = Fin 1000, lc_max_notional = 0\<rparr>,
     es_fees = \<lparr>rates = replicate 5 (0, 0)\<rparr>, es_exchange_id = i, es_enabled = True\<rparr>"

definition demo_engine :: RoutingEngine where
  "demo_engine = \<lparr>eng_fees = \<lparr>rates = replicate 5 (0, 0)\<rparr>\<rparr>"

definition demo_ctx :: RoutingContext where
  "demo_ctx = \<lparr>ctx_states = [demo_state 0 [200, 199] [4, 4] [201, 203] [5, 5], demo_state 1 [200] [9] [202] [10]],
     ctx_active_exchanges = 2, ctx_dir = BUY, ctx_target_lots = 12, ctx_limit_price = 0, ctx_reference_lot_size = 1,
     ctx_decision_ns = 0, ctx_short_vol_factor = 0, ctx_book_imbalance = 0\<rparr>"

definition demo_exp :: "double \<Rightarrow> double" where "demo_exp x = 1"

lemma lit_unit: 
  assumes "0 \<le> x" and "x \<le> 1"
  obtains u where "lit x = Fin u" and "0 \<le> u" and "u \<le> 1"
  using rnd_between [of 0 1 x] assms by (auto simp: lit_def)

lemma demo_cost_adj: "dynamic_cost_adj 0 0 \<lparr>ewma_rtt_us = 0, sample_count = 0\<rparr> = 0"
proof -
  obtain a where a: "lit (1/1000) = Fin a" using lit_unit [of "1/1000"] by auto
  obtain b where b: "lit (1/10000) = Fin b" using lit_unit [of "1/10000"] by auto
  obtain d where d: "rnd (3/2) = Fin d" using rnd_between [of 1 2 "3/2"] by auto
  show ?thesis
    by (simp add: dynamic_cost_adj_def Let_def get_rtt_us_def kPenaltyBpsPerUs_def kVolSensitivity_def
        kImbSensitivity_def a b zero_double_def one_double_def) (simp add: lit_def d)
qed

lemma demo_fill_rate: "estimate_fill_rate demo_exp r 0 0 = 1"
proof -
  obtain a where a: "lit (1/10) = Fin a" using lit_unit [of "1/10"] by auto
  obtain b where b: "lit (2/25) = Fin b" using lit_unit [of "2/25"] by auto
  show ?thesis
    by (simp add: estimate_fill_rate_def Let_def demo_exp_def kVolFillPenalty_def kImbFillPenalty_def kMinFillRate_def
        a b zero_double_def one_double_def minus_double_def) (simp add: lit_def rnd_half)
qed

lemma demo_cursor:
  assumes "i < 5" and "ps \<noteq> []"
  shows "make_cursor demo_exp demo_engine demo_ctx 1 (demo_state i bp bq ps qs) =
    Some \<lparr>cu_state = demo_state i bp bq ps qs, cu_levels = demo_side ps qs, cu_tick_size = Fin (1/2),
      cu_lot_size = 1, cu_lot_ratio = 1, cu_fill_rate = 1, cu_penalty_ticks = to_i64 (std_round (of_i64 (hd ps) * 0)),
      cu_dir_sign = 1, cu_limit_ticks = 0, cu_min_lots = 1, cu_max_lots = 1000, cu_level_idx = 0, cu_exhausted = False\<rparr>"
  using assms demo_cost_adj demo_fill_rate
  by (simp add: make_cursor_def demo_ctx_def demo_engine_def demo_state_def demo_side_def Let_def
      directional_imb_of_def side_idx_for_def book_side_def fee_taker_def nth_append hd_conv_nth
      zero_double_def one_double_def)

lemma demo_wf_exchange:
  assumes "i < 2" and "ps \<noteq> []" and "length ps \<le> 20" and "length qs \<le> 20" and "sorted ps"
    and "\<forall>p\<in>set ps. 0 \<le> p \<and> p < 1000"
  shows "wf_exchange demo_exp demo_engine demo_ctx 1 (demo_state i bp bq ps qs)"
proof -
  have p: "(ps @ zs) ! j \<in> set ps" if "j < length ps" for j zs using that by (simp add: nth_append)
  have z: "of_i64 (hd ps) * 0 = Fin 0"
  proof -
    have "hd ps \<in> set ps" using assms(2) by simp
    then have "of_i64 (hd ps) = Fin (of_int (hd ps))" using assms(6) by (auto simp: of_i64_def intro!: rnd_of_int)
    then show ?thesis by (simp add: zero_double_def)
  qed
  have "wf_side (demo_side ps qs)" using assms by (simp add: wf_side_def demo_side_def)
  moreover have "best_first 1 (demo_side ps qs)"
    using assms(5) by (auto simp: best_first_def demo_side_def nth_append sorted_iff_nth_mono)
  moreover have "taken_side demo_ctx (demo_state i bp bq ps qs) = demo_side ps qs"
    by (simp add: taken_side_def demo_ctx_def demo_state_def side_idx_for_def book_side_def)
  moreover have "dir_sign_of demo_ctx = 1" "length (ctx_states demo_ctx) = 2" "length (rates (eng_fees demo_engine)) = 5"
    "es_exchange_id (demo_state i bp bq ps qs) = i"
    by (simp_all add: dir_sign_of_def demo_ctx_def demo_engine_def demo_state_def)
  moreover have "(ps @ replicate (24 - length ps) 0) ! j < INT64_MAX" if "j < length ps" for j
    using p [OF that, of "replicate (24 - length ps) 0"] assms(6) by fastforce
  ultimately show ?thesis using assms(1,2) demo_cursor [of i ps bp bq qs] z
    by (simp add: wf_exchange_def level_eff_def) (simp add: demo_side_def)
qed

lemma demo_wf_ctx: "wf_ctx demo_exp demo_engine demo_ctx 1"
proof -
  have "resolve_reference_lot_size demo_ctx = Some 1"
    by (simp add: resolve_reference_lot_size_def demo_ctx_def zero_double_def one_double_def)
  moreover have "list_all (wf_exchange demo_exp demo_engine demo_ctx 1) (active_states demo_ctx)"
    by (simp add: active_states_def demo_ctx_def [THEN arg_cong [where f = ctx_states]]
        demo_ctx_def [THEN arg_cong [where f = ctx_active_exchanges]] demo_wf_exchange)
  ultimately show ?thesis by (simp add: wf_ctx_def) (simp add: demo_ctx_def)
qed

subsection \<open>Properties\<close>

text \<open>C3: The merge of the order books is a stable sort.  On well-formed books sorted best price first,
  the router does not fault and its list of slices is exactly the list of all levels, over all
  enabled and valid exchanges, that satisfy the limit price and the exchange's minimum quantity and
  offer at least one lot, sorted by effective price, with ties in the order of the exchanges: none
  is lost to the early exit of a cursor or to the capacity of the workspace, none is invented.\<close>

theorem build_cost_slices_is_stable_sort:
  assumes "wf_ctx expf eng ctx ref_lot_size"
  shows "build_cost_slices expf eng ctx = Some (sort_key effective_ticks
    (concat (map (takeable expf eng ctx ref_lot_size) (take (ctx_active_exchanges ctx) (ctx_states ctx)))))"
  using build_cost_slices_eq [OF assms] by (simp add: takeable_all_def active_states_def)

theorem build_cost_slices_is_stable_sort_witness:
  "build_cost_slices demo_exp demo_engine demo_ctx = Some (sort_key effective_ticks
     (takeable demo_exp demo_engine demo_ctx 1 (demo_state 0 [200, 199] [4, 4] [201, 203] [5, 5]) @
      takeable demo_exp demo_engine demo_ctx 1 (demo_state 1 [200] [9] [202] [10])))"
  using build_cost_slices_is_stable_sort [OF demo_wf_ctx]
  by (simp add: demo_ctx_def [THEN arg_cong [where f = ctx_states]] demo_ctx_def [THEN arg_cong [where f = ctx_active_exchanges]])


text \<open>The limit price is respected.  Every slice the router may take comes from an active exchange at
  one of its levels, and when the limit price is at least one tick of that exchange after rounding,
  a buy never pays more and a sell never accepts less than the rounded limit.\<close>

theorem slices_respect_limit:
  assumes "wf_ctx expf eng ctx ref_lot_size" and "build_cost_slices expf eng ctx = Some slices" and "s \<in> set slices"
  shows "\<exists>state\<in>set (take (ctx_active_exchanges ctx) (ctx_states ctx)). cs_exchange_id s = es_exchange_id state \<and>
    raw_price_ticks s \<in> set (take (ls_count (taken_side ctx state)) (price_ticks (taken_side ctx state))) \<and>
    (ctx_limit_price ctx > 0 \<and> to_ticks (ctx_limit_price ctx) (nb_tick_size (es_book state)) \<noteq> 0 \<longrightarrow>
      (if ctx_dir ctx = BUY then raw_price_ticks s \<le> to_ticks (ctx_limit_price ctx) (nb_tick_size (es_book state))
       else to_ticks (ctx_limit_price ctx) (nb_tick_size (es_book state)) \<le> raw_price_ticks s))"
proof -
  have "s \<in> set (takeable_all expf eng ctx ref_lot_size)" using build_cost_slices_eq [OF assms(1)] assms(2,3) by simp
  then obtain state where st: "state \<in> set (active_states ctx)" "s \<in> set (takeable expf eng ctx ref_lot_size state)"
    by (auto simp: takeable_all_def)
  then have "wf_exchange expf eng ctx ref_lot_size state" using assms(1) by (auto simp: wf_ctx_def list_all_iff)
  then obtain c where c: "make_cursor expf eng ctx ref_lot_size state = Some c" "wf_cursor c" by (rule wf_exchange_cursor)
  note f = make_cursor_fields [OF c(1)]
  obtain i where i: "s = slice_of c i" "level_ok c i" "i < ls_count (cu_levels c)"
    using st(2) c(1) by (cases "es_enabled state \<and> is_valid (es_book state)") (auto simp: takeable_def)
  have "price_ticks (cu_levels c) ! i \<in> set (take (ls_count (cu_levels c)) (price_ticks (cu_levels c)))"
    using i(3) c(2) by (auto simp: wf_cursor_def wf_side_def in_set_conv_nth intro!: exI [of _ i])
  moreover have "price_ok c i" using i(2) by (simp add: level_ok_def)
  ultimately show ?thesis using st(1) i(1)
    by (intro bexI [of _ state]) (auto simp: active_states_def slice_of_def f price_ok_def dir_sign_of_def to_ticks_def split: if_splits)
qed

theorem slices_respect_limit_witness:
  "raw_price_ticks ` set (the (build_cost_slices demo_exp demo_engine demo_ctx)) \<subseteq> {201, 202, 203}"
proof (rule image_subsetI)
  fix s assume s: "s \<in> set (the (build_cost_slices demo_exp demo_engine demo_ctx))"
  obtain slices where b: "build_cost_slices demo_exp demo_engine demo_ctx = Some slices"
    using build_cost_slices_eq [OF demo_wf_ctx] by blast
  from slices_respect_limit [OF demo_wf_ctx b, of s] s b
  show "raw_price_ticks s \<in> {201, 202, 203}"
    by (auto simp: demo_ctx_def demo_state_def demo_side_def taken_side_def side_idx_for_def book_side_def)
qed

subsection \<open>The fill rate\<close>

text \<open>What the router relies on of the C library's exponential.\<close>

definition exp_ok :: "(double \<Rightarrow> double) \<Rightarrow> bool" where
  "exp_ok expf \<longleftrightarrow> (\<forall>x. x \<le> 0 \<longrightarrow> 0 \<le> expf x \<and> expf x \<le> 1)"

definition unit_double :: "double \<Rightarrow> bool" where
  "unit_double a \<longleftrightarrow> 0 \<le> a \<and> a \<le> 1"

lemma unit_doubleE:
  assumes "unit_double a"
  obtains x where "a = Fin x" and "0 \<le> x" and "x \<le> 1"
  using assms by (cases a) (auto simp: unit_double_def zero_double_def one_double_def less_eq_double_def)

lemma unit_double_Fin [simp]: "unit_double (Fin x) \<longleftrightarrow> 0 \<le> x \<and> x \<le> 1"
  by (auto simp: unit_double_def zero_double_def one_double_def less_eq_double_def)

lemma unit_rnd: "0 \<le> x \<Longrightarrow> x \<le> 1 \<Longrightarrow> unit_double (rnd x)"
  by (rule rnd_between [of 0 1 x]) simp_all

lemma unit_times: "unit_double a \<Longrightarrow> unit_double b \<Longrightarrow> unit_double (a * b)"
  by (auto elim!: unit_doubleE simp: unit_rnd mult_le_one)

lemma unit_one_minus: "unit_double a \<Longrightarrow> unit_double (1 - a)"
  by (auto elim!: unit_doubleE simp: one_double_def minus_double_def unit_rnd)

lemma tenth_times: "0 \<le> v \<Longrightarrow> v \<le> 10 \<Longrightarrow> 0 \<le> x \<Longrightarrow> x \<le> 1/10 \<Longrightarrow> unit_double (lit x * Fin v)"
proof -
  assume v: "0 \<le> v" "v \<le> 10" and x: "0 \<le> x" "x \<le> 1/10"
  have k: "rnd (1/10) = Fin (3602879701896397 / 2 ^ 55)" using kAlpha_eq by (simp add: kAlpha_def lit_def)
  have "Fin 0 \<le> rnd x" "rnd x \<le> rnd (1/10)" using x rnd_mono [of 0 x] rnd_mono [of x "1/10"] by auto
  then obtain u where u: "rnd x = Fin u" "0 \<le> u" "u \<le> 3602879701896397 / 2 ^ 55"
    unfolding k by (cases "rnd x") (auto simp: less_eq_double_def)
  have m: "rnd (3602879701896397 / 2 ^ 55 * 10) = Fin (of_int (2 ^ 52) * 2 powi (-52))"
    by (rule rnd_evalI) (simp_all add: power_int_minus)
  have "u * v \<le> 3602879701896397 / 2 ^ 55 * 10" using u v by (intro mult_mono) auto
  then have "rnd (u * v) \<le> rnd (3602879701896397 / 2 ^ 55 * 10)" by (rule rnd_mono)
  then have "rnd (u * v) \<le> Fin 1" unfolding m by (simp add: power_int_minus)
  moreover have "Fin 0 \<le> rnd (u * v)" using rnd_mono [of 0 "u * v"] u v by simp
  ultimately show ?thesis using u(1) by (simp add: lit_def unit_double_def zero_double_def one_double_def)
qed

lemma fill_rate_half:
  assumes "exp_ok expf" and "0 \<le> r" and "r \<le> 10000" and "0 \<le> v" and "v \<le> 10" and "0 \<le> b" and "b \<le> 10"
  obtains f where "estimate_fill_rate expf (Fin r) (Fin v) (Fin b) = Fin f" and "1/2 \<le> f" and "f \<le> 1"
proof -
  obtain a where a: "kLatDecay = Fin a" "0 \<le> a" using lit_unit [of "1/5000"] by (auto simp: kLatDecay_def)
  have "rnd (- a * r) \<le> rnd 0" using a assms(2) by (intro rnd_mono) simp
  then have "unit_double (expf (- kLatDecay * Fin r))"
    using assms(1) unfolding a(1) by (simp add: exp_ok_def unit_double_def zero_double_def)
  moreover have "unit_double (1 - kVolFillPenalty * Fin v)"
    unfolding kVolFillPenalty_def using assms by (intro unit_one_minus tenth_times) auto
  moreover have "unit_double (1 - kImbFillPenalty * (if Fin b > 0 then Fin b else 0))"
    unfolding kImbFillPenalty_def zero_double_def using assms tenth_times [of b "8/100"] tenth_times [of 0 "8/100"]
    by (intro unit_one_minus) auto
  ultimately have "unit_double (expf (- kLatDecay * Fin r) * (1 - kVolFillPenalty * Fin v) *
      (1 - kImbFillPenalty * (if Fin b > 0 then Fin b else 0)))" by (intro unit_times)
  then obtain x where x: "expf (- kLatDecay * Fin r) * (1 - kVolFillPenalty * Fin v) *
      (1 - kImbFillPenalty * (if Fin b > 0 then Fin b else 0)) = Fin x" "x \<le> 1" by (auto elim: unit_doubleE)
  show ?thesis
    using x(2) rnd_half that [of x] that [of "1/2"]
    by (cases "1/2 < x") (simp_all add: estimate_fill_rate_def Let_def kMinFillRate_def lit_def x(1))
qed

text \<open>C24: The estimated fill rate lies between one half and one for every latency within the cap, every
  volatility factor and every imbalance from 0 to 10, given an exponential that maps non-positive numbers into
  the unit interval; and then a slice never asks for more lots than the level shows, nor for more
  than the exchange's maximum.\<close>

theorem fill_rate_bounds:
  assumes "exp_ok expf" and "0 \<le> r" and "r \<le> 10000" and "0 \<le> v" and "v \<le> 10" and "0 \<le> b" and "b \<le> 10"
  shows "lit (1/2) \<le> estimate_fill_rate expf (Fin r) (Fin v) (Fin b) \<and>
    estimate_fill_rate expf (Fin r) (Fin v) (Fin b) \<le> 1 \<and>
    (0 \<le> ql \<and> ql < 2 ^ 53 \<and> 0 \<le> cu_max_lots c \<and> cu_fill_rate c = estimate_fill_rate expf (Fin r) (Fin v) (Fin b) \<longrightarrow>
      0 \<le> adj_lots c ql \<and> adj_lots c ql \<le> ql \<and> adj_lots c ql \<le> cu_max_lots c)"
proof -
  obtain f where f: "estimate_fill_rate expf (Fin r) (Fin v) (Fin b) = Fin f" "1/2 \<le> f" "f \<le> 1"
    using assms by (rule fill_rate_half)
  have "0 \<le> adj_lots c ql \<and> adj_lots c ql \<le> ql \<and> adj_lots c ql \<le> cu_max_lots c"
    if q: "0 \<le> ql" "ql < 2 ^ 53" "0 \<le> cu_max_lots c" "cu_fill_rate c = Fin f"
  proof -
    define k where "k = (if ql < cu_max_lots c then ql else cu_max_lots c)"
    have k: "0 \<le> k" "k \<le> ql" "k \<le> cu_max_lots c" "\<bar>k\<bar> < 2 ^ 53" using q by (auto simp: k_def)
    then have ik: "rnd (of_int k) = Fin (of_int k)" by (intro rnd_of_int)
    have "of_int k * f \<le> of_int k" using k(1) f(3) by (simp add: mult_left_le)
    then obtain u where u: "rnd (of_int k * f) = Fin u" "0 \<le> u" "u \<le> of_int k"
      using rnd_between [OF _ ik, of 0 "of_int k * f"] k(1) f(2) by auto
    have "0 \<le> \<lfloor>u\<rfloor>" "\<lfloor>u\<rfloor> \<le> k" using u(2,3) by (simp, linarith)
    then show ?thesis using k u q(4) ik by (simp add: adj_lots_def k_def [symmetric] of_i64_def trunc_rat_def Let_def)
  qed
  then show ?thesis using f rnd_half by (simp add: lit_def one_double_def)
qed

theorem fill_rate_bounds_witness:
  "exp_ok demo_exp \<and> lit (1/2) \<le> estimate_fill_rate demo_exp (Fin 820) (Fin 1) (Fin 1) \<and>
     estimate_fill_rate demo_exp (Fin 820) (Fin 1) (Fin 1) \<le> 1"
proof -
  have e: "exp_ok demo_exp" by (simp add: exp_ok_def demo_exp_def zero_double_def one_double_def)
  from fill_rate_bounds [OF e, of 820 1 1] e show ?thesis by simp
qed

end
