(* ===== verification/Routing_Split.thy ===== *)
theory Routing_Split
  imports Routing_Merge
begin

text \<open>
  The second phase of the router, \<^verbatim>\<open>greedy_fill\<close>, and the two entry points \<^verbatim>\<open>calculate_optimal_split\<close> and
  \<^verbatim>\<open>calculate_maker_placement\<close> of \<^verbatim>\<open>src/sor/routing_engine.cpp\<close>.

  The sweep is described by the list of lots it takes from each slice.  The lemmas: it never takes
  more than a slice offers nor more than the order asks for; the orders it writes are those lots;
  where no exchange's minimum is above one lot it fills as much as there is, at the least total
  effective price any allocation of that size can have.
\<close>

subsection \<open>The lots taken from each slice\<close>

fun sweep :: "qty_t \<Rightarrow> (qty_t \<times> qty_t) list \<Rightarrow> qty_t list" where
  "sweep t [] = []"
| "sweep t ((a, m) # as) = (if t = 0 \<or> min t a < m then 0 # sweep t as else min t a # sweep (t - min t a) as)"

definition offers :: "RoutingContext \<Rightarrow> double \<Rightarrow> CostSlice list \<Rightarrow> (qty_t \<times> qty_t) list" where
  "offers ctx r slices = map (\<lambda>s. (available_lots s, canonical_min_lots (ctx_states ctx ! cs_exchange_id s) r)) slices"

definition child_of :: "RoutingContext \<Rightarrow> double \<Rightarrow> CostSlice \<Rightarrow> qty_t \<Rightarrow> ChildOrder" where
  "child_of ctx r s f =
     (let tick = nb_tick_size (es_book (ctx_states ctx ! cs_exchange_id s))
      in \<lparr>co_price = from_ticks (raw_price_ticks s) tick, co_qty = from_lots f r,
          co_effective_cost = from_lots f r * from_ticks (effective_ticks s) tick,
          co_exchange_id = cs_exchange_id s, co_level_idx = cs_level_idx s, co_type = TAKER, co_dir = ctx_dir ctx\<rparr>)"

definition children_of :: "RoutingContext \<Rightarrow> double \<Rightarrow> CostSlice list \<Rightarrow> qty_t list \<Rightarrow> ChildOrder list" where
  "children_of ctx r slices fills = map (\<lambda>(s, f). child_of ctx r s f) (filter (\<lambda>(s, f). f \<noteq> 0) (zip slices fills))"

lemma sweep_zero: "sweep 0 as = map (\<lambda>_. 0) as"
  by (induction as) auto

lemma sweep_length [simp]: "length (sweep t as) = length as"
  by (induction t as rule: sweep.induct) auto

lemma sweep_bounds:
  assumes "0 \<le> t" and "\<forall>(a, m)\<in>set as. 0 < a"
  shows "list_all2 (\<lambda>f (a, m). 0 \<le> f \<and> f \<le> a \<and> (f = 0 \<or> m \<le> f)) (sweep t as) as \<and>
    0 \<le> sum_list (sweep t as) \<and> sum_list (sweep t as) \<le> t"
  using assms
proof (induction t as rule: sweep.induct)
  case (2 t a m as)
  have a: "0 < a" "\<forall>(a, m)\<in>set as. 0 < a" using 2(4) by auto
  show ?case
  proof (cases "t = 0 \<or> min t a < m")
    case True
    then show ?thesis using 2(1) 2(3) a by auto
  next
    case False
    then show ?thesis using 2(2) [OF False] 2(3) a by (auto simp: min_def split: if_splits)
  qed
qed simp

text \<open>A slice that is large enough is taken.\<close>

lemma greedy_loop_take:
  assumes "cs_exchange_id s < length (ctx_states ctx)" and "fs_remaining_lots fs \<noteq> 0" and "length (fs_out fs) < 100"
  defines "f \<equiv> min (fs_remaining_lots fs) (available_lots s)" and "st \<equiv> ctx_states ctx ! cs_exchange_id s"
  assumes "canonical_min_lots st r \<le> f"
  shows "greedy_loop ctx r (s # slices) fs = greedy_loop ctx r slices (take_slice ctx r st s f fs)"
    and "fs_remaining_lots (take_slice ctx r st s f fs) = fs_remaining_lots fs - f"
    and "fs_out (take_slice ctx r st s f fs) = fs_out fs @ [child_of ctx r s f]"
    and "sr_child_count (fs_result (take_slice ctx r st s f fs)) = sr_child_count (fs_result fs) + 1"
proof -
  have fl: "(if fs_remaining_lots fs < available_lots s then fs_remaining_lots fs else available_lots s) = f" by (simp add: f_def min_def)
  have "nth_opt (ctx_states ctx) (cs_exchange_id s) = Some st" using assms(1) by (simp add: st_def)
  then show "greedy_loop ctx r (s # slices) fs = greedy_loop ctx r slices (take_slice ctx r st s f fs)"
    using assms(2,3,6) by (simp add: Let_def fl buf_full_def)
  show "fs_remaining_lots (take_slice ctx r st s f fs) = fs_remaining_lots fs - f"
    and "fs_out (take_slice ctx r st s f fs) = fs_out fs @ [child_of ctx r s f]"
    and "sr_child_count (fs_result (take_slice ctx r st s f fs)) = sr_child_count (fs_result fs) + 1"
    by (simp_all add: take_slice_def child_of_def from_lots_def from_ticks_def st_def Let_def)
qed

lemma greedy_loop_spec:
  assumes "\<forall>s\<in>set slices. cs_exchange_id s < length (ctx_states ctx) \<and> 0 < available_lots s"
    and "0 \<le> fs_remaining_lots fs" and "length (fs_out fs) + length slices \<le> 100"
    and "sr_child_count (fs_result fs) = length (fs_out fs)"
  shows "\<exists>fs'. greedy_loop ctx r slices fs = Some fs' \<and>
    fs_remaining_lots fs' = fs_remaining_lots fs - sum_list (sweep (fs_remaining_lots fs) (offers ctx r slices)) \<and>
    fs_out fs' = fs_out fs @ children_of ctx r slices (sweep (fs_remaining_lots fs) (offers ctx r slices)) \<and>
    sr_child_count (fs_result fs') = length (fs_out fs')"
  using assms
proof (induction slices arbitrary: fs)
  case Nil
  then show ?case by (simp add: offers_def children_of_def)
next
  case (Cons s slices)
  let ?t = "fs_remaining_lots fs" and ?st = "ctx_states ctx ! cs_exchange_id s"
  let ?m = "canonical_min_lots ?st r" and ?f = "min ?t (available_lots s)"
  have fl: "(if ?t < available_lots s then ?t else available_lots s) = ?f" by (simp add: min_def)
  have st: "nth_opt (ctx_states ctx) (cs_exchange_id s) = Some ?st" using Cons.prems(1) by simp
  show ?case
  proof (cases "?t = 0")
    case True
    then have "children_of ctx r (s # slices) (map (\<lambda>_. 0) (offers ctx r (s # slices))) = []"
      by (auto simp: children_of_def filter_empty_conv set_zip offers_def simp del: list.map)
    then show ?thesis using True Cons.prems(4) by (simp add: sweep_zero del: list.map)
  next
    case t: False
    show ?thesis
    proof (cases "?f < ?m")
      case True
      then show ?thesis using Cons.IH [of fs] Cons.prems t st
        by (simp add: Let_def fl offers_def children_of_def)
    next
      case False
      let ?fs = "take_slice ctx r ?st s ?f fs"
      have pos: "?f \<noteq> 0" "0 \<le> ?t - ?f" using t Cons.prems(1,2) by (auto simp: min_def)
      have g: "cs_exchange_id s < length (ctx_states ctx)" "length (fs_out fs) < 100" "?m \<le> ?f" using Cons.prems(1,3) False by (simp_all add: not_less)
      note fs = greedy_loop_take [OF g(1) t g(2,3)]
      obtain fs' where "greedy_loop ctx r slices ?fs = Some fs'"
        "fs_remaining_lots fs' = (?t - ?f) - sum_list (sweep (?t - ?f) (offers ctx r slices))"
        "fs_out fs' = (fs_out fs @ [child_of ctx r s ?f]) @ children_of ctx r slices (sweep (?t - ?f) (offers ctx r slices))"
        "sr_child_count (fs_result fs') = length (fs_out fs')"
        using Cons.IH [of ?fs] Cons.prems pos(2) unfolding fs(2-4) by auto
      then show ?thesis using fs(1) t False pos(1) by (simp add: offers_def children_of_def del: greedy_loop.simps)
    qed
  qed
qed

subsection \<open>Least cost\<close>

fun fill_greedily :: "qty_t \<Rightarrow> qty_t list \<Rightarrow> qty_t list" where
  "fill_greedily t [] = []"
| "fill_greedily t (a # as) = min t a # fill_greedily (t - min t a) as"

definition cost :: "int list \<Rightarrow> qty_t list \<Rightarrow> int" where
  "cost ps fs = sum_list (map2 (*) ps fs)"

definition feasible :: "qty_t list \<Rightarrow> qty_t list \<Rightarrow> bool" where
  "feasible as fs \<longleftrightarrow> list_all2 (\<lambda>a f. 0 \<le> f \<and> f \<le> a) as fs"

lemma cost_simps [simp]: "cost [] fs = 0" "cost (p # ps) (f # fs) = p * f + cost ps fs"
  by (simp_all add: cost_def)

lemma feasible_sum: "feasible as fs \<Longrightarrow> 0 \<le> sum_list fs \<and> sum_list fs \<le> sum_list as"
  unfolding feasible_def by (induction rule: list_all2_induct) auto

lemma fill_greedily_sum:
  assumes "0 \<le> t" and "\<forall>a\<in>set as. 0 \<le> a"
  shows "sum_list (fill_greedily t as) = min t (sum_list as) \<and> feasible as (fill_greedily t as)"
  using assms
proof (induction t as rule: fill_greedily.induct)
  case (2 t a as)
  have "0 \<le> sum_list as" using 2(3) by (simp add: sum_list_nonneg)
  then show ?case using 2 by (auto simp: feasible_def min_def)
qed (simp add: feasible_def)

lemma fill_greedily_cap:
  assumes "\<forall>a\<in>set as. 0 \<le> a" and "0 \<le> t"
  shows "fill_greedily (min t (sum_list as)) as = fill_greedily t as"
  using assms
proof (induction as arbitrary: t)
  case (Cons a as)
  have s: "0 \<le> sum_list as" using Cons.prems(1) by (simp add: sum_list_nonneg)
  have "min (min t (a + sum_list as)) a = min t a" using s Cons.prems(1) by (auto simp: min_def)
  moreover have "min t (a + sum_list as) - min t a = min (t - min t a) (sum_list as)"
    using s by (auto simp: min_def)
  ultimately show ?case using Cons.IH [of "t - min t a"] Cons.prems by simp
qed simp

text \<open>Asking for \<open>d\<close> lots more costs at least \<open>d\<close> times the cheapest price.\<close>

lemma cost_marginal:
  assumes "\<forall>q\<in>set ps. p \<le> q" and "length ps = length as" and "0 \<le> t" and "0 \<le> d" and "t + d \<le> sum_list as"
    and "\<forall>a\<in>set as. 0 \<le> a"
  shows "cost ps (fill_greedily t as) + p * d \<le> cost ps (fill_greedily (t + d) as)"
  using assms
proof (induction as arbitrary: ps t d)
  case (Cons a as)
  obtain q ps' where ps: "ps = q # ps'" "p \<le> q" "\<forall>x\<in>set ps'. p \<le> x" "length ps' = length as"
    using Cons.prems(1,2) by (cases ps) auto
  let ?g = "min t a" and ?g' = "min (t + d) a"
  have g: "?g \<le> ?g'" "?g' \<le> ?g + d" using Cons.prems(4) by (auto simp: min_def)
  have "cost ps' (fill_greedily (t - ?g) as) + p * (d - (?g' - ?g)) \<le> cost ps' (fill_greedily (t - ?g + (d - (?g' - ?g))) as)"
    using Cons.prems ps g sum_list_nonneg [of as] by (intro Cons.IH) (auto simp: min_def split: if_splits)
  moreover have "t - ?g + (d - (?g' - ?g)) = t + d - ?g'" by simp
  moreover have "p * (?g' - ?g) \<le> q * (?g' - ?g)" using g(1) ps(2) by (intro mult_right_mono) auto
  ultimately show ?case by (simp add: ps(1) algebra_simps)
next
  case Nil
  then have "d = 0" by simp
  then show ?case by (simp add: cost_def)
qed

lemma greedy_least_cost:
  assumes "sorted ps" and "length ps = length as" and "feasible as fs"
  shows "cost ps (fill_greedily (sum_list fs) as) \<le> cost ps fs"
  using assms
proof (induction as arbitrary: ps fs)
  case (Cons a as)
  obtain p ps' where ps: "ps = p # ps'" "\<forall>x\<in>set ps'. p \<le> x" "sorted ps'" "length ps' = length as"
    using Cons.prems(1,2) by (cases ps) auto
  obtain f fs' where fs: "fs = f # fs'" "0 \<le> f" "f \<le> a" "feasible as fs'"
    using Cons.prems(3) by (auto simp: feasible_def list_all2_Cons1)
  have s: "0 \<le> sum_list fs'" "sum_list fs' \<le> sum_list as" using feasible_sum [OF fs(4)] by auto
  have nn: "\<forall>a\<in>set as. 0 \<le> a" using fs(4) by (force simp: feasible_def list_all2_conv_all_nth in_set_conv_nth)
  let ?g = "min (f + sum_list fs') a"
  have g: "f \<le> ?g" "?g \<le> f + sum_list fs'" using fs s by auto
  have "cost ps' (fill_greedily (sum_list fs' - (?g - f)) as) + p * (?g - f) \<le>
      cost ps' (fill_greedily (sum_list fs' - (?g - f) + (?g - f)) as)"
    using ps g s nn by (intro cost_marginal) auto
  also have "\<dots> \<le> cost ps' fs'" using Cons.IH [OF ps(3,4) fs(4)] by simp
  finally have "cost ps' (fill_greedily (f + sum_list fs' - ?g) as) + p * (?g - f) \<le> cost ps' fs'"
    by (simp add: algebra_simps)
  then show ?case by (simp add: ps(1) fs(1) algebra_simps)
qed simp

lemma sweep_is_greedy:
  assumes "0 \<le> t" and "\<forall>(a, m)\<in>set as. 0 < a \<and> m \<le> 1"
  shows "sweep t as = fill_greedily t (map fst as)"
  using assms
proof (induction t as rule: sweep.induct)
  case (2 t a m as)
  have a: "0 < a" "m \<le> 1" "\<forall>(a, m)\<in>set as. 0 < a \<and> m \<le> 1" using 2(4) by auto
  show ?case
  proof (cases "t = 0")
    case True
    then show ?thesis using 2(1) a by simp
  next
    case False
    then show ?thesis using 2(2) 2(3) a by (auto simp: min_def split: if_splits)
  qed
qed simp


subsection \<open>The whole split\<close>

definition split_slices :: "(double \<Rightarrow> double) \<Rightarrow> RoutingEngine \<Rightarrow> RoutingContext \<Rightarrow> double \<Rightarrow> CostSlice list" where
  "split_slices expf eng ctx r = sort_key effective_ticks (takeable_all expf eng ctx r)"

definition split_fills :: "(double \<Rightarrow> double) \<Rightarrow> RoutingEngine \<Rightarrow> RoutingContext \<Rightarrow> double \<Rightarrow> qty_t list" where
  "split_fills expf eng ctx r = sweep (ctx_target_lots ctx) (offers ctx r (split_slices expf eng ctx r))"

definition split_ok :: "(double \<Rightarrow> double) \<Rightarrow> RoutingEngine \<Rightarrow> RoutingContext \<Rightarrow> double \<Rightarrow> bool" where
  "split_ok expf eng ctx r \<longleftrightarrow> wf_ctx expf eng ctx r \<and> 0 < ctx_target_lots ctx \<and>
     (\<forall>s\<in>set (takeable_all expf eng ctx r). 0 < available_lots s)"

lemma takeable_exchange:
  assumes "wf_ctx expf eng ctx r" and "s \<in> set (takeable_all expf eng ctx r)"
  shows "cs_exchange_id s < length (ctx_states ctx)"
proof -
  obtain state where st: "state \<in> set (active_states ctx)" "s \<in> set (takeable expf eng ctx r state)"
    using assms(2) by (auto simp: takeable_all_def)
  then have wf: "wf_exchange expf eng ctx r state" using assms(1) by (auto simp: wf_ctx_def list_all_iff)
  then obtain c where c: "make_cursor expf eng ctx r state = Some c" "wf_cursor c" by (rule wf_exchange_cursor)
  have "cs_exchange_id s = es_exchange_id state"
    using st(2) c(1) make_cursor_fields(5) [OF c(1)]
    by (cases "es_enabled state \<and> is_valid (es_book state)") (auto simp: takeable_def slice_of_def)
  then show ?thesis using wf by (simp add: wf_exchange_def)
qed

lemma split_slices_props:
  assumes "split_ok expf eng ctx r"
  shows "\<forall>s\<in>set (split_slices expf eng ctx r). cs_exchange_id s < length (ctx_states ctx) \<and> 0 < available_lots s"
    and "length (split_slices expf eng ctx r) \<le> 100"
    and "sorted (map effective_ticks (split_slices expf eng ctx r))"
  using assms takeable_exchange takeable_all_length by (auto simp: split_ok_def split_slices_def)

lemma offers_pos:
  assumes "split_ok expf eng ctx r"
  shows "\<forall>(a, m)\<in>set (offers ctx r (split_slices expf eng ctx r)). 0 < a"
  using split_slices_props(1) [OF assms] by (auto simp: offers_def)

lemma split_run:
  assumes "split_ok expf eng ctx r"
  shows "\<exists>res. calculate_optimal_split expf eng ctx [] =
      Some (res, children_of ctx r (split_slices expf eng ctx r) (split_fills expf eng ctx r)) \<and>
    sr_success res = (sum_list (split_fills expf eng ctx r) = ctx_target_lots ctx) \<and>
    sr_unfilled_qty res = from_lots (ctx_target_lots ctx - sum_list (split_fills expf eng ctx r)) r \<and>
    sr_child_count res = length (children_of ctx r (split_slices expf eng ctx r) (split_fills expf eng ctx r))"
proof -
  let ?S = "split_slices expf eng ctx r" and ?F = "split_fills expf eng ctx r" and ?t = "ctx_target_lots ctx"
  have wf: "wf_ctx expf eng ctx r" "0 < ?t" using assms by (auto simp: split_ok_def)
  have b: "build_cost_slices expf eng ctx = Some ?S" using build_cost_slices_eq [OF wf(1)] by (simp add: split_slices_def)
  have ref: "resolve_reference_lot_size ctx = Some r" "ctx_active_exchanges ctx \<le> 5" using wf(1) by (auto simp: wf_ctx_def)
  show ?thesis
  proof (cases "?S = []")
    case True
    then show ?thesis using b ref wf(2)
      by (simp add: calculate_optimal_split_def greedy_fill_def split_fills_def offers_def children_of_def empty_result_def)
  next
    case False
    let ?fs = "\<lparr>fs_remaining_lots = ?t, fs_best_raw_ticks = 0, fs_worst_raw_ticks = 0, fs_adverse = 0,
      fs_result = empty_result, fs_out = []\<rparr>"
    obtain fs' where fs': "greedy_loop ctx r ?S ?fs = Some fs'" "fs_remaining_lots fs' = ?t - sum_list ?F"
      "fs_out fs' = children_of ctx r ?S ?F" "sr_child_count (fs_result fs') = length (fs_out fs')"
      using greedy_loop_spec [OF split_slices_props(1) [OF assms], where fs = ?fs and r = r] split_slices_props(2) [OF assms] wf(2)
      by (auto simp: empty_result_def split_fills_def)
    show ?thesis using False b ref wf(2) fs'
      by (simp add: calculate_optimal_split_def greedy_fill_def Let_def) auto
  qed
qed

subsection \<open>Properties\<close>

text \<open>C10: The split never faults and conserves quantity.  On well-formed books with positive lots the
  router returns, writes at most 100 orders, one for each slice from which it takes any lots, takes
  from each slice at most what it offers and at least the exchange's minimum, and takes at most the
  target in total; it reports success exactly when the target is taken in full, and the unfilled
  quantity is the difference.\<close>

theorem optimal_split_conserves:
  assumes "split_ok expf eng ctx r"
  shows "\<exists>res orders fills. calculate_optimal_split expf eng ctx [] = Some (res, orders) \<and>
    orders = children_of ctx r (split_slices expf eng ctx r) fills \<and> length orders \<le> kMaxChildOrders \<and>
    sr_child_count res = length orders \<and>
    list_all2 (\<lambda>f s. 0 \<le> f \<and> f \<le> available_lots s \<and>
      (f = 0 \<or> canonical_min_lots (ctx_states ctx ! cs_exchange_id s) r \<le> f)) fills (split_slices expf eng ctx r) \<and>
    sum_list fills \<le> ctx_target_lots ctx \<and>
    sr_success res = (sum_list fills = ctx_target_lots ctx) \<and>
    sr_unfilled_qty res = from_lots (ctx_target_lots ctx - sum_list fills) r"
proof -
  let ?S = "split_slices expf eng ctx r" and ?F = "split_fills expf eng ctx r"
  have t: "0 \<le> ctx_target_lots ctx" using assms by (simp add: split_ok_def)
  note sb = sweep_bounds [OF t offers_pos [OF assms]]
  have "length (children_of ctx r ?S ?F) \<le> length ?S"
    unfolding children_of_def by (metis length_filter_le length_map length_zip min.cobounded1 order_trans)
  then have "length (children_of ctx r ?S ?F) \<le> 100" using split_slices_props(2) [OF assms] by linarith
  moreover have "list_all2 (\<lambda>f s. 0 \<le> f \<and> f \<le> available_lots s \<and>
      (f = 0 \<or> canonical_min_lots (ctx_states ctx ! cs_exchange_id s) r \<le> f)) ?F ?S"
    using sb by (simp add: split_fills_def offers_def list_all2_map2)
  ultimately show ?thesis using split_run [OF assms] sb by (auto simp: split_fills_def)
qed

lemma split_fills_greedy:
  assumes "split_ok expf eng ctx r" and "\<forall>state\<in>set (ctx_states ctx). canonical_min_lots state r \<le> 1"
  shows "split_fills expf eng ctx r = fill_greedily (ctx_target_lots ctx) (map available_lots (split_slices expf eng ctx r))"
    and "sum_list (split_fills expf eng ctx r) = min (ctx_target_lots ctx) (\<Sum>s\<leftarrow>split_slices expf eng ctx r. available_lots s)"
proof -
  let ?S = "split_slices expf eng ctx r" and ?t = "ctx_target_lots ctx"
  have t: "0 \<le> ?t" using assms(1) by (simp add: split_ok_def)
  have "\<forall>(a, m)\<in>set (offers ctx r ?S). 0 < a \<and> m \<le> 1"
    using split_slices_props(1) [OF assms(1)] assms(2) by (auto simp: offers_def)
  moreover have "map fst (offers ctx r ?S) = map available_lots ?S" by (simp add: offers_def)
  ultimately show F: "split_fills expf eng ctx r = fill_greedily ?t (map available_lots ?S)"
    using sweep_is_greedy [OF t] by (simp add: split_fills_def)
  have "\<forall>a\<in>set (map available_lots ?S). 0 \<le> a" using split_slices_props(1) [OF assms(1)] by force
  then show "sum_list (split_fills expf eng ctx r) = min ?t (\<Sum>s\<leftarrow>?S. available_lots s)"
    unfolding F using fill_greedily_sum [OF t] by blast
qed



lemma demo_lots:
  assumes "0 < q" and "q < 1000" and "cu_max_lots c = 1000" and "cu_fill_rate c = 1" and "cu_lot_ratio c = 1"
  shows "canonical_lots c (adj_lots c q) = q"
proof -
  have "of_i64 q * 1 = Fin (of_int q)"
    using assms rnd_of_int [of q] by (simp add: of_i64_def one_double_def)
  then show ?thesis using assms by (simp add: canonical_lots_def adj_lots_def Let_def)
qed

lemma demo_positive:
  assumes "i < 2" and "ps \<noteq> []" and "length qs = length ps" and "\<forall>q\<in>set qs. 0 < q \<and> q < 1000"
    and "s \<in> set (takeable demo_exp demo_engine demo_ctx 1 (demo_state i bp bq ps qs))"
  shows "0 < available_lots s"
proof -
  obtain c where c: "make_cursor demo_exp demo_engine demo_ctx 1 (demo_state i bp bq ps qs) = Some c"
    "cu_max_lots c = 1000" "cu_fill_rate c = 1" "cu_lot_ratio c = 1" "cu_levels c = demo_side ps qs"
    using demo_cursor [of i ps bp bq qs] assms(1,2) by auto
  obtain k where k: "s = slice_of c k" "k < length ps"
    using assms(5) c by (auto simp: takeable_def demo_state_def demo_side_def)
  have "qty_lots (cu_levels c) ! k \<in> set qs" using k(2) c(5) assms(3) by (simp add: demo_side_def nth_append)
  then have "canonical_lots c (adj_lots c (qty_lots (cu_levels c) ! k)) = qty_lots (cu_levels c) ! k"
    "0 < qty_lots (cu_levels c) ! k"
    using demo_lots c assms(4) by auto
  then show ?thesis using k(1) by (simp add: slice_of_def)
qed

lemma demo_states:
  "ctx_states demo_ctx = [demo_state 0 [200, 199] [4, 4] [201, 203] [5, 5], demo_state 1 [200] [9] [202] [10]]"
  "ctx_active_exchanges demo_ctx = 2" "ctx_target_lots demo_ctx = 12"
  by (simp_all add: demo_ctx_def)

lemma demo_split_ok: "split_ok demo_exp demo_engine demo_ctx 1"
proof -
  have "0 < available_lots s" if "s \<in> set (takeable_all demo_exp demo_engine demo_ctx 1)" for s
  proof -
    from that consider
        "s \<in> set (takeable demo_exp demo_engine demo_ctx 1 (demo_state 0 [200, 199] [4, 4] [201, 203] [5, 5]))"
      | "s \<in> set (takeable demo_exp demo_engine demo_ctx 1 (demo_state 1 [200] [9] [202] [10]))"
      by (auto simp: takeable_all_def active_states_def demo_states)
    then show ?thesis by cases (erule demo_positive [rotated 4], simp_all)+
  qed
  then show ?thesis by (simp add: split_ok_def demo_wf_ctx demo_states)
qed

lemma demo_min_lots: "\<forall>state\<in>set (ctx_states demo_ctx). canonical_min_lots state 1 \<le> 1"
  by (simp add: demo_states canonical_min_lots_def demo_state_def one_double_def)

theorem optimal_split_conserves_witness:
  "\<exists>res orders. calculate_optimal_split demo_exp demo_engine demo_ctx [] = Some (res, orders) \<and> length orders \<le> 100"
  using optimal_split_conserves [OF demo_split_ok] by auto



subsection \<open>Maker placement\<close>

definition maker_quotes :: "RoutingEngine \<Rightarrow> RoutingContext \<Rightarrow> ExchangeState list \<Rightarrow> (ExchangeState \<times> price_t \<times> int) list" where
  "maker_quotes eng ctx states = concat (map (\<lambda>st. case maker_quote eng ctx st of
     Some (Some (raw, eff)) \<Rightarrow> [(st, raw, eff)] | _ \<Rightarrow> []) states)"

definition quote_eff :: "ExchangeState \<times> price_t \<times> int \<Rightarrow> int" where
  "quote_eff q = snd (snd q)"

definition better :: "(ExchangeState \<times> price_t \<times> int) option \<Rightarrow> ExchangeState \<times> price_t \<times> int \<Rightarrow> (ExchangeState \<times> price_t \<times> int) option" where
  "better best q = (case best of None \<Rightarrow> Some q | Some b \<Rightarrow> if quote_eff q < quote_eff b then Some q else Some b)"

lemma better_simps [simp]:
  "better None q = Some q" "better (Some b) q = Some (if quote_eff q < quote_eff b then q else b)"
  by (simp_all add: better_def)

text \<open>Exchanges whose quotes can be read: a fee row and at least one array element.\<close>

definition maker_ok :: "RoutingEngine \<Rightarrow> RoutingContext \<Rightarrow> bool" where
  "maker_ok eng ctx \<longleftrightarrow> 0 < ctx_target_lots ctx \<and> ctx_active_exchanges ctx \<le> kMaxExchanges \<and>
     ctx_active_exchanges ctx \<le> length (ctx_states ctx) \<and>
     list_all (\<lambda>st. es_exchange_id st < length (rates (eng_fees eng)) \<and> wf_side (bids (es_book st)) \<and> wf_side (asks (es_book st)))
       (active_states ctx)"

lemma maker_quote_ok:
  assumes "es_exchange_id st < length (rates (eng_fees eng))" and "wf_side (bids (es_book st))" and "wf_side (asks (es_book st))"
  shows "maker_quote eng ctx st \<noteq> None"
proof -
  have "wf_side (book_side (maker_side_idx (ctx_dir ctx)) (es_book st))" using assms by (simp add: book_side_def)
  then have "0 < length (price_ticks (book_side (maker_side_idx (ctx_dir ctx)) (es_book st)))" by (simp add: wf_side_def)
  then show ?thesis using assms(1) by (simp add: maker_quote_def Let_def fee_maker_def)
qed

lemma maker_scan_eq:
  assumes "\<forall>ex\<in>set exs. ex < length (ctx_states ctx) \<and> maker_quote eng ctx (ctx_states ctx ! ex) \<noteq> None"
  shows "maker_scan eng ctx exs best = Some (foldl better best (maker_quotes eng ctx (map ((!) (ctx_states ctx)) exs)))"
  using assms
proof (induction exs arbitrary: best)
  case (Cons ex exs)
  let ?st = "ctx_states ctx ! ex"
  have IH: "\<And>best. maker_scan eng ctx exs best = Some (foldl better best (maker_quotes eng ctx (map ((!) (ctx_states ctx)) exs)))"
    using Cons by simp
  obtain q where q: "maker_quote eng ctx ?st = Some q" using Cons.prems by auto
  show ?case
  proof (cases q)
    case None
    then show ?thesis using IH q Cons.prems by (simp add: maker_quotes_def)
  next
    case (Some re)
    obtain raw eff where re: "re = (raw, eff)" by (cases re)
    have "(case best of None \<Rightarrow> Some (?st, raw, eff) | Some (_, _, be) \<Rightarrow> if eff < be then Some (?st, raw, eff) else best) =
        better best (?st, raw, eff)"
      by (auto simp: better_def quote_eff_def split: option.splits prod.splits)
    then show ?thesis using IH q Some re Cons.prems by (simp add: maker_quotes_def)
  qed
qed (simp add: maker_quotes_def)

lemma foldl_better:
  "foldl better (Some b) qs = Some q \<Longrightarrow> q \<in> set (b # qs) \<and> (\<forall>x\<in>set (b # qs). quote_eff q \<le> quote_eff x)"
proof (induction qs arbitrary: b)
  case (Cons y qs)
  have "foldl better (Some (if quote_eff y < quote_eff b then y else b)) qs = Some q"
    using Cons.prems by simp
  from Cons.IH [OF this] show ?case by (auto split: if_splits)
qed simp

lemma foldl_better_None: "foldl better None qs = None \<longleftrightarrow> qs = []"
proof -
  have "foldl better (Some b) qs \<noteq> None" for b qs
    by (induction qs arbitrary: b) auto
  then show ?thesis by (cases qs) auto
qed

lemma foldl_better_first:
  "foldl better None qs = Some q \<Longrightarrow> q \<in> set qs \<and> (\<forall>x\<in>set qs. quote_eff q \<le> quote_eff x)"
  using foldl_better [of "hd qs" "tl qs" q] by (cases qs) auto

lemma maker_run:
  assumes "maker_ok eng ctx" and "resolve_reference_lot_size ctx = Some r"
  shows "\<exists>res orders. calculate_maker_placement eng ctx [] = Some (res, orders) \<and> sr_filled_qty res = 0 \<and>
    (let quotes = maker_quotes eng ctx (active_states ctx)
     in if quotes = [] then orders = [] \<and> \<not> sr_success res
        else sr_success res \<and> (\<exists>(st, raw, eff)\<in>set quotes. (\<forall>q\<in>set quotes. eff \<le> quote_eff q) \<and>
          orders = [\<lparr>co_price = from_ticks raw (nb_tick_size (es_book st)), co_qty = from_lots (ctx_target_lots ctx) r,
            co_effective_cost = from_ticks eff (nb_tick_size (es_book st)), co_exchange_id = es_exchange_id st,
            co_level_idx = 0, co_type = MAKER, co_dir = ctx_dir ctx\<rparr>]))"
proof -
  let ?exs = "[0..<ctx_active_exchanges ctx]" and ?Q = "maker_quotes eng ctx (active_states ctx)"
  have a: "active_states ctx = map ((!) (ctx_states ctx)) ?exs"
    using assms(1) by (auto simp: maker_ok_def active_states_def list_eq_iff_nth_eq)
  have ok: "0 < ctx_target_lots ctx" "ctx_active_exchanges ctx \<le> 5" using assms(1) by (auto simp: maker_ok_def)
  have rd: "\<forall>st\<in>set (active_states ctx). wf_side (bids (es_book st)) \<and> wf_side (asks (es_book st)) \<and> maker_quote eng ctx st \<noteq> None"
    using assms(1) maker_quote_ok by (auto simp: maker_ok_def list_all_iff)
  have sc: "maker_scan eng ctx ?exs None = Some (foldl better None ?Q)"
    using maker_scan_eq [of ?exs ctx eng None] rd assms(1) by (auto simp: a maker_ok_def)
  show ?thesis
  proof (cases "?Q = []")
    case True
    then show ?thesis using sc ok
      by (simp add: calculate_maker_placement_def empty_result_def)
  next
    case False
    then obtain st raw eff where q: "foldl better None ?Q = Some (st, raw, eff)"
      using foldl_better_None by (metis not_None_eq prod_cases3)
    note b = foldl_better_first [OF q]
    then have "st \<in> set (active_states ctx)" by (auto simp: maker_quotes_def split: option.splits)
    then have "0 < length (price_ticks (book_side i (es_book st)))" for i
      using rd by (auto simp: book_side_def wf_side_def)
    then have "\<exists>res. calculate_maker_placement eng ctx [] = Some (res,
        [\<lparr>co_price = from_ticks raw (nb_tick_size (es_book st)), co_qty = from_lots (ctx_target_lots ctx) r,
            co_effective_cost = from_ticks eff (nb_tick_size (es_book st)), co_exchange_id = es_exchange_id st,
            co_level_idx = 0, co_type = MAKER, co_dir = ctx_dir ctx\<rparr>]) \<and> sr_filled_qty res = 0 \<and> sr_success res"
      using sc ok assms(2) q by (simp add: calculate_maker_placement_def from_ticks_def from_lots_def Let_def)
    then obtain res where r: "calculate_maker_placement eng ctx [] = Some (res,
        [\<lparr>co_price = from_ticks raw (nb_tick_size (es_book st)), co_qty = from_lots (ctx_target_lots ctx) r,
            co_effective_cost = from_ticks eff (nb_tick_size (es_book st)), co_exchange_id = es_exchange_id st,
            co_level_idx = 0, co_type = MAKER, co_dir = ctx_dir ctx\<rparr>])" "sr_filled_qty res = 0" "sr_success res"
      by blast
    show ?thesis unfolding r(1) using False b r(2,3)
      by (auto simp: quote_eff_def Let_def intro!: bexI [of _ "(st, raw, eff)"])
  qed
qed



lemma demo_maker_ok: "maker_ok demo_engine demo_ctx"
  by (simp add: maker_ok_def demo_states active_states_def demo_engine_def demo_state_def demo_side_def wf_side_def)


subsection \<open>Tick sizes that differ\<close>

text \<open>One exchange bids 100 at whole-dollar ticks, the other 99 at half-dollar ticks (198 of them).\<close>

definition tick_mix_ctx :: RoutingContext where
  "tick_mix_ctx = demo_ctx\<lparr>ctx_states :=
     [(demo_state 0 [100] [5] [101] [5])\<lparr>es_book := (es_book (demo_state 0 [100] [5] [101] [5]))\<lparr>nb_tick_size := 1\<rparr>\<rparr>,
      demo_state 1 [198] [5] [200] [5]]\<rparr>"

text \<open>Effective prices are compared in ticks of different size.  Of two exchanges with no fees, one
  bidding 100 dollars in ticks of one dollar and the other 99 dollars in ticks of half a dollar, the
  maker placement of a buy order chooses the first and posts at 100, because 100 ticks are fewer
  than 198: where tick sizes differ it does not find the best price.\<close>

theorem maker_tick_size_mismatch:
  "\<exists>res order. calculate_maker_placement demo_engine tick_mix_ctx [] = Some (res, [order]) \<and>
     co_exchange_id order = 0 \<and> co_price order = Fin 100 \<and>
     best_bid_price (es_book (ctx_states tick_mix_ctx ! 1)) = Some (Fin 99)"
proof -
  have z: "of_i64 100 * 0 = Fin 0" "of_i64 198 * 0 = Fin 0" by (simp_all add: of_i64_def zero_double_def)
  have q: "maker_quote demo_engine tick_mix_ctx (ctx_states tick_mix_ctx ! 0) = Some (Some (100, 100))"
    "maker_quote demo_engine tick_mix_ctx (ctx_states tick_mix_ctx ! Suc 0) = Some (Some (198, 198))"
    using z by (simp_all add: maker_quote_def tick_mix_ctx_def demo_ctx_def demo_state_def demo_side_def demo_engine_def
        book_side_def maker_side_idx_def fee_maker_def llround_def zero_double_def Let_def)
  have "[0..<2] = [0, Suc 0]" by (simp add: upt_rec)
  then have "maker_scan demo_engine tick_mix_ctx [0..<2] None = Some (Some (ctx_states tick_mix_ctx ! 0, 100, 100))"
    using q by (simp add: tick_mix_ctx_def [THEN arg_cong [where f = ctx_states]])
  moreover have "ctx_active_exchanges tick_mix_ctx = 2" "ctx_target_lots tick_mix_ctx = 12"
    "resolve_reference_lot_size tick_mix_ctx = Some 1"
    by (simp_all add: tick_mix_ctx_def demo_ctx_def resolve_reference_lot_size_def zero_double_def one_double_def)
  ultimately show ?thesis
    by (simp add: calculate_maker_placement_def Let_def)
       (simp add: tick_mix_ctx_def demo_ctx_def demo_state_def demo_side_def book_side_def maker_opp_idx_def
          best_bid_price_def of_i64_def one_double_def)
qed

end
