(* ===== verification/Routing_Safe.thy ===== *)
theory Routing_Safe
  imports Routing_Split
begin

text \<open>
  The router does not fault, whatever the prices, quantities and parameters in the books: array
  shapes and identifiers in range are enough.  The execution core relies on this form, which needs
  neither sorted books nor bounded prices.
\<close>

definition state_shape :: "RoutingEngine \<Rightarrow> nat \<Rightarrow> ExchangeState \<Rightarrow> bool" where
  "state_shape eng n st \<longleftrightarrow> es_exchange_id st < length (rates (eng_fees eng)) \<and> es_exchange_id st < n \<and>
     wf_side (bids (es_book st)) \<and> wf_side (asks (es_book st))"

definition router_shape :: "RoutingEngine \<Rightarrow> ExchangeState list \<Rightarrow> nat \<Rightarrow> bool" where
  "router_shape eng sts n \<longleftrightarrow> sts \<noteq> [] \<and> n \<le> kMaxExchanges \<and> n \<le> length sts \<and> list_all (state_shape eng (length sts)) (take n sts)"

definition safe_cursor :: "nat \<Rightarrow> Cursor \<Rightarrow> bool" where
  "safe_cursor n c \<longleftrightarrow> wf_side (cu_levels c) \<and> es_exchange_id (cu_state c) < n \<and>
     (cu_exhausted c \<or> cu_level_idx c < ls_count (cu_levels c))"

lemma wf_side_reads:
  assumes "wf_side ls" and "i < ls_count ls"
  shows "nth_opt (price_ticks ls) i = Some (price_ticks ls ! i)" and "nth_opt (qty_lots ls) i = Some (qty_lots ls ! i)"
  using assms by (simp_all add: wf_side_def)

lemma seek_safe:
  assumes "wf_side (cu_levels c)" and "es_exchange_id (cu_state c) < n"
  shows "\<exists>c'. seek_next_valid c = Some c' \<and> safe_cursor n c'"
  using assms
proof (induction "ls_count (cu_levels c) - cu_level_idx c" arbitrary: c)
  case 0
  then show ?case by (simp add: seek_next_valid.simps [of c] safe_cursor_def)
next
  case (Suc k)
  have i: "cu_level_idx c < ls_count (cu_levels c)" using Suc.hyps(2) by simp
  have IH: "\<exists>c'. seek_next_valid (c\<lparr>cu_level_idx := cu_level_idx c + 1\<rparr>) = Some c' \<and> safe_cursor n c'"
    using Suc.hyps(2) Suc.prems by (intro Suc.hyps(1)) auto
  show ?case
    using i Suc.prems wf_side_reads [OF Suc.prems(1) i] IH
    by (subst seek_next_valid.simps) (auto simp: safe_cursor_def)
qed

lemma scan_safe: "list_all (safe_cursor n) cs \<Longrightarrow> \<exists>r. scan_best cs k acc = Some r"
proof (induction cs arbitrary: k acc)
  case (Cons c cs)
  then show ?case
    by (cases "cu_exhausted c") (auto simp: safe_cursor_def wf_side_reads Let_def)
qed simp

lemma list_all_update: "list_all P xs \<Longrightarrow> P y \<Longrightarrow> list_all P (xs[i := y])"
  by (auto simp: list_all_iff dest: set_update_subset_insert [THEN subsetD])

lemma merge_safe:
  assumes "list_all (safe_cursor n) cs" and "length acc \<le> 100" and "list_all (\<lambda>s. cs_exchange_id s < n) acc"
    and "length cs \<le> 5"
  shows "\<exists>slices. merge_loop cs acc = Some slices \<and> length slices \<le> 100 \<and> list_all (\<lambda>s. cs_exchange_id s < n) slices"
  using assms
proof (induction "\<Sum>c\<leftarrow>cs. cursor_left c" arbitrary: cs acc rule: less_induct)
  case less
  obtain bk be where sc: "scan_best cs 0 (kMaxExchanges, INT64_MAX) = Some (bk, be)"
    using scan_safe [OF less.prems(1)] by (metis surj_pair)
  show ?case
  proof (cases "length acc < 100 \<and> bk \<noteq> 5")
    case False
    then show ?thesis using less.prems sc by (auto simp: merge_loop.simps [of cs acc])
  next
    case True
    let ?c = "cs ! bk"
    have k: "bk < length cs" "\<not> cu_exhausted ?c"
      using scan_best_cases [OF sc] True by auto
    then have c: "safe_cursor n ?c" using less.prems(1) by (simp add: list_all_length)
    then have i: "cu_level_idx ?c < ls_count (cu_levels ?c)" "wf_side (cu_levels ?c)" "es_exchange_id (cu_state ?c) < n"
      using k(2) by (auto simp: safe_cursor_def)
    note rd = wf_side_reads [OF i(2,1)]
    obtain c' where c': "seek_next_valid (?c\<lparr>cu_level_idx := cu_level_idx ?c + 1\<rparr>) = Some c'" "safe_cursor n c'"
      using seek_safe [of "?c\<lparr>cu_level_idx := cu_level_idx ?c + 1\<rparr>" n] i by auto
    have dec: "(\<Sum>c\<leftarrow>cs[bk := c']. cursor_left c) < (\<Sum>c\<leftarrow>cs. cursor_left c)"
      using merge_decreases [OF sc _ _ _ c'(1)] k rd(1) True by simp
    have "list_all (safe_cursor n) (cs[bk := c'])" using less.prems(1) c'(2) by (rule list_all_update)
    note IH = less.hyps [OF dec this]
    show ?thesis using True sc k(1) rd c'(1) i(3) less.prems(3,4) IH [of acc]
        IH [of "acc @ [\<lparr>effective_ticks = be, available_lots = canonical_lots ?c (adj_lots ?c (qty_lots (cu_levels ?c) ! cu_level_idx ?c)),
          raw_price_ticks = price_ticks (cu_levels ?c) ! cu_level_idx ?c, cs_exchange_id = es_exchange_id (cu_state ?c),
          cs_level_idx = cu_level_idx ?c mod 256\<rparr>]"]
      by (subst merge_loop.simps) (simp add: Let_def)
  qed
qed

lemma cursors_safe:
  assumes "\<forall>ex\<in>set exs. ex < length (ctx_states ctx) \<and> state_shape eng n (ctx_states ctx ! ex)"
  shows "\<exists>cs. build_cursors expf eng ctx r exs = Some cs \<and> list_all (safe_cursor n) cs \<and> length cs \<le> length exs"
  using assms
proof (induction exs)
  case (Cons ex exs)
  let ?st = "ctx_states ctx ! ex"
  obtain cs where cs: "build_cursors expf eng ctx r exs = Some cs" "list_all (safe_cursor n) cs" "length cs \<le> length exs"
    using Cons by auto
  have sh: "state_shape eng n ?st" "nth_opt (ctx_states ctx) ex = Some ?st" using Cons.prems by auto
  have wf: "wf_side (taken_side ctx ?st)" using sh(1) by (simp add: state_shape_def taken_side_def book_side_def)
  have "\<exists>c. make_cursor expf eng ctx r ?st = Some c"
    using sh(1) wf wf_side_reads(1) [OF wf, of 0]
    by (auto simp: make_cursor_def fee_taker_def state_shape_def taken_side_def Let_def)
  then obtain c where c: "make_cursor expf eng ctx r ?st = Some c" by blast
  note f = make_cursor_fields [OF c]
  have id: "es_exchange_id (cu_state c) < n" using sh(1) f(5) by (simp add: state_shape_def)
  obtain c' where c': "seek_next_valid c = Some c'" "safe_cursor n c'"
    using seek_safe [of c n] wf f id by auto
  show ?case using cs sh(2) c c' by auto
qed simp

lemma resolve_Some:
  assumes "ctx_states ctx \<noteq> []"
  shows "\<exists>r. resolve_reference_lot_size ctx = Some r"
  using assms by (cases "ctx_reference_lot_size ctx > 0") (auto simp: resolve_reference_lot_size_def nth_opt_def)

lemma greedy_safe:
  assumes "list_all (\<lambda>s. cs_exchange_id s < length (ctx_states ctx)) slices" and "length (fs_out fs) + length slices \<le> 100"
    and "list_all (\<lambda>co. co_exchange_id co < length (ctx_states ctx)) (fs_out fs)"
  shows "\<exists>fs'. greedy_loop ctx r slices fs = Some fs' \<and> length (fs_out fs') \<le> 100 \<and>
    list_all (\<lambda>co. co_exchange_id co < length (ctx_states ctx)) (fs_out fs')"
  using assms
proof (induction slices arbitrary: fs)
  case (Cons s slices)
  let ?f = "if fs_remaining_lots fs < available_lots s then fs_remaining_lots fs else available_lots s"
  let ?fs = "take_slice ctx r (ctx_states ctx ! cs_exchange_id s) s ?f fs"
  have o: "\<exists>co. fs_out ?fs = fs_out fs @ [co] \<and> co_exchange_id co = cs_exchange_id s"
    by (simp add: take_slice_def Let_def)
  have "\<exists>fs'. greedy_loop ctx r slices ?fs = Some fs' \<and> length (fs_out fs') \<le> 100 \<and>
    list_all (\<lambda>co. co_exchange_id co < length (ctx_states ctx)) (fs_out fs')"
    using Cons.prems o by (intro Cons.IH) auto
  then show ?case using Cons.IH [of fs] Cons.prems by (auto simp: Let_def buf_full_def)
qed simp

lemma router_returns:
  assumes "router_shape eng (ctx_states ctx) (ctx_active_exchanges ctx)" and "0 < ctx_target_lots ctx"
  shows "\<exists>res orders. calculate_optimal_split expf eng ctx [] = Some (res, orders) \<and>
    list_all (\<lambda>co. co_exchange_id co < length (ctx_states ctx)) orders"
proof -
  let ?n = "length (ctx_states ctx)" and ?exs = "[0..<ctx_active_exchanges ctx]"
  have sh: "ctx_states ctx \<noteq> []" "ctx_active_exchanges ctx \<le> 5" "ctx_active_exchanges ctx \<le> ?n"
    using assms(1) by (auto simp: router_shape_def)
  obtain r where r: "resolve_reference_lot_size ctx = Some r"
    using resolve_Some [OF sh(1)] by blast
  have "\<forall>ex\<in>set ?exs. ex < ?n \<and> state_shape eng ?n (ctx_states ctx ! ex)"
    using assms(1) sh(3) by (fastforce simp: router_shape_def list_all_iff set_conv_nth)
  then obtain cs where cs: "build_cursors expf eng ctx r ?exs = Some cs" "list_all (safe_cursor ?n) cs" "length cs \<le> 5"
    using cursors_safe [of ?exs ctx eng ?n expf r] sh(2) by auto
  obtain slices where sl: "merge_loop cs [] = Some slices" "length slices \<le> 100" "list_all (\<lambda>s. cs_exchange_id s < ?n) slices"
    using merge_safe [OF cs(2), of "[]"] cs(3) by auto
  define S where "S = (if cs = [] then [] else slices)"
  have b: "build_cost_slices expf eng ctx = Some S" using r cs(1) sl(1) by (simp add: build_cost_slices_def S_def)
  have S: "length S \<le> 100" "list_all (\<lambda>s. cs_exchange_id s < ?n) S" using sl by (auto simp: S_def)
  let ?fs = "\<lparr>fs_remaining_lots = ctx_target_lots ctx, fs_best_raw_ticks = 0, fs_worst_raw_ticks = 0, fs_adverse = 0,
    fs_result = empty_result, fs_out = []\<rparr>"
  obtain fs' where "greedy_loop ctx r S ?fs = Some fs'" "list_all (\<lambda>co. co_exchange_id co < ?n) (fs_out fs')"
    using greedy_safe [OF S(2), of ?fs r] S(1) by auto
  then show ?thesis using b r sh(2) assms(2)
    by (cases "S = []") (simp_all add: calculate_optimal_split_def greedy_fill_def Let_def)
qed

lemma maker_returns:
  assumes "router_shape eng (ctx_states ctx) (ctx_active_exchanges ctx)" and "0 < ctx_target_lots ctx"
  shows "\<exists>res orders. calculate_maker_placement eng ctx [] = Some (res, orders) \<and>
    list_all (\<lambda>co. co_exchange_id co < length (ctx_states ctx)) orders"
proof -
  have sh: "ctx_states ctx \<noteq> []" "list_all (state_shape eng (length (ctx_states ctx))) (active_states ctx)"
    using assms(1) by (auto simp: router_shape_def active_states_def)
  obtain r where r: "resolve_reference_lot_size ctx = Some r"
    using resolve_Some [OF sh(1)] by blast
  have ok: "maker_ok eng ctx" using assms sh(2) by (auto simp: maker_ok_def router_shape_def state_shape_def list_all_iff)
  have Q: "es_exchange_id st < length (ctx_states ctx)" if "(st, raw, eff) \<in> set (maker_quotes eng ctx (active_states ctx))" for st raw eff
    using that sh(2) by (auto simp: maker_quotes_def list_all_iff state_shape_def split: option.splits)
  obtain res orders where p: "calculate_maker_placement eng ctx [] = Some (res, orders)"
    and q: "let quotes = maker_quotes eng ctx (active_states ctx)
     in if quotes = [] then orders = [] \<and> \<not> sr_success res
        else sr_success res \<and> (\<exists>(st, raw, eff)\<in>set quotes. (\<forall>q\<in>set quotes. eff \<le> quote_eff q) \<and>
          orders = [\<lparr>co_price = from_ticks raw (nb_tick_size (es_book st)), co_qty = from_lots (ctx_target_lots ctx) r,
            co_effective_cost = from_ticks eff (nb_tick_size (es_book st)), co_exchange_id = es_exchange_id st,
            co_level_idx = 0, co_type = MAKER, co_dir = ctx_dir ctx\<rparr>])"
    using maker_run [OF ok r] by blast
  have "list_all (\<lambda>co. co_exchange_id co < length (ctx_states ctx)) orders"
    using q Q by (auto simp: Let_def split: if_splits)
  then show ?thesis using p by blast
qed

end
