(* ===== verification/Oms_Types.thy ===== *)
theory Oms_Types
  imports Sor_Types
begin

text \<open>
  \<^verbatim>\<open>src/oms/oms_types.hpp\<close> and the wire record of \<^verbatim>\<open>src/oms/spsc_queue.hpp\<close>: limits, the
  instrument table, order states, execution reports, reject reasons and the records that travel
  through the queues.
\<close>

definition kMaxParentOrders :: nat where "kMaxParentOrders = 4096"
definition kMaxTotalChildren :: nat where "kMaxTotalChildren = kMaxParentOrders * 8"
definition kMaxInstruments :: nat where "kMaxInstruments = 64"
definition kInvalidOrderId :: nat where "kInvalidOrderId = 4294967295"
definition kInvalidChildId :: nat where "kInvalidChildId = 4294967295"

lemma kMaxParentOrders_eq [simp]: "kMaxParentOrders = 4096"
  by (simp add: kMaxParentOrders_def)

lemma kMaxTotalChildren_eq [simp]: "kMaxTotalChildren = 32768"
  by (simp add: kMaxTotalChildren_def)

lemma kMaxInstruments_eq [simp]: "kMaxInstruments = 64"
  by (simp add: kMaxInstruments_def)

record InstrumentTable =
  inst_lot_size :: "nat \<Rightarrow> double"

definition kFallbackLotSize :: double where "kFallbackLotSize = lit (1/1000)"

definition lot_size :: "InstrumentTable \<Rightarrow> nat \<Rightarrow> double" where
  "lot_size t i = (if i < kMaxInstruments \<and> inst_lot_size t i > 0 then inst_lot_size t i
     else kFallbackLotSize)"

datatype OrderState = OS_NEW | PENDING_NEW | PARTIALLY_FILLED | FILLED | PENDING_CANCEL
  | CANCELED | REJECTED

datatype ExecType = ET_NEW | ET_PARTIAL | ET_FILL | ET_CANCELED | ET_REJECTED | ET_REPLACED

datatype RejectReason = RISK_FAT_FINGER | RISK_POSITION_LIMIT | RISK_NOTIONAL | RISK_MARGIN
  | NOTIONAL_GATE_BLOCK | PARENT_POOL_EXHAUSTED | CHILD_POOL_EXHAUSTED | NO_LIQUIDITY
  | REDUCE_ONLY_VIOLATION

record StrategyOrderSignal =
  sig_limit_price_usd :: double
  sig_qty_lots :: qty_t
  sig_instr_id :: nat
  sig_dir :: OrderDir
  sig_strategy_id :: nat
  sig_order_type :: OrderType
  sig_reduce_only :: bool
  sig_signal_ns :: u64
  sig_short_vol_factor :: double
  sig_book_imbalance :: double

text \<open>\<^verbatim>\<open>StrategyOrderSignal{}\<close>: zero, except that \<^verbatim>\<open>order_type\<close> defaults to TAKER.\<close>

definition empty_signal :: StrategyOrderSignal where
  "empty_signal = \<lparr>sig_limit_price_usd = 0, sig_qty_lots = 0, sig_instr_id = 0, sig_dir = BUY,
     sig_strategy_id = 0, sig_order_type = TAKER, sig_reduce_only = False, sig_signal_ns = 0,
     sig_short_vol_factor = 0, sig_book_imbalance = 0\<rparr>"

record ExecutionReport =
  rep_child_id :: nat
  rep_fill_price_ticks :: price_t
  rep_fill_qty_lots :: qty_t
  rep_exec_type :: ExecType
  rep_exchange_id :: nat
  rep_exchange_ns :: u64
  rep_recv_ns :: u64

record OrderReject =
  rej_qty_lots :: qty_t
  rej_instr_id :: nat
  rej_dir :: OrderDir
  rej_strategy_id :: nat
  rej_reason :: RejectReason
  rej_reject_ns :: u64

record OutboundOrder =
  out_child_id :: nat
  out_price :: price_t
  out_qty_lots :: qty_t
  out_dir :: OrderDir
  out_order_type :: OrderType
  out_exchange_id :: nat
  out_instr_id :: nat

lemma zero_less_double [simp]: "(0::double) < Fin x \<longleftrightarrow> 0 < x"
  by (simp add: zero_double_def)

lemma lot_size_pos: "0 < lot_size t i"
  by (simp add: lot_size_def kFallbackLotSize_def lit_thousandth)

end
