(* ===== verification/Twap_Scheduler.thy ===== *)
theory Twap_Scheduler
  imports Oms_Types
begin

text \<open>
  \<^verbatim>\<open>src/algos/twap_scheduler.hpp\<close>: slices a quantity into jittered clips on a schedule.

  The random engine is the parameter \<open>draw\<close>: \<open>draw k a b\<close> is the \<open>k\<close>-th number drawn from the
  uniform distribution on \<open>[a, b)\<close>; the scheduler counts its draws.  \<^verbatim>\<open>std::clamp\<close> has the
  precondition that its bounds are ordered; a violation is a fault.

  The lemmas hold for every sequence of draws: no fault, every slice has at least one lot, the
  slices add up to the total exactly, and driving the scheduler at its own deadlines finishes it
  after the configured number of slices.
\<close>

record TwapConfig =
  tc_instr_id :: nat
  tc_dir :: OrderDir
  tc_strategy_id :: nat
  tc_total_qty_lots :: qty_t
  tc_duration_ns :: u64
  tc_num_slices :: nat
  tc_limit_price_usd :: double
  tc_reduce_only :: bool
  tc_order_type :: OrderType
  tc_size_jitter_frac :: double
  tc_interval_jitter_frac :: double

definition clamp_slice_count :: "nat \<Rightarrow> qty_t \<Rightarrow> nat" where
  "clamp_slice_count requested lots =
     (if requested = 0 \<or> lots \<le> 0 then 1 else nat (min (int requested) lots))"

record TwapScheduler =
  ts_cfg :: TwapConfig
  ts_draws :: nat
  ts_remaining_lots :: qty_t
  ts_total_slices :: nat
  ts_slices_remaining :: nat
  ts_next_deadline_ns :: u64

type_synonym rng = "nat \<Rightarrow> double \<Rightarrow> double \<Rightarrow> double"

definition twap_init :: "TwapConfig \<Rightarrow> TwapScheduler" where
  "twap_init cfg = (let n = clamp_slice_count (tc_num_slices cfg) (tc_total_qty_lots cfg)
     in \<lparr>ts_cfg = cfg, ts_draws = 0, ts_remaining_lots = tc_total_qty_lots cfg, ts_total_slices = n,
         ts_slices_remaining = n, ts_next_deadline_ns = 0\<rparr>)"

definition twap_start :: "u64 \<Rightarrow> TwapScheduler \<Rightarrow> TwapScheduler" where
  "twap_start start_ns s = s\<lparr>ts_next_deadline_ns := start_ns\<rparr>"

definition twap_done :: "TwapScheduler \<Rightarrow> bool" where
  "twap_done s \<longleftrightarrow> ts_remaining_lots s \<le> 0 \<or> ts_slices_remaining s = 0"

definition jittered :: "rng \<Rightarrow> double \<Rightarrow> TwapScheduler \<Rightarrow> double \<times> TwapScheduler" where
  "jittered draw jf s =
     (if jf \<le> 0 then (1, s)
      else (draw (ts_draws s) (1 - jf) (1 + jf), s\<lparr>ts_draws := ts_draws s + 1\<rparr>))"

definition std_clamp :: "int \<Rightarrow> int \<Rightarrow> int \<Rightarrow> int option" where
  "std_clamp v lo hi = (if hi < lo then None else Some (if v < lo then lo else if hi < v then hi else v))"

text \<open>The quantity of the next slice.\<close>

definition slice_size :: "rng \<Rightarrow> TwapScheduler \<Rightarrow> (qty_t \<times> TwapScheduler) option" where
  "slice_size draw s =
     (if ts_slices_remaining s = 1 then Some (ts_remaining_lots s, s)
      else do {
        let nominal = of_i64 (tc_total_qty_lots (ts_cfg s)) / of_i64 (int (ts_total_slices s));
        let (j, s) = jittered draw (tc_size_jitter_frac (ts_cfg s)) s;
        let min_reserve = int (ts_slices_remaining s) - 1;
        q \<leftarrow> std_clamp (llround (nominal * j)) 1 (ts_remaining_lots s - min_reserve);
        Some (q, s) })"

definition make_slice_signal :: "rng \<Rightarrow> TwapScheduler \<Rightarrow> (StrategyOrderSignal \<times> TwapScheduler) option" where
  "make_slice_signal draw s = do {
     (q, s) \<leftarrow> slice_size draw s;
     let s = s\<lparr>ts_remaining_lots := ts_remaining_lots s - q, ts_slices_remaining := ts_slices_remaining s - 1\<rparr>;
     let c = ts_cfg s;
     Some (empty_signal\<lparr>sig_instr_id := tc_instr_id c, sig_dir := tc_dir c, sig_strategy_id := tc_strategy_id c,
       sig_qty_lots := q, sig_limit_price_usd := tc_limit_price_usd c, sig_reduce_only := tc_reduce_only c,
       sig_order_type := tc_order_type c, sig_signal_ns := 0, sig_short_vol_factor := 0, sig_book_imbalance := 0\<rparr>, s) }"

definition schedule_next :: "rng \<Rightarrow> u64 \<Rightarrow> TwapScheduler \<Rightarrow> TwapScheduler" where
  "schedule_next draw now s =
     (if twap_done s then s\<lparr>ts_next_deadline_ns := - 1\<rparr>
      else let nominal = of_i64 (int (unat (tc_duration_ns (ts_cfg s)))) / of_i64 (int (ts_total_slices s));
               (j, s) = jittered draw (tc_interval_jitter_frac (ts_cfg s)) s
        in s\<lparr>ts_next_deadline_ns := now + to_u64 (nominal * j)\<rparr>)"

definition twap_tick :: "rng \<Rightarrow> u64 \<Rightarrow> TwapScheduler \<Rightarrow> (StrategyOrderSignal option \<times> TwapScheduler) option" where
  "twap_tick draw now s =
     (if twap_done s \<or> now < ts_next_deadline_ns s then Some (None, s)
      else do {
        (sig, s) \<leftarrow> make_slice_signal draw s;
        Some (Some sig, schedule_next draw now s) })"

subsection \<open>Invariant\<close>

text \<open>Every slice still to come can have its lot.\<close>

definition twap_inv :: "TwapScheduler \<Rightarrow> bool" where
  "twap_inv s \<longleftrightarrow> int (ts_slices_remaining s) \<le> ts_remaining_lots s \<and>
     (ts_slices_remaining s = 0 \<longrightarrow> ts_remaining_lots s = 0)"

lemma jittered_frame:
  assumes "jittered draw jf s = (j, s')"
  shows "ts_cfg s' = ts_cfg s \<and> ts_remaining_lots s' = ts_remaining_lots s \<and> ts_total_slices s' = ts_total_slices s \<and>
    ts_slices_remaining s' = ts_slices_remaining s"
  using assms by (auto simp: jittered_def split: if_splits)

lemma slice_size_ok:
  assumes "twap_inv s" and "\<not> twap_done s"
  shows "\<exists>q s'. slice_size draw s = Some (q, s') \<and> 1 \<le> q \<and>
    ts_cfg s' = ts_cfg s \<and> ts_remaining_lots s' = ts_remaining_lots s \<and> ts_total_slices s' = ts_total_slices s \<and>
    ts_slices_remaining s' = ts_slices_remaining s \<and>
    q \<le> ts_remaining_lots s - (int (ts_slices_remaining s) - 1) \<and>
    (ts_slices_remaining s = 1 \<longrightarrow> q = ts_remaining_lots s)"
proof (cases "ts_slices_remaining s = 1")
  case True
  then show ?thesis using assms by (auto simp: slice_size_def twap_inv_def twap_done_def)
next
  case False
  obtain j s' where j: "jittered draw (tc_size_jitter_frac (ts_cfg s)) s = (j, s')" by force
  note f = jittered_frame [OF j]
  have "1 \<le> ts_remaining_lots s - (int (ts_slices_remaining s) - 1)"
    using assms False by (auto simp: twap_inv_def twap_done_def)
  then show ?thesis using False j f by (auto simp: slice_size_def std_clamp_def Let_def)
qed

lemma make_slice_ok:
  assumes "twap_inv s" and "\<not> twap_done s"
  shows "\<exists>sig s'. make_slice_signal draw s = Some (sig, s') \<and> twap_inv s' \<and> ts_cfg s' = ts_cfg s \<and>
    ts_total_slices s' = ts_total_slices s \<and> 1 \<le> sig_qty_lots sig \<and>
    ts_remaining_lots s' + sig_qty_lots sig = ts_remaining_lots s \<and>
    Suc (ts_slices_remaining s') = ts_slices_remaining s"
proof -
  obtain q s' where q: "slice_size draw s = Some (q, s')" "1 \<le> q" "ts_cfg s' = ts_cfg s"
    "ts_remaining_lots s' = ts_remaining_lots s" "ts_total_slices s' = ts_total_slices s"
    "ts_slices_remaining s' = ts_slices_remaining s"
    "q \<le> ts_remaining_lots s - (int (ts_slices_remaining s) - 1)"
    "ts_slices_remaining s = 1 \<longrightarrow> q = ts_remaining_lots s"
    using slice_size_ok [OF assms] by blast
  have "0 < ts_slices_remaining s" using assms(2) by (simp add: twap_done_def)
  then show ?thesis using q by (auto simp: make_slice_signal_def twap_inv_def Let_def)
qed

lemma schedule_next_frame:
  "ts_cfg (schedule_next draw now s) = ts_cfg s \<and> ts_remaining_lots (schedule_next draw now s) = ts_remaining_lots s \<and>
   ts_total_slices (schedule_next draw now s) = ts_total_slices s \<and>
   ts_slices_remaining (schedule_next draw now s) = ts_slices_remaining s"
proof -
  obtain j s' where j: "jittered draw (tc_interval_jitter_frac (ts_cfg s)) s = (j, s')" by force
  show ?thesis using jittered_frame [OF j] j by (simp add: schedule_next_def Let_def)
qed

text \<open>One call of \<^verbatim>\<open>tick\<close>: either nothing happens, because it is too early or all is done, or one slice
  leaves.\<close>

lemma twap_tick_ok:
  assumes "twap_inv s"
  shows "\<exists>r s'. twap_tick draw now s = Some (r, s') \<and> twap_inv s' \<and>
    (case r of None \<Rightarrow> s' = s \<and> (twap_done s \<or> now < ts_next_deadline_ns s)
     | Some sig \<Rightarrow> \<not> twap_done s \<and> 1 \<le> sig_qty_lots sig \<and> ts_remaining_lots s' + sig_qty_lots sig = ts_remaining_lots s \<and>
         Suc (ts_slices_remaining s') = ts_slices_remaining s)"
proof (cases "twap_done s \<or> now < ts_next_deadline_ns s")
  case True
  then show ?thesis using assms by (simp add: twap_tick_def)
next
  case False
  then obtain sig s' where m: "make_slice_signal draw s = Some (sig, s')" "twap_inv s'" "1 \<le> sig_qty_lots sig"
    "ts_remaining_lots s' + sig_qty_lots sig = ts_remaining_lots s" "Suc (ts_slices_remaining s') = ts_slices_remaining s"
    using make_slice_ok [OF assms] by blast
  then show ?thesis using False schedule_next_frame [of draw now s']
    by (simp add: twap_tick_def twap_inv_def)
qed

lemma twap_init_inv:
  assumes "0 < tc_total_qty_lots cfg"
  shows "twap_inv (twap_start t (twap_init cfg))" and "0 < ts_slices_remaining (twap_init cfg)"
    and "ts_slices_remaining (twap_init cfg) = clamp_slice_count (tc_num_slices cfg) (tc_total_qty_lots cfg)"
    and "ts_remaining_lots (twap_init cfg) = tc_total_qty_lots cfg"
  using assms by (auto simp: twap_inv_def twap_start_def twap_init_def clamp_slice_count_def Let_def min_def)

lemma twap_start_frame [simp]:
  "ts_remaining_lots (twap_start t s) = ts_remaining_lots s" "ts_slices_remaining (twap_start t s) = ts_slices_remaining s"
  by (simp_all add: twap_start_def)

subsection \<open>Runs\<close>

fun twap_run :: "rng \<Rightarrow> u64 list \<Rightarrow> TwapScheduler \<Rightarrow> (StrategyOrderSignal list \<times> TwapScheduler) option" where
  "twap_run draw [] s = Some ([], s)"
| "twap_run draw (now # nows) s = do {
     (r, s) \<leftarrow> twap_tick draw now s;
     (sigs, s) \<leftarrow> twap_run draw nows s;
     Some ((case r of None \<Rightarrow> sigs | Some sig \<Rightarrow> sig # sigs), s) }"

text \<open>Calling \<^verbatim>\<open>tick\<close> \<open>n\<close> times, each time at the deadline it asked for.\<close>

fun twap_drive :: "rng \<Rightarrow> nat \<Rightarrow> TwapScheduler \<Rightarrow> (StrategyOrderSignal list \<times> TwapScheduler) option" where
  "twap_drive draw 0 s = Some ([], s)"
| "twap_drive draw (Suc n) s = do {
     (r, s) \<leftarrow> twap_tick draw (ts_next_deadline_ns s) s;
     (sigs, s) \<leftarrow> twap_drive draw n s;
     Some ((case r of None \<Rightarrow> sigs | Some sig \<Rightarrow> sig # sigs), s) }"

lemma twap_run_ok:
  assumes "twap_inv s"
  shows "\<exists>sigs s'. twap_run draw nows s = Some (sigs, s') \<and> twap_inv s' \<and>
    list_all (\<lambda>sig. 1 \<le> sig_qty_lots sig) sigs \<and>
    (\<Sum>sig\<leftarrow>sigs. sig_qty_lots sig) + ts_remaining_lots s' = ts_remaining_lots s \<and>
    length sigs + ts_slices_remaining s' = ts_slices_remaining s"
  using assms
proof (induction nows arbitrary: s)
  case (Cons now nows)
  obtain r s1 where t: "twap_tick draw now s = Some (r, s1)" "twap_inv s1"
    "case r of None \<Rightarrow> s1 = s \<and> (twap_done s \<or> now < ts_next_deadline_ns s)
     | Some sig \<Rightarrow> \<not> twap_done s \<and> 1 \<le> sig_qty_lots sig \<and> ts_remaining_lots s1 + sig_qty_lots sig = ts_remaining_lots s \<and>
         Suc (ts_slices_remaining s1) = ts_slices_remaining s"
    using twap_tick_ok [OF Cons.prems] by blast
  obtain sigs s2 where "twap_run draw nows s1 = Some (sigs, s2)" "twap_inv s2"
    "list_all (\<lambda>sig. 1 \<le> sig_qty_lots sig) sigs"
    "(\<Sum>sig\<leftarrow>sigs. sig_qty_lots sig) + ts_remaining_lots s2 = ts_remaining_lots s1"
    "length sigs + ts_slices_remaining s2 = ts_slices_remaining s1"
    using Cons.IH [OF t(2)] by blast
  then show ?case using t by (cases r) auto
qed simp

lemma twap_drive_ok:
  assumes "twap_inv s" and "n \<le> ts_slices_remaining s"
  shows "\<exists>sigs s'. twap_drive draw n s = Some (sigs, s') \<and> twap_inv s' \<and> length sigs = n \<and>
    ts_slices_remaining s' = ts_slices_remaining s - n \<and>
    (\<Sum>sig\<leftarrow>sigs. sig_qty_lots sig) + ts_remaining_lots s' = ts_remaining_lots s"
  using assms
proof (induction n arbitrary: s)
  case (Suc n)
  obtain r s1 where t: "twap_tick draw (ts_next_deadline_ns s) s = Some (r, s1)" "twap_inv s1"
    "case r of None \<Rightarrow> s1 = s \<and> (twap_done s \<or> ts_next_deadline_ns s < ts_next_deadline_ns s)
     | Some sig \<Rightarrow> \<not> twap_done s \<and> 1 \<le> sig_qty_lots sig \<and> ts_remaining_lots s1 + sig_qty_lots sig = ts_remaining_lots s \<and>
         Suc (ts_slices_remaining s1) = ts_slices_remaining s"
    using twap_tick_ok [OF Suc.prems(1)] by blast
  have "\<not> twap_done s" using Suc.prems by (auto simp: twap_done_def twap_inv_def)
  then obtain sig where r: "r = Some sig" "ts_remaining_lots s1 + sig_qty_lots sig = ts_remaining_lots s"
    "Suc (ts_slices_remaining s1) = ts_slices_remaining s"
    using t(3) by (auto split: option.splits)
  obtain sigs s2 where "twap_drive draw n s1 = Some (sigs, s2)" "twap_inv s2" "length sigs = n"
    "ts_slices_remaining s2 = ts_slices_remaining s1 - n"
    "(\<Sum>sig\<leftarrow>sigs. sig_qty_lots sig) + ts_remaining_lots s2 = ts_remaining_lots s1"
    using Suc.IH [OF t(2)] Suc.prems(2) r(3) by auto
  then show ?case using t(1) r by auto
qed simp

subsection \<open>Properties\<close>

text \<open>C20: Whatever the random draws and whenever \<^verbatim>\<open>tick\<close> is called, the scheduler never faults, every
  slice it emits has at least one lot, and the lots emitted plus those remaining are the configured
  total; never more slices leave than were configured, and once it reports done the slices add up
  to the total exactly.\<close>

theorem twap_slices_sum_to_total:
  assumes "0 < tc_total_qty_lots cfg"
  shows "\<exists>sigs s. twap_run draw nows (twap_start t (twap_init cfg)) = Some (sigs, s) \<and>
    list_all (\<lambda>sig. 1 \<le> sig_qty_lots sig) sigs \<and>
    (\<Sum>sig\<leftarrow>sigs. sig_qty_lots sig) + ts_remaining_lots s = tc_total_qty_lots cfg \<and>
    length sigs + ts_slices_remaining s = clamp_slice_count (tc_num_slices cfg) (tc_total_qty_lots cfg) \<and>
    (twap_done s \<longrightarrow> (\<Sum>sig\<leftarrow>sigs. sig_qty_lots sig) = tc_total_qty_lots cfg)"
proof -
  obtain sigs s where r: "twap_run draw nows (twap_start t (twap_init cfg)) = Some (sigs, s)" "twap_inv s"
    "list_all (\<lambda>sig. 1 \<le> sig_qty_lots sig) sigs"
    "(\<Sum>sig\<leftarrow>sigs. sig_qty_lots sig) + ts_remaining_lots s = ts_remaining_lots (twap_start t (twap_init cfg))"
    "length sigs + ts_slices_remaining s = ts_slices_remaining (twap_start t (twap_init cfg))"
    using twap_run_ok [OF twap_init_inv(1) [OF assms]] by blast
  have "ts_remaining_lots s = 0" if "twap_done s" using that r(2) by (auto simp: twap_done_def twap_inv_def)
  then show ?thesis using r twap_init_inv [OF assms] by auto
qed

text \<open>C21: The scheduler finishes: ticked each time at the deadline it announces, it emits exactly the
  configured number of slices (capped by the number of lots) and is then done, with the whole
  quantity handed out.\<close>

theorem twap_finishes:
  assumes "0 < tc_total_qty_lots cfg"
  shows "\<exists>sigs s. twap_drive draw (clamp_slice_count (tc_num_slices cfg) (tc_total_qty_lots cfg))
      (twap_start t (twap_init cfg)) = Some (sigs, s) \<and> twap_done s \<and>
    length sigs = clamp_slice_count (tc_num_slices cfg) (tc_total_qty_lots cfg) \<and>
    (\<Sum>sig\<leftarrow>sigs. sig_qty_lots sig) = tc_total_qty_lots cfg"
proof -
  obtain sigs s where r: "twap_drive draw (clamp_slice_count (tc_num_slices cfg) (tc_total_qty_lots cfg))
      (twap_start t (twap_init cfg)) = Some (sigs, s)" "twap_inv s"
    "length sigs = clamp_slice_count (tc_num_slices cfg) (tc_total_qty_lots cfg)" "ts_slices_remaining s = 0"
    "(\<Sum>sig\<leftarrow>sigs. sig_qty_lots sig) + ts_remaining_lots s = tc_total_qty_lots cfg"
    using twap_drive_ok [OF twap_init_inv(1) [OF assms], where t1 = t and draw = draw and
        n = "clamp_slice_count (tc_num_slices cfg) (tc_total_qty_lots cfg)"]
      twap_init_inv [OF assms] by auto
  then show ?thesis by (simp add: twap_done_def twap_inv_def)
qed

definition demo_twap :: TwapConfig where
  "demo_twap = \<lparr>tc_instr_id = 0, tc_dir = BUY, tc_strategy_id = 1, tc_total_qty_lots = 10, tc_duration_ns = 6000,
     tc_num_slices = 4, tc_limit_price_usd = 0, tc_reduce_only = False, tc_order_type = TAKER,
     tc_size_jitter_frac = lit (3/10), tc_interval_jitter_frac = lit (3/10)\<rparr>"

theorem twap_slices_sum_to_total_witness:
  "\<exists>sigs s. twap_run (\<lambda>k a b. a) [0, 500, 2500] (twap_start 0 (twap_init demo_twap)) = Some (sigs, s) \<and>
     (\<Sum>sig\<leftarrow>sigs. sig_qty_lots sig) + ts_remaining_lots s = 10"
  using twap_slices_sum_to_total [of demo_twap "\<lambda>k a b. a" "[0, 500, 2500]" 0] by (auto simp: demo_twap_def)

theorem twap_finishes_witness:
  "\<exists>sigs s. twap_drive (\<lambda>k a b. a) 4 (twap_start 0 (twap_init demo_twap)) = Some (sigs, s) \<and> length sigs = 4 \<and> twap_done s"
  using twap_finishes [of demo_twap "\<lambda>k a b. a" 0] by (auto simp: demo_twap_def clamp_slice_count_def)

end
