(* ===== verification/Spsc_Queue.thy ===== *)
theory Spsc_Queue
  imports Prelude
begin

text \<open>
  \<^verbatim>\<open>src/oms/spsc_queue.hpp\<close>: the single-producer single-consumer ring buffer.

  The template parameter \<^verbatim>\<open>N\<close> is the first argument \<open>N\<close> of the operations; the header's
  \<^verbatim>\<open>static_assert\<close> makes it a power of two, \<open>2 ^ k\<close> with \<open>k < 32\<close> below.  The array is a
  function from ring indices.  \<open>spsc_contents\<close> reads the ring as a list, oldest element first.

  First the ring is shown to implement the contract \<open>bounded_fifo\<close>: a FIFO of capacity \<open>N - 1\<close>
  (one slot is always free).  Then \<^verbatim>\<open>push\<close> and \<^verbatim>\<open>pop\<close> are split into their loads and stores and
  interleaved; in every reachable state of that system no array cell is written while it is
  read, and the values received are a prefix of the values sent.
\<close>

record 'a SpscQueue =
  q_buf :: "u32 \<Rightarrow> 'a"
  q_head :: u32
  q_tail :: u32

definition kMask :: "u32 \<Rightarrow> u32" where
  "kMask N = N - 1"

definition spsc_init :: "'a \<Rightarrow> 'a SpscQueue" where
  "spsc_init d = \<lparr>q_buf = (\<lambda>_. d), q_head = 0, q_tail = 0\<rparr>"

definition spsc_push :: "u32 \<Rightarrow> 'a SpscQueue \<Rightarrow> 'a \<Rightarrow> bool \<times> 'a SpscQueue" where
  "spsc_push N q v =
     (let h = q_head q; next_h = (h + 1) AND kMask N
      in if next_h = q_tail q then (False, q)
         else (True, q\<lparr>q_buf := (q_buf q)(h := v), q_head := next_h\<rparr>))"

definition spsc_pop :: "u32 \<Rightarrow> 'a SpscQueue \<Rightarrow> 'a option \<times> 'a SpscQueue" where
  "spsc_pop N q =
     (let t = q_tail q
      in if t = q_head q then (None, q)
         else (Some (q_buf q t), q\<lparr>q_tail := (t + 1) AND kMask N\<rparr>))"

definition spsc_empty :: "'a SpscQueue \<Rightarrow> bool" where
  "spsc_empty q = (q_tail q = q_head q)"

subsection \<open>The contract of a bounded FIFO\<close>

datatype 'a fifo_op = Push 'a | Pop

text \<open>A sequence of calls: what was accepted, what was handed out, and the final queue.\<close>

fun fifo_run :: "('q \<Rightarrow> 'a \<Rightarrow> bool \<times> 'q) \<Rightarrow> ('q \<Rightarrow> 'a option \<times> 'q) \<Rightarrow>
    'q \<Rightarrow> 'a fifo_op list \<Rightarrow> 'a list \<times> 'a list \<times> 'q" where
  "fifo_run psh pp q [] = ([], [], q)"
| "fifo_run psh pp q (Push v # ops) =
     (let (ok, q1) = psh q v; (acc, out, q2) = fifo_run psh pp q1 ops
      in (if ok then v # acc else acc, out, q2))"
| "fifo_run psh pp q (Pop # ops) =
     (let (r, q1) = pp q; (acc, out, q2) = fifo_run psh pp q1 ops
      in (acc, (case r of None \<Rightarrow> out | Some v \<Rightarrow> v # out), q2))"

locale bounded_fifo =
  fixes psh :: "'q \<Rightarrow> 'a \<Rightarrow> bool \<times> 'q"
    and pp :: "'q \<Rightarrow> 'a option \<times> 'q"
    and contents :: "'q \<Rightarrow> 'a list"
    and invar :: "'q \<Rightarrow> bool"
    and cap :: nat
  assumes push_ok: "invar q \<Longrightarrow> fst (psh q v) \<longleftrightarrow> length (contents q) < cap"
    and push_contents: "invar q \<Longrightarrow>
      contents (snd (psh q v)) = (if length (contents q) < cap then contents q @ [v] else contents q)"
    and pop_result: "invar q \<Longrightarrow>
      fst (pp q) = (case contents q of [] \<Rightarrow> None | x # _ \<Rightarrow> Some x)"
    and pop_contents: "invar q \<Longrightarrow> contents (snd (pp q)) = tl (contents q)"
    and invar_push: "invar q \<Longrightarrow> invar (snd (psh q v))"
    and invar_pop: "invar q \<Longrightarrow> invar (snd (pp q))"
    and bounded: "invar q \<Longrightarrow> length (contents q) \<le> cap"
begin

lemma run_invar: "invar q \<Longrightarrow> invar (snd (snd (fifo_run psh pp q ops)))"
proof (induction ops arbitrary: q)
  case (Cons a ops)
  then show ?case
    by (cases a) (auto simp: Let_def split: prod.splits dest: invar_push invar_pop; metis snd_conv invar_push invar_pop)+
qed simp

lemma run_fifo:
  assumes "invar q" and "fifo_run psh pp q ops = (acc, out, q')"
  shows "contents q @ acc = out @ contents q'"
  using assms
proof (induction ops arbitrary: q acc out)
  case (Cons a ops)
  show ?case
  proof (cases a)
    case (Push v)
    obtain ok q1 where 1: "psh q v = (ok, q1)" by force
    obtain acc1 out1 where 2: "fifo_run psh pp q1 ops = (acc1, out1, q')" and
      3: "acc = (if ok then v # acc1 else acc1)" "out = out1"
      using Cons.prems(2) Push 1 by (auto simp: Let_def split: prod.splits if_splits)
    have "invar q1" using invar_push [OF Cons.prems(1), of v] 1 by simp
    from Cons.IH [OF this 2] have "contents q1 @ acc1 = out @ contents q'" using 3 by simp
    moreover have "contents q1 = (if ok then contents q @ [v] else contents q)"
      using push_ok [OF Cons.prems(1), of v] push_contents [OF Cons.prems(1), of v] 1 by simp
    ultimately show ?thesis using 3 by (auto split: if_splits)
  next
    case Pop
    obtain r q1 where 1: "pp q = (r, q1)" by force
    obtain out1 where 2: "fifo_run psh pp q1 ops = (acc, out1, q')" and
      3: "out = (case r of None \<Rightarrow> out1 | Some v \<Rightarrow> v # out1)"
      using Cons.prems(2) Pop 1 by (auto simp: Let_def split: prod.splits)
    have "invar q1" using invar_pop [OF Cons.prems(1)] 1 by simp
    from Cons.IH [OF this 2] have "contents q1 @ acc = out1 @ contents q'" .
    moreover have "r = (case contents q of [] \<Rightarrow> None | x # _ \<Rightarrow> Some x)" "contents q1 = tl (contents q)"
      using pop_result [OF Cons.prems(1)] pop_contents [OF Cons.prems(1)] 1 by simp_all
    ultimately show ?thesis using 3 by (auto split: list.splits)
  qed
qed simp

end

subsection \<open>The ring as a list\<close>

definition spsc_size :: "u32 \<Rightarrow> 'a SpscQueue \<Rightarrow> nat" where
  "spsc_size N q = unat ((q_head q - q_tail q) AND kMask N)"

definition spsc_contents :: "u32 \<Rightarrow> 'a SpscQueue \<Rightarrow> 'a list" where
  "spsc_contents N q = map (\<lambda>i. q_buf q ((q_tail q + of_nat i) AND kMask N)) [0..<spsc_size N q]"

definition spsc_inv :: "u32 \<Rightarrow> 'a SpscQueue \<Rightarrow> bool" where
  "spsc_inv N q \<longleftrightarrow> q_head q AND kMask N = q_head q \<and> q_tail q AND kMask N = q_tail q"

text \<open>Ring indices as natural numbers modulo the size of the ring.\<close>

lemma ring_mod: "x < 2 * M \<Longrightarrow> x mod M = (if x < M then x else x - (M::nat))"
  by (cases "x < M") (simp_all add: le_mod_geq)

lemma mod_eq_self_pow2: "x mod 2 ^ k = x \<longleftrightarrow> x < (2 ^ k :: nat)"
proof
  assume "x mod 2 ^ k = x"
  moreover have "x mod 2 ^ k < 2 ^ k" by (rule mod_less_divisor) simp
  ultimately show "x < 2 ^ k" by simp
qed simp

lemma unat_and_kMask: "k < 32 \<Longrightarrow> unat ((w::u32) AND kMask (2 ^ k)) = unat w mod 2 ^ k"
  by (simp add: kMask_def unat_and_mask)

lemma mod_2_32_cancel: "k < 32 \<Longrightarrow> x mod 2 ^ 32 mod (2 ^ k :: nat) = x mod 2 ^ k"
  by (intro mod_mod_cancel le_imp_power_dvd) simp

lemma unat_ring_add:
  "k < 32 \<Longrightarrow> unat ((t + of_nat i) AND kMask (2 ^ k) :: u32) = (unat t + i) mod 2 ^ k"
proof -
  assume k: "k < 32"
  have "unat (t + of_nat i :: u32) = (unat t + i) mod 2 ^ 32"
    by (simp add: unat_word_ariths unat_of_nat mod_add_right_eq)
  then show ?thesis using k by (simp only: unat_and_kMask mod_2_32_cancel)
qed

lemma unat_ring_Suc: "k < 32 \<Longrightarrow> unat ((h + 1) AND kMask (2 ^ k) :: u32) = (unat h + 1) mod 2 ^ k"
  using unat_ring_add [of k h 1] by simp

lemma unat_ring_diff:
  assumes k: "k < 32" and h: "unat h < 2 ^ k" and t: "unat (t::u32) < 2 ^ k"
  shows "unat ((h - t) AND kMask (2 ^ k)) =
    (if unat t \<le> unat h then unat h - unat t else 2 ^ k + unat h - unat t)"
proof (cases "unat t \<le> unat h")
  case True
  then have "unat (h - t) = unat h - unat t" by (simp add: unat_sub word_le_nat_alt)
  then show ?thesis using True h k by (simp add: unat_and_kMask)
next
  case False
  have "(unat (h - t) + unat t) mod 2 ^ 32 = unat h"
    using unat_word_ariths(1) [of "h - t" t] by simp
  then have e: "(unat (h - t) mod 2 ^ k + unat t) mod 2 ^ k = unat h"
    using k h by (metis mod_2_32_cancel mod_add_left_eq mod_less)
  let ?d = "unat (h - t) mod 2 ^ k"
  have d: "?d < 2 ^ k" by simp
  have "?d + unat t = 2 ^ k + unat h"
  proof (cases "?d + unat t < 2 ^ k")
    case True
    then show ?thesis using e False by simp
  next
    case False
    then show ?thesis using e d t by (simp add: ring_mod)
  qed
  then show ?thesis using False k by (simp add: unat_and_kMask)
qed


lemma spsc_inv_iff:
  "k < 32 \<Longrightarrow> spsc_inv (2 ^ k) q \<longleftrightarrow> unat (q_head q) < 2 ^ k \<and> unat (q_tail q) < 2 ^ k"
  by (simp add: spsc_inv_def word_unat_eq_iff unat_and_kMask mod_eq_self_pow2)

lemma spsc_size_eq:
  assumes "k < 32" and "spsc_inv (2 ^ k) q"
  shows "spsc_size (2 ^ k) q =
    (if unat (q_tail q) \<le> unat (q_head q) then unat (q_head q) - unat (q_tail q)
     else 2 ^ k + unat (q_head q) - unat (q_tail q))"
  using assms by (simp add: spsc_size_def spsc_inv_iff unat_ring_diff)

lemma spsc_size_less: "k < 32 \<Longrightarrow> spsc_inv (2 ^ k) q \<Longrightarrow> spsc_size (2 ^ k) q < 2 ^ k"
  by (auto simp: spsc_size_eq spsc_inv_iff)

lemma length_spsc_contents [simp]: "length (spsc_contents N q) = spsc_size N q"
  by (simp add: spsc_contents_def)

lemma spsc_contents_nth:
  "i < spsc_size N q \<Longrightarrow> spsc_contents N q ! i = q_buf q ((q_tail q + of_nat i) AND kMask N)"
  by (simp add: spsc_contents_def)

lemma ring_index_head:
  assumes "k < 32" and "spsc_inv (2 ^ k) q"
  shows "(q_tail q + of_nat (spsc_size (2 ^ k) q)) AND kMask (2 ^ k) = q_head q"
  using assms by (auto simp: word_unat_eq_iff unat_ring_add spsc_size_eq spsc_inv_iff ring_mod)

lemma ring_index_not_head:
  assumes "k < 32" and "spsc_inv (2 ^ k) q" and "i < spsc_size (2 ^ k) q"
  shows "(q_tail q + of_nat i) AND kMask (2 ^ k) \<noteq> q_head q"
  using assms spsc_size_less [OF assms(1,2)]
  by (auto simp: word_unat_eq_iff unat_ring_add spsc_size_eq spsc_inv_iff ring_mod split: if_splits)

lemma spsc_full_iff:
  assumes "k < 32" and "spsc_inv (2 ^ k) q"
  shows "(q_head q + 1) AND kMask (2 ^ k) = q_tail q \<longleftrightarrow> spsc_size (2 ^ k) q = 2 ^ k - 1"
  using assms by (auto simp: word_unat_eq_iff unat_ring_Suc spsc_size_eq spsc_inv_iff ring_mod split: if_splits)

lemma spsc_empty_iff:
  assumes "k < 32" and "spsc_inv (2 ^ k) q"
  shows "q_tail q = q_head q \<longleftrightarrow> spsc_size (2 ^ k) q = 0"
  using assms by (auto simp: word_unat_eq_iff spsc_size_eq spsc_inv_iff split: if_splits)

subsection \<open>The ring implements the contract\<close>

lemma spsc_push_fst:
  assumes "k < 32" and "spsc_inv (2 ^ k) q"
  shows "fst (spsc_push (2 ^ k) q v) \<longleftrightarrow> spsc_size (2 ^ k) q < 2 ^ k - 1"
  using spsc_full_iff [OF assms] spsc_size_less [OF assms] by (auto simp: spsc_push_def Let_def)

lemma spsc_push_inv:
  assumes "k < 32" and "spsc_inv (2 ^ k) q"
  shows "spsc_inv (2 ^ k) (snd (spsc_push (2 ^ k) q v))"
  using assms by (auto simp: spsc_push_def Let_def spsc_inv_iff unat_ring_Suc)

lemma spsc_pop_inv:
  assumes "k < 32" and "spsc_inv (2 ^ k) q"
  shows "spsc_inv (2 ^ k) (snd (spsc_pop (2 ^ k) q))"
  using assms by (auto simp: spsc_pop_def Let_def spsc_inv_iff unat_ring_Suc)

lemma head_advance:
  assumes "k < 32" and "spsc_inv (2 ^ k) q" and "(q_head q + 1) AND kMask (2 ^ k) \<noteq> q_tail q"
  shows "spsc_size (2 ^ k) (q\<lparr>q_buf := f, q_head := (q_head q + 1) AND kMask (2 ^ k)\<rparr>)
    = Suc (spsc_size (2 ^ k) q)"
proof -
  let ?q = "q\<lparr>q_buf := f, q_head := (q_head q + 1) AND kMask (2 ^ k)\<rparr>"
  have i: "spsc_inv (2 ^ k) ?q" using assms(1,2) by (simp add: spsc_inv_iff unat_ring_Suc)
  show ?thesis using assms spsc_size_eq [OF assms(1) i]
    by (auto simp: spsc_size_eq spsc_inv_iff unat_ring_Suc word_unat_eq_iff ring_mod split: if_splits)
qed

lemma spsc_push_contents:
  assumes "k < 32" and "spsc_inv (2 ^ k) q"
  shows "spsc_contents (2 ^ k) (snd (spsc_push (2 ^ k) q v)) =
    (if spsc_size (2 ^ k) q < 2 ^ k - 1 then spsc_contents (2 ^ k) q @ [v] else spsc_contents (2 ^ k) q)"
proof (cases "(q_head q + 1) AND kMask (2 ^ k) = q_tail q")
  case True
  then show ?thesis using spsc_full_iff [OF assms] by (simp add: spsc_push_def)
next
  case False
  let ?q = "q\<lparr>q_buf := (q_buf q)(q_head q := v), q_head := (q_head q + 1) AND kMask (2 ^ k)\<rparr>"
  have "spsc_contents (2 ^ k) ?q = spsc_contents (2 ^ k) q @ [v]"
  proof (rule nth_equalityI)
    show "length (spsc_contents (2 ^ k) ?q) = length (spsc_contents (2 ^ k) q @ [v])"
      using head_advance [OF assms False] by simp
  next
    fix i assume "i < length (spsc_contents (2 ^ k) ?q)"
    then have "i < Suc (spsc_size (2 ^ k) q)" using head_advance [OF assms False] by simp
    then show "spsc_contents (2 ^ k) ?q ! i = (spsc_contents (2 ^ k) q @ [v]) ! i"
      using head_advance [OF assms False] ring_index_head [OF assms] ring_index_not_head [OF assms, of i]
      by (auto simp: spsc_contents_nth nth_append less_Suc_eq)
  qed
  moreover have "spsc_size (2 ^ k) q < 2 ^ k - 1"
    using False spsc_full_iff [OF assms] spsc_size_less [OF assms] by simp
  ultimately show ?thesis using False by (simp add: spsc_push_def Let_def)
qed

lemma tail_advance:
  assumes "k < 32" and "spsc_inv (2 ^ k) q" and "q_tail q \<noteq> q_head q"
  shows "spsc_size (2 ^ k) (q\<lparr>q_tail := (q_tail q + 1) AND kMask (2 ^ k)\<rparr>) = spsc_size (2 ^ k) q - 1"
proof -
  let ?q = "q\<lparr>q_tail := (q_tail q + 1) AND kMask (2 ^ k)\<rparr>"
  have i: "spsc_inv (2 ^ k) ?q" using assms(1,2) by (simp add: spsc_inv_iff unat_ring_Suc)
  show ?thesis using assms spsc_size_eq [OF assms(1) i]
    by (auto simp: spsc_size_eq spsc_inv_iff unat_ring_Suc word_unat_eq_iff ring_mod split: if_splits)
qed

lemma tail_index:
  assumes "k < 32"
  shows "((q_tail q + 1) AND kMask (2 ^ k)) + of_nat i AND kMask (2 ^ k)
    = (q_tail q + of_nat (Suc i)) AND kMask (2 ^ k)"
  using assms by (simp add: word_unat_eq_iff unat_ring_add unat_ring_Suc mod_add_left_eq del: of_nat_Suc)

lemma spsc_contents_tail:
  assumes "k < 32" and "spsc_inv (2 ^ k) q" and "q_tail q \<noteq> q_head q"
  shows "spsc_contents (2 ^ k) (q\<lparr>q_tail := (q_tail q + 1) AND kMask (2 ^ k)\<rparr>) = tl (spsc_contents (2 ^ k) q)"
  using tail_advance [OF assms]
  by (intro nth_equalityI) (auto simp: spsc_contents_nth nth_tl tail_index [OF assms(1)] simp del: of_nat_Suc)

lemma spsc_contents_hd:
  assumes "k < 32" and "spsc_inv (2 ^ k) q" and "q_tail q \<noteq> q_head q"
  shows "spsc_contents (2 ^ k) q = q_buf q (q_tail q) # tl (spsc_contents (2 ^ k) q)"
proof -
  have n: "0 < spsc_size (2 ^ k) q" using spsc_empty_iff [OF assms(1,2)] assms(3) by simp
  have "spsc_contents (2 ^ k) q ! 0 = q_buf q (q_tail q)"
    using n assms(2) by (simp add: spsc_contents_nth spsc_inv_def)
  then show ?thesis using n by (metis hd_conv_nth length_greater_0_conv length_spsc_contents list.collapse)
qed

lemma spsc_pop_fst:
  assumes "k < 32" and "spsc_inv (2 ^ k) q"
  shows "fst (spsc_pop (2 ^ k) q) = (case spsc_contents (2 ^ k) q of [] \<Rightarrow> None | x # _ \<Rightarrow> Some x)"
proof (cases "q_tail q = q_head q")
  case True
  then have "spsc_contents (2 ^ k) q = []" using spsc_empty_iff [OF assms] by (simp add: spsc_contents_def)
  then show ?thesis using True by (simp add: spsc_pop_def)
next
  case False
  show ?thesis by (subst spsc_contents_hd [OF assms False]) (simp add: spsc_pop_def False Let_def)
qed

lemma spsc_pop_contents:
  assumes "k < 32" and "spsc_inv (2 ^ k) q"
  shows "spsc_contents (2 ^ k) (snd (spsc_pop (2 ^ k) q)) = tl (spsc_contents (2 ^ k) q)"
proof (cases "q_tail q = q_head q")
  case True
  then have "spsc_contents (2 ^ k) q = []" using spsc_empty_iff [OF assms] by (simp add: spsc_contents_def)
  then show ?thesis using True by (simp add: spsc_pop_def)
next
  case False
  then show ?thesis using spsc_contents_tail [OF assms False] by (simp add: spsc_pop_def Let_def)
qed

lemma spsc_bounded_fifo:
  assumes "k < 32"
  shows "bounded_fifo (spsc_push (2 ^ k)) (spsc_pop (2 ^ k)) (spsc_contents (2 ^ k)) (spsc_inv (2 ^ k)) (2 ^ k - 1)"
proof (unfold_locales, goal_cases)
  case (1 q v) then show ?case using assms by (simp add: spsc_push_fst)
next
  case (2 q v) then show ?case using assms by (simp add: spsc_push_contents)
next
  case (3 q) then show ?case using assms by (simp add: spsc_pop_fst)
next
  case (4 q) then show ?case using assms by (simp add: spsc_pop_contents)
next
  case (5 q v) then show ?case using assms by (simp add: spsc_push_inv)
next
  case (6 q) then show ?case using assms by (simp add: spsc_pop_inv)
next
  case (7 q) then show ?case using spsc_size_less [OF assms 7] by simp
qed

text \<open>The three queue types of the program: \<^verbatim>\<open>GatewayQueue\<close> has 512 slots, \<^verbatim>\<open>InboundQueue\<close> and
  \<^verbatim>\<open>OutboundQueue\<close> 1024.\<close>

definition GatewayQueueN :: u32 where "GatewayQueueN = 512"
definition InboundQueueN :: u32 where "InboundQueueN = 1024"
definition OutboundQueueN :: u32 where "OutboundQueueN = 1024"

interpretation gateway_q: bounded_fifo "spsc_push GatewayQueueN" "spsc_pop GatewayQueueN"
    "spsc_contents GatewayQueueN" "spsc_inv GatewayQueueN" 511
  using spsc_bounded_fifo [of 9] by (simp add: GatewayQueueN_def)

interpretation inbound_q: bounded_fifo "spsc_push InboundQueueN" "spsc_pop InboundQueueN"
    "spsc_contents InboundQueueN" "spsc_inv InboundQueueN" 1023
  using spsc_bounded_fifo [of 10] by (simp add: InboundQueueN_def)

interpretation outbound_q: bounded_fifo "spsc_push OutboundQueueN" "spsc_pop OutboundQueueN"
    "spsc_contents OutboundQueueN" "spsc_inv OutboundQueueN" 1023
  using spsc_bounded_fifo [of 10] by (simp add: OutboundQueueN_def)

lemma spsc_init_inv: "k < 32 \<Longrightarrow> spsc_inv (2 ^ k) (spsc_init d)"
  by (simp add: spsc_inv_iff spsc_init_def)

lemma spsc_init_contents: "spsc_contents N (spsc_init d) = []"
  by (simp add: spsc_contents_def spsc_size_def spsc_init_def)

subsection \<open>Producer and consumer interleaved\<close>

text \<open>
  \<^verbatim>\<open>push\<close> and \<^verbatim>\<open>pop\<close> at the grain of their memory accesses, one program counter per thread.  Here
  every load returns the latest store; the theory \<open>Release_Acquire\<close> has the memory orders of the code.
  \<open>sent\<close> and \<open>received\<close> record the completed calls.
\<close>

datatype 'a ppc = PIdle | PLoaded 'a u32 u32 | PChecked 'a u32 u32 | PWritten 'a u32 u32
datatype 'a cpc = CIdle | CLoaded u32 | CChecked u32 | CRead u32 'a

record 'a spsc_sys =
  sys_q :: "'a SpscQueue"
  sys_p :: "'a ppc"
  sys_c :: "'a cpc"
  sent :: "'a list"
  received :: "'a list"

definition spsc_sys_init :: "'a \<Rightarrow> 'a spsc_sys" where
  "spsc_sys_init d = \<lparr>sys_q = spsc_init d, sys_p = PIdle, sys_c = CIdle, sent = [], received = []\<rparr>"

inductive spsc_step :: "u32 \<Rightarrow> 'a spsc_sys \<Rightarrow> 'a spsc_sys \<Rightarrow> bool" for N where
  p_load: "sys_p s = PIdle \<Longrightarrow> h = q_head (sys_q s) \<Longrightarrow>
     spsc_step N s (s\<lparr>sys_p := PLoaded v h ((h + 1) AND kMask N)\<rparr>)"
| p_full: "sys_p s = PLoaded v h next_h \<Longrightarrow> next_h = q_tail (sys_q s) \<Longrightarrow>
     spsc_step N s (s\<lparr>sys_p := PIdle\<rparr>)"
| p_room: "sys_p s = PLoaded v h next_h \<Longrightarrow> next_h \<noteq> q_tail (sys_q s) \<Longrightarrow>
     spsc_step N s (s\<lparr>sys_p := PChecked v h next_h\<rparr>)"
| p_write: "sys_p s = PChecked v h next_h \<Longrightarrow>
     spsc_step N s (s\<lparr>sys_q := (sys_q s)\<lparr>q_buf := (q_buf (sys_q s))(h := v)\<rparr>, sys_p := PWritten v h next_h\<rparr>)"
| p_publish: "sys_p s = PWritten v h next_h \<Longrightarrow>
     spsc_step N s (s\<lparr>sys_q := (sys_q s)\<lparr>q_head := next_h\<rparr>, sys_p := PIdle, sent := sent s @ [v]\<rparr>)"
| c_load: "sys_c s = CIdle \<Longrightarrow> spsc_step N s (s\<lparr>sys_c := CLoaded (q_tail (sys_q s))\<rparr>)"
| c_none: "sys_c s = CLoaded t \<Longrightarrow> t = q_head (sys_q s) \<Longrightarrow> spsc_step N s (s\<lparr>sys_c := CIdle\<rparr>)"
| c_some: "sys_c s = CLoaded t \<Longrightarrow> t \<noteq> q_head (sys_q s) \<Longrightarrow> spsc_step N s (s\<lparr>sys_c := CChecked t\<rparr>)"
| c_read: "sys_c s = CChecked t \<Longrightarrow> spsc_step N s (s\<lparr>sys_c := CRead t (q_buf (sys_q s) t)\<rparr>)"
| c_publish: "sys_c s = CRead t v \<Longrightarrow>
     spsc_step N s (s\<lparr>sys_q := (sys_q s)\<lparr>q_tail := (t + 1) AND kMask N\<rparr>, sys_c := CIdle,
       received := received s @ [v]\<rparr>)"

inductive spsc_reachable :: "u32 \<Rightarrow> 'a \<Rightarrow> 'a spsc_sys \<Rightarrow> bool" for N d where
  start: "spsc_reachable N d (spsc_sys_init d)"
| step: "spsc_reachable N d s \<Longrightarrow> spsc_step N s s' \<Longrightarrow> spsc_reachable N d s'"

text \<open>A race: the producer is about to write the cell the consumer is about to read.\<close>

definition spsc_race :: "'a spsc_sys \<Rightarrow> bool" where
  "spsc_race s = (case (sys_p s, sys_c s) of (PChecked v h next_h, CChecked t) \<Rightarrow> h = t | _ \<Rightarrow> False)"

fun producer_ok :: "u32 \<Rightarrow> 'a SpscQueue \<Rightarrow> 'a ppc \<Rightarrow> bool" where
  "producer_ok N q PIdle = True"
| "producer_ok N q (PLoaded v h next_h) = (h = q_head q \<and> next_h = (h + 1) AND kMask N)"
| "producer_ok N q (PChecked v h next_h) =
     (h = q_head q \<and> next_h = (h + 1) AND kMask N \<and> next_h \<noteq> q_tail q)"
| "producer_ok N q (PWritten v h next_h) =
     (h = q_head q \<and> next_h = (h + 1) AND kMask N \<and> next_h \<noteq> q_tail q \<and> q_buf q h = v)"

fun consumer_ok :: "'a SpscQueue \<Rightarrow> 'a cpc \<Rightarrow> bool" where
  "consumer_ok q CIdle = True"
| "consumer_ok q (CLoaded t) = (t = q_tail q)"
| "consumer_ok q (CChecked t) = (t = q_tail q \<and> t \<noteq> q_head q)"
| "consumer_ok q (CRead t v) = (t = q_tail q \<and> t \<noteq> q_head q \<and> v = q_buf q t)"

definition spsc_sys_inv :: "u32 \<Rightarrow> 'a spsc_sys \<Rightarrow> bool" where
  "spsc_sys_inv N s \<longleftrightarrow> spsc_inv N (sys_q s) \<and> producer_ok N (sys_q s) (sys_p s) \<and>
     consumer_ok (sys_q s) (sys_c s) \<and> received s @ spsc_contents N (sys_q s) = sent s"

lemma contents_write_head:
  assumes "k < 32" and "spsc_inv (2 ^ k) q"
  shows "spsc_contents (2 ^ k) (q\<lparr>q_buf := (q_buf q)(q_head q := v)\<rparr>) = spsc_contents (2 ^ k) q"
  using ring_index_not_head [OF assms] by (auto simp: spsc_contents_def spsc_size_def)

lemma contents_publish:
  assumes "k < 32" and "spsc_inv (2 ^ k) q" and "(q_head q + 1) AND kMask (2 ^ k) \<noteq> q_tail q"
  shows "spsc_contents (2 ^ k) (q\<lparr>q_head := (q_head q + 1) AND kMask (2 ^ k)\<rparr>)
    = spsc_contents (2 ^ k) q @ [q_buf q (q_head q)]"
proof -
  have "snd (spsc_push (2 ^ k) q (q_buf q (q_head q))) = q\<lparr>q_head := (q_head q + 1) AND kMask (2 ^ k)\<rparr>"
    using assms(3) by (simp add: spsc_push_def Let_def)
  then show ?thesis
    using spsc_push_contents [OF assms(1,2), of "q_buf q (q_head q)"] assms(3)
      spsc_full_iff [OF assms(1,2)] spsc_size_less [OF assms(1,2)] by simp
qed

lemma not_full_after_pop:
  assumes "k < 32" and "spsc_inv (2 ^ k) q" and "q_tail q \<noteq> q_head q"
  shows "(q_head q + 1) AND kMask (2 ^ k) \<noteq> (q_tail q + 1) AND kMask (2 ^ k)"
  using assms by (auto simp: word_unat_eq_iff unat_ring_Suc spsc_inv_iff ring_mod split: if_splits)

lemma not_empty_after_push:
  assumes "k < 32" and "spsc_inv (2 ^ k) q" and "(q_head q + 1) AND kMask (2 ^ k) \<noteq> q_tail q"
  shows "q_tail q \<noteq> (q_head q + 1) AND kMask (2 ^ k)"
  using assms(3) by simp

lemma producer_ok_pop:
  assumes "k < 32" and "spsc_inv (2 ^ k) q" and "q_tail q \<noteq> q_head q" and "producer_ok (2 ^ k) q p"
  shows "producer_ok (2 ^ k) (q\<lparr>q_tail := (q_tail q + 1) AND kMask (2 ^ k)\<rparr>) p"
  using assms(4) not_full_after_pop [OF assms(1-3)] by (cases p) auto

lemma consumer_ok_push:
  assumes "(q_head q + 1) AND N \<noteq> q_tail q" and "consumer_ok q c"
  shows "consumer_ok (q\<lparr>q_head := (q_head q + 1) AND N\<rparr>) c"
  using assms by (cases c) auto

lemma spsc_step_inv:
  assumes "spsc_step (2 ^ k) s s'" and "spsc_sys_inv (2 ^ k) s" and k: "k < 32"
  shows "spsc_sys_inv (2 ^ k) s'"
  using assms(1,2)
proof (induction rule: spsc_step.induct)
  case (p_write s v h next_h)
  then show ?case using contents_write_head [OF k, of "sys_q s" v]
    by (cases "sys_c s") (auto simp: spsc_sys_inv_def spsc_inv_def)
next
  case (p_publish s v h next_h)
  let ?q = "sys_q s"
  have q: "spsc_inv (2 ^ k) ?q" "next_h = (q_head ?q + 1) AND kMask (2 ^ k)" "next_h \<noteq> q_tail ?q"
    "q_buf ?q (q_head ?q) = v" "consumer_ok ?q (sys_c s)"
    using p_publish by (auto simp: spsc_sys_inv_def)
  have "spsc_inv (2 ^ k) (?q\<lparr>q_head := next_h\<rparr>)" using q k by (simp add: spsc_inv_iff unat_ring_Suc)
  moreover have "consumer_ok (?q\<lparr>q_head := next_h\<rparr>) (sys_c s)"
    using q consumer_ok_push [of ?q "kMask (2 ^ k)"] by simp
  moreover have "spsc_contents (2 ^ k) (?q\<lparr>q_head := next_h\<rparr>) = spsc_contents (2 ^ k) ?q @ [v]"
    using contents_publish [OF k q(1)] q(2-4) by simp
  moreover have "sent s = received s @ spsc_contents (2 ^ k) ?q"
    using p_publish.prems by (simp add: spsc_sys_inv_def)
  ultimately show ?case by (simp add: spsc_sys_inv_def)
next
  case (c_publish s t v)
  let ?q = "sys_q s"
  have q: "spsc_inv (2 ^ k) ?q" "t = q_tail ?q" "q_tail ?q \<noteq> q_head ?q" "v = q_buf ?q t"
    "producer_ok (2 ^ k) ?q (sys_p s)"
    using c_publish by (auto simp: spsc_sys_inv_def)
  have "spsc_inv (2 ^ k) (?q\<lparr>q_tail := (t + 1) AND kMask (2 ^ k)\<rparr>)" using q k by (simp add: spsc_inv_iff unat_ring_Suc)
  moreover have "producer_ok (2 ^ k) (?q\<lparr>q_tail := (t + 1) AND kMask (2 ^ k)\<rparr>) (sys_p s)"
    using q producer_ok_pop [OF k q(1,3)] by simp
  moreover have "v # tl (spsc_contents (2 ^ k) ?q) = spsc_contents (2 ^ k) ?q"
    using spsc_contents_hd [OF k q(1,3)] q by simp
  ultimately show ?case using c_publish spsc_contents_tail [OF k q(1,3)] q
    by (simp add: spsc_sys_inv_def)
qed (auto simp: spsc_sys_inv_def)

lemma spsc_reachable_inv:
  assumes "spsc_reachable (2 ^ k) d s" and "k < 32"
  shows "spsc_sys_inv (2 ^ k) s"
  using assms(1)
proof (induction rule: spsc_reachable.induct)
  case start
  then show ?case using spsc_init_inv [OF assms(2)]
    by (simp add: spsc_sys_inv_def spsc_sys_init_def spsc_init_contents)
next
  case (step s s')
  then show ?case using spsc_step_inv assms(2) by blast
qed

subsection \<open>Properties\<close>

text \<open>C18: For every ring of \<open>2 ^ k\<close> slots and every sequence of \<^verbatim>\<open>push\<close> and \<^verbatim>\<open>pop\<close> calls from the
  empty ring, the values accepted by \<^verbatim>\<open>push\<close> are exactly the values returned by \<^verbatim>\<open>pop\<close>, in the
  same order, followed by what is still in the ring; and the ring never holds more than
  \<open>2 ^ k - 1\<close> values.\<close>

theorem spsc_queue_fifo:
  assumes "k < 32" and "fifo_run (spsc_push (2 ^ k)) (spsc_pop (2 ^ k)) (spsc_init d) ops = (acc, out, q)"
  shows "acc = out @ spsc_contents (2 ^ k) q \<and> length (spsc_contents (2 ^ k) q) \<le> 2 ^ k - 1"
proof -
  note L = spsc_bounded_fifo [OF assms(1)] and i = spsc_init_inv [OF assms(1)]
  have "spsc_contents (2 ^ k) (spsc_init d) @ acc = out @ spsc_contents (2 ^ k) q"
    by (rule bounded_fifo.run_fifo [OF L i assms(2)])
  moreover have "spsc_inv (2 ^ k) q"
    using bounded_fifo.run_invar [OF L i [of d], of ops] assms(2) by simp
  ultimately show ?thesis
    using bounded_fifo.bounded [OF L] by (simp add: spsc_init_contents)
qed

theorem spsc_queue_fifo_witness:
  "\<exists>q. [7, 8, 9::nat] = [7, 8] @ spsc_contents (2 ^ 2) q \<and> length (spsc_contents (2 ^ 2) q) \<le> 2 ^ 2 - 1"
proof -
  have "\<exists>q. fifo_run (spsc_push (2 ^ 2)) (spsc_pop (2 ^ 2)) (spsc_init 0)
      [Push 7, Push 8, Push 9, Push 10, Pop, Pop] = ([7, 8, 9::nat], [7, 8], q)"
    by (simp add: spsc_push_def spsc_pop_def spsc_init_def kMask_def Let_def)
  then show ?thesis using spsc_queue_fifo [of 2] by fastforce
qed

text \<open>\<^verbatim>\<open>push\<close> succeeds exactly when fewer than \<open>2 ^ k - 1\<close> values are queued (one slot stays
  free) and then appends; \<^verbatim>\<open>pop\<close> returns the oldest value, fails exactly on the empty ring and
  otherwise removes that value only.\<close>

theorem spsc_push_pop_functional:
  assumes "k < 32" and "spsc_inv (2 ^ k) q"
  shows "fst (spsc_push (2 ^ k) q v) = (length (spsc_contents (2 ^ k) q) < 2 ^ k - 1) \<and>
    spsc_contents (2 ^ k) (snd (spsc_push (2 ^ k) q v)) =
      spsc_contents (2 ^ k) q @ (if fst (spsc_push (2 ^ k) q v) then [v] else []) \<and>
    fst (spsc_pop (2 ^ k) q) =
      (if spsc_empty q then None else Some (hd (spsc_contents (2 ^ k) q))) \<and>
    spsc_contents (2 ^ k) (snd (spsc_pop (2 ^ k) q)) = tl (spsc_contents (2 ^ k) q)"
proof -
  have "spsc_empty q \<longleftrightarrow> spsc_contents (2 ^ k) q = []"
    using spsc_empty_iff [OF assms] by (simp add: spsc_empty_def spsc_contents_def)
  then show ?thesis
    using assms by (auto simp: spsc_push_fst spsc_push_contents spsc_pop_fst spsc_pop_contents
        split: list.splits)
qed

theorem spsc_push_pop_functional_witness:
  "fst (spsc_push (2 ^ 10) (spsc_init (0::nat)) 5) = (length (spsc_contents (2 ^ 10) (spsc_init (0::nat))) < 2 ^ 10 - 1)"
  using spsc_push_pop_functional [of 10 "spsc_init (0::nat)" 5] spsc_init_inv [of 10 "0::nat"] by simp

text \<open>With one producer thread and one consumer thread interleaved at their memory accesses in
  any way, no cell of the ring is ever about to be written and read at once, and at every moment
  the values sent are the values received followed by the values in the ring: nothing is lost,
  duplicated or reordered.\<close>

theorem spsc_concurrent_fifo:
  assumes "spsc_reachable (2 ^ k) d s" and "k < 32"
  shows "\<not> spsc_race s \<and> sent s = received s @ spsc_contents (2 ^ k) (sys_q s)"
  using spsc_reachable_inv [OF assms]
  by (auto simp: spsc_sys_inv_def spsc_race_def split: ppc.splits cpc.splits)

lemma spsc_reachable_example:
  "spsc_reachable (2 ^ 10) (0::nat) ((spsc_sys_init 0)\<lparr>sys_p := PLoaded 7 0 1, sys_c := CLoaded 0\<rparr>)"
proof -
  let ?s1 = "(spsc_sys_init (0::nat))\<lparr>sys_p := PLoaded 7 0 1\<rparr>"
  have "spsc_step (2 ^ 10) (spsc_sys_init 0) ?s1"
    using spsc_step.p_load [of "spsc_sys_init 0" 0 "2 ^ 10" "7::nat"]
    by (simp add: spsc_sys_init_def spsc_init_def kMask_def)
  then have "spsc_reachable (2 ^ 10) 0 ?s1" by (rule spsc_reachable.step [OF spsc_reachable.start])
  moreover have "spsc_step (2 ^ 10) ?s1 (?s1\<lparr>sys_c := CLoaded 0\<rparr>)"
    using spsc_step.c_load [of ?s1 "2 ^ 10"] by (simp add: spsc_sys_init_def spsc_init_def)
  ultimately show ?thesis by (auto intro: spsc_reachable.step)
qed

theorem spsc_concurrent_fifo_witness:
  "\<not> spsc_race ((spsc_sys_init (0::nat))\<lparr>sys_p := PLoaded 7 0 1, sys_c := CLoaded 0\<rparr>)"
  using spsc_concurrent_fifo [OF spsc_reachable_example] by simp

end
