(* ===== verification/Logger.thy ===== *)
theory Logger
  imports Spsc_Queue
begin

text \<open>
  \<^verbatim>\<open>src/oms/logger.hpp\<close>: the ring of log entries and the thread that drains it.

  The caller's format string and arguments are the formatted text, of which \<^verbatim>\<open>snprintf\<close> keeps what fits
  into the entry; the time of a call is an argument.  The file is the text written to it so far and
  how much of it is flushed, standard error is a text.  One turn of the drain thread is \<open>drain_turn\<close>;
  the loop itself, which does not end while the logger runs, is a partial function.

  The lemmas: the ring is an instance of the contract \<open>bounded_fifo\<close>, and once the logger is stopped
  the drain ends with every accepted entry in the file, in order, and everything flushed.
\<close>

datatype LogLevel = DEBUG | INFO | WARN | LL_ERROR

record LogEntry =
  le_ts_ns :: u64
  le_level :: LogLevel
  le_msg :: string

definition kMsgLen :: nat where "kMsgLen = 184"
definition kLogRingSize :: u32 where "kLogRingSize = push_bit 16 1"

definition empty_log_entry :: LogEntry where
  "empty_log_entry = \<lparr>le_ts_ns = 0, le_level = DEBUG, le_msg = []\<rparr>"

record AsyncLogger =
  lg_ring :: "u32 \<Rightarrow> LogEntry"
  lg_head :: u32
  lg_tail :: u32
  lg_dropped :: u64
  lg_running :: bool
  lg_open :: bool
  lg_file :: string
  lg_flushed :: nat
  lg_stderr :: string

definition logger_new :: AsyncLogger where
  "logger_new = \<lparr>lg_ring = (\<lambda>_. empty_log_entry), lg_head = 0, lg_tail = 0, lg_dropped = 0, lg_running = False,
     lg_open = False, lg_file = [], lg_flushed = 0, lg_stderr = []\<rparr>"

text \<open>Decimal digits, as \<^verbatim>\<open>%lu\<close> prints them.\<close>

fun dec_digits :: "nat \<Rightarrow> string" where
  "dec_digits n = (if n < 10 then [char_of (48 + n)] else dec_digits (n div 10) @ [char_of (48 + n mod 10)])"

declare dec_digits.simps [simp del]

definition level_str :: "LogLevel \<Rightarrow> string" where
  "level_str l = (case l of DEBUG \<Rightarrow> ''DEBUG'' | INFO \<Rightarrow> ''INFO '' | WARN \<Rightarrow> ''WARN '' | LL_ERROR \<Rightarrow> ''ERROR'')"

definition snprintf_msg :: "string \<Rightarrow> string" where
  "snprintf_msg text = take (kMsgLen - 1) text"

definition fflush :: "AsyncLogger \<Rightarrow> AsyncLogger" where
  "fflush l = l\<lparr>lg_flushed := length (lg_file l)\<rparr>"

text \<open>\<open>opened\<close> says whether \<^verbatim>\<open>fopen\<close> succeeded; the file is opened for appending.\<close>

definition logger_init :: "string \<Rightarrow> bool \<Rightarrow> u64 \<Rightarrow> AsyncLogger \<Rightarrow> bool \<times> AsyncLogger" where
  "logger_init filepath opened now l =
     (if \<not> opened then (False, l\<lparr>lg_open := False, lg_stderr := lg_stderr l @ ''[LOGGER] failed to open '' @ filepath @ [CHR 0x0A]\<rparr>)
      else (True, (fflush (l\<lparr>lg_open := True,
        lg_file := lg_file l @ ''# session_start ts_ns='' @ dec_digits (unat now) @ [CHR 0x0A]\<rparr>))\<lparr>lg_running := True\<rparr>))"

definition log_kMask :: u32 where
  "log_kMask = kLogRingSize - 1"

definition log_msg :: "LogLevel \<Rightarrow> u64 \<Rightarrow> string \<Rightarrow> AsyncLogger \<Rightarrow> AsyncLogger" where
  "log_msg level now text l =
     (let h = lg_head l; next_h = (h + 1) AND log_kMask
      in if next_h = lg_tail l then l\<lparr>lg_dropped := lg_dropped l + 1\<rparr>
         else l\<lparr>lg_ring := (lg_ring l)(h := \<lparr>le_ts_ns = now, le_level = level, le_msg = snprintf_msg text\<rparr>),
                lg_head := next_h\<rparr>)"

definition log_debug :: "u64 \<Rightarrow> string \<Rightarrow> AsyncLogger \<Rightarrow> AsyncLogger" where "log_debug = log_msg DEBUG"
definition log_info :: "u64 \<Rightarrow> string \<Rightarrow> AsyncLogger \<Rightarrow> AsyncLogger" where "log_info = log_msg INFO"
definition log_warn :: "u64 \<Rightarrow> string \<Rightarrow> AsyncLogger \<Rightarrow> AsyncLogger" where "log_warn = log_msg WARN"
definition log_error :: "u64 \<Rightarrow> string \<Rightarrow> AsyncLogger \<Rightarrow> AsyncLogger" where "log_error = log_msg LL_ERROR"

definition dropped :: "AsyncLogger \<Rightarrow> u64" where
  "dropped l = lg_dropped l"

definition file_line :: "LogEntry \<Rightarrow> string" where
  "file_line e = dec_digits (unat (le_ts_ns e)) @ [CHR 0x09] @ level_str (le_level e) @ [CHR 0x09] @ le_msg e @ [CHR 0x0A]"

definition stderr_line :: "LogEntry \<Rightarrow> string" where
  "stderr_line e =
     (let line = (\<lambda>colour. [CHR 0x1B] @ ''[1;'' @ colour @ ''m['' @ level_str (le_level e) @ '']'' @ [CHR 0x1B] @ ''[0m '' @ le_msg e @ [CHR 0x0A])
      in if le_level e = LL_ERROR then line ''31'' else if le_level e = WARN then line ''33'' else [])"

text \<open>The body of the drain loop.\<close>

definition drain_turn :: "AsyncLogger \<Rightarrow> AsyncLogger" where
  "drain_turn l =
     (let t = lg_tail l
      in if t = lg_head l then l
         else let e = lg_ring l t;
                  l = (if lg_open l then l\<lparr>lg_file := lg_file l @ file_line e\<rparr> else l);
                  l = l\<lparr>lg_stderr := lg_stderr l @ stderr_line e, lg_tail := (t + 1) AND log_kMask\<rparr>
           in if t AND 0xFF = 0 \<and> lg_open l then fflush l else l)"

partial_function (option) drain_loop :: "AsyncLogger \<Rightarrow> AsyncLogger option" where
  "drain_loop l = (if lg_running l \<or> lg_tail l \<noteq> lg_head l then drain_loop (drain_turn l)
     else Some (if lg_open l then fflush l else l))"

text \<open>\<^verbatim>\<open>shutdown()\<close>: stop, wait for the drain thread, close the file.  The thread was started by
  \<^verbatim>\<open>init\<close>, if at all; \<^verbatim>\<open>running_\<close> is true until then.\<close>

definition shutdown :: "AsyncLogger \<Rightarrow> AsyncLogger option" where
  "shutdown l = do {
     l' \<leftarrow> (if lg_running l then drain_loop (l\<lparr>lg_running := False\<rparr>) else Some l);
     Some (if lg_open l' then (fflush l')\<lparr>lg_open := False\<rparr> else l') }"

subsection \<open>The ring\<close>

definition log_queue :: "AsyncLogger \<Rightarrow> LogEntry SpscQueue" where
  "log_queue l = \<lparr>q_buf = lg_ring l, q_head = lg_head l, q_tail = lg_tail l\<rparr>"

definition log_contents :: "AsyncLogger \<Rightarrow> LogEntry list" where
  "log_contents l = spsc_contents kLogRingSize (log_queue l)"

definition log_inv :: "AsyncLogger \<Rightarrow> bool" where
  "log_inv l \<longleftrightarrow> spsc_inv kLogRingSize (log_queue l)"

lemma kLogRingSize_eq: "kLogRingSize = 2 ^ 16"
  by (simp add: kLogRingSize_def push_bit_eq_mult)

interpretation log_q: bounded_fifo "spsc_push kLogRingSize" "spsc_pop kLogRingSize"
    "spsc_contents kLogRingSize" "spsc_inv kLogRingSize" 65535
  using spsc_bounded_fifo [of 16] by (simp add: kLogRingSize_eq)

lemma log_msg_push:
  "log_queue (log_msg level now text l) =
     snd (spsc_push kLogRingSize (log_queue l) \<lparr>le_ts_ns = now, le_level = level, le_msg = snprintf_msg text\<rparr>)"
  "lg_dropped (log_msg level now text l) = lg_dropped l +
     (if fst (spsc_push kLogRingSize (log_queue l) \<lparr>le_ts_ns = now, le_level = level, le_msg = snprintf_msg text\<rparr>) then 0 else 1)"
  by (simp_all add: log_msg_def spsc_push_def log_queue_def Let_def log_kMask_def kMask_def)

lemma log_msg_frame [simp]:
  "lg_file (log_msg v t x l) = lg_file l" "lg_open (log_msg v t x l) = lg_open l" "lg_running (log_msg v t x l) = lg_running l"
  "lg_stderr (log_msg v t x l) = lg_stderr l"
  by (simp_all add: log_msg_def Let_def)

lemma drain_turn_pop: "log_queue (drain_turn l) = snd (spsc_pop kLogRingSize (log_queue l))"
  by (simp add: drain_turn_def spsc_pop_def log_queue_def Let_def log_kMask_def kMask_def fflush_def)

lemma drain_turn_frame [simp]:
  "lg_open (drain_turn l) = lg_open l" "lg_running (drain_turn l) = lg_running l" "lg_dropped (drain_turn l) = lg_dropped l"
  by (simp_all add: drain_turn_def Let_def fflush_def)

lemma log_empty_iff: "log_inv l \<Longrightarrow> log_contents l = [] \<longleftrightarrow> lg_tail l = lg_head l"
  using spsc_empty_iff [of 16 "log_queue l"]
  by (simp add: log_inv_def log_contents_def kLogRingSize_eq log_queue_def spsc_empty_def length_0_conv [symmetric] del: length_0_conv)

lemma drain_turn_file:
  assumes "log_inv l" and "lg_open l"
  shows "lg_file (drain_turn l) = lg_file l @ concat (map file_line (take 1 (log_contents l)))"
    and "log_contents (drain_turn l) = tl (log_contents l)" and "log_inv (drain_turn l)"
proof -
  have q: "spsc_inv kLogRingSize (log_queue l)" using assms(1) by (simp add: log_inv_def)
  show "log_contents (drain_turn l) = tl (log_contents l)" and "log_inv (drain_turn l)"
    using log_q.pop_contents [OF q] log_q.invar_pop [OF q] by (simp_all add: log_contents_def log_inv_def drain_turn_pop)
  show "lg_file (drain_turn l) = lg_file l @ concat (map file_line (take 1 (log_contents l)))"
  proof (cases "log_contents l")
    case Nil
    then show ?thesis using log_empty_iff [OF assms(1)] by (simp add: drain_turn_def Let_def)
  next
    case (Cons e es)
    then have "lg_tail l \<noteq> lg_head l" "lg_ring l (lg_tail l) = e"
      using log_empty_iff [OF assms(1)] log_q.pop_result [OF q]
      by (auto simp: log_contents_def spsc_pop_def log_queue_def Let_def split: if_splits)
    then show ?thesis using Cons assms(2) by (simp add: drain_turn_def Let_def fflush_def)
  qed
qed

lemma drain_loop_ends:
  assumes "log_inv l" and "lg_open l" and "\<not> lg_running l"
  shows "\<exists>l'. drain_loop l = Some l' \<and> log_contents l' = [] \<and> lg_file l' = lg_file l @ concat (map file_line (log_contents l)) \<and>
    lg_flushed l' = length (lg_file l') \<and> lg_dropped l' = lg_dropped l \<and> lg_open l'"
  using assms
proof (induction "log_contents l" arbitrary: l)
  case Nil
  then have e: "lg_tail l = lg_head l" using log_empty_iff by metis
  have "log_contents (fflush l) = log_contents l" by (simp add: log_contents_def log_queue_def fflush_def)
  then show ?case using Nil e by (subst drain_loop.simps) (simp add: fflush_def)
next
  case (Cons e es)
  then have ne: "lg_tail l \<noteq> lg_head l" using log_empty_iff by (metis list.distinct(1))
  note d = drain_turn_file [OF Cons.prems(1,2)]
  obtain l' where "drain_loop (drain_turn l) = Some l'" "log_contents l' = []"
    "lg_file l' = lg_file (drain_turn l) @ concat (map file_line es)" "lg_flushed l' = length (lg_file l')"
    "lg_dropped l' = lg_dropped l" "lg_open l'"
    using Cons.hyps(1) [of "drain_turn l"] d Cons.prems by (auto simp: Cons.hyps(2) [symmetric])
  then show ?case using ne d(1) by (subst drain_loop.simps) (simp add: Cons.hyps(2) [symmetric])
qed

subsection \<open>Properties\<close>

datatype log_op = Log LogLevel u64 string | Turn

text \<open>Any interleaving of calls and turns of the drain thread: the entries the ring accepted, the number
  of calls, the final logger.\<close>

fun logger_run :: "log_op list \<Rightarrow> AsyncLogger \<Rightarrow> LogEntry list \<times> nat \<times> AsyncLogger" where
  "logger_run [] l = ([], 0, l)"
| "logger_run (Log v t x # ops) l =
     (let l' = log_msg v t x l; (acc, n, l'') = logger_run ops l'
      in (if lg_dropped l' = lg_dropped l then \<lparr>le_ts_ns = t, le_level = v, le_msg = snprintf_msg x\<rparr> # acc else acc, Suc n, l''))"
| "logger_run (Turn # ops) l = logger_run ops (drain_turn l)"

lemma logger_run_ok:
  assumes "log_inv l" and "lg_open l" and "logger_run ops l = (acc, n, l')"
  shows "log_inv l' \<and> lg_open l' \<and> lg_running l' = lg_running l \<and> length acc \<le> n \<and>
    lg_dropped l' = lg_dropped l + of_nat (n - length acc) \<and>
    lg_file l' @ concat (map file_line (log_contents l')) = lg_file l @ concat (map file_line (log_contents l @ acc))"
  using assms
proof (induction ops arbitrary: l acc n)
  case (Cons op ops)
  show ?case
  proof (cases op)
    case (Log v t x)
    let ?e = "\<lparr>le_ts_ns = t, le_level = v, le_msg = snprintf_msg x\<rparr>" and ?l = "log_msg v t x l"
    have q: "spsc_inv kLogRingSize (log_queue l)" using Cons.prems(1) by (simp add: log_inv_def)
    obtain acc1 n1 where r: "logger_run ops ?l = (acc1, n1, l')" "n = Suc n1"
      "acc = (if lg_dropped ?l = lg_dropped l then ?e # acc1 else acc1)"
      using Cons.prems(3) Log by (auto simp: Let_def split: prod.splits)
    have i: "log_inv ?l" using log_q.invar_push [OF q] by (simp add: log_inv_def log_msg_push(1))
    note IH = Cons.IH [OF i _ r(1)]
    have ok: "lg_dropped ?l = lg_dropped l \<longleftrightarrow> fst (spsc_push kLogRingSize (log_queue l) ?e)"
      by (simp add: log_msg_push(2))
    have "log_contents ?l = (if lg_dropped ?l = lg_dropped l then log_contents l @ [?e] else log_contents l)"
      using log_q.push_contents [OF q, of ?e] log_q.push_ok [OF q, of ?e] ok by (simp add: log_contents_def log_msg_push(1))
    moreover have "lg_dropped ?l = lg_dropped l + (if lg_dropped ?l = lg_dropped l then 0 else 1)"
      using ok by (simp add: log_msg_push(2))
    ultimately show ?thesis using IH r(2,3) Cons.prems(2) by (auto simp: Suc_diff_le algebra_simps)
  next
    case Turn
    note d = drain_turn_file [OF Cons.prems(1,2)]
    have "concat (map file_line (log_contents l)) = concat (map file_line (take 1 (log_contents l))) @ concat (map file_line (tl (log_contents l)))"
      by (cases "log_contents l") simp_all
    then show ?thesis using Cons.IH [of "drain_turn l" acc n] d Cons.prems Turn by auto
  qed
qed simp

text \<open>C22: Nothing that the logger accepts is lost or reordered.  After a successful \<^verbatim>\<open>init\<close>, let any sequence
  of log calls be interleaved with any turns of the drain thread: \<^verbatim>\<open>shutdown\<close> then returns, the file
  holds the session header followed by exactly the accepted entries in the order of the calls,
  everything is flushed, and the drop counter is the number of calls that were not accepted.\<close>

theorem logger_shutdown_complete:
  assumes "logger_init path True now logger_new = (ok, l0)" and "logger_run ops l0 = (acc, n, l)"
  shows "\<exists>l'. shutdown l = Some l' \<and> lg_file l' = lg_file l0 @ concat (map file_line acc) \<and>
    lg_flushed l' = length (lg_file l') \<and> dropped l' = of_nat (n - length acc) \<and> \<not> lg_open l'"
proof -
  have l0: "lg_open l0" "lg_running l0" "lg_dropped l0 = 0" "log_queue l0 = spsc_init empty_log_entry"
    using assms(1) by (auto simp: logger_init_def logger_new_def log_queue_def fflush_def spsc_init_def)
  then have i0: "log_inv l0" "log_contents l0 = []"
    using spsc_init_inv [of 16 empty_log_entry] by (simp_all add: log_inv_def log_contents_def kLogRingSize_eq spsc_init_contents)
  note r = logger_run_ok [OF i0(1) l0(1) assms(2)]
  let ?s = "l\<lparr>lg_running := False\<rparr>"
  have s: "log_inv ?s" "lg_open ?s" "log_contents ?s = log_contents l"
    using r by (simp_all add: log_inv_def log_contents_def log_queue_def)
  obtain l1 where "drain_loop ?s = Some l1" "lg_file l1 = lg_file l @ concat (map file_line (log_contents l))"
    "lg_dropped l1 = lg_dropped l" "lg_open l1"
    using drain_loop_ends [OF s(1,2)] s(3) by auto
  then show ?thesis using r l0 i0 by (simp add: shutdown_def fflush_def dropped_def)
qed

theorem logger_shutdown_complete_witness:
  "\<exists>l l'. logger_run [Log WARN 7 ''REROUTE'', Turn, Log INFO 8 ''FILL''] (snd (logger_init ''oms.log'' True 1 logger_new)) =
      ([\<lparr>le_ts_ns = 7, le_level = WARN, le_msg = ''REROUTE''\<rparr>, \<lparr>le_ts_ns = 8, le_level = INFO, le_msg = ''FILL''\<rparr>], 2, l) \<and>
    shutdown l = Some l' \<and> dropped l' = 0"
proof -
  let ?ops = "[Log WARN 7 ''REROUTE'', Turn, Log INFO 8 ''FILL'']"
  let ?l0 = "snd (logger_init ''oms.log'' True 1 logger_new)"
  obtain acc n l where r: "logger_run ?ops ?l0 = (acc, n, l)" by (metis prod_cases3)
  then have a: "acc = [\<lparr>le_ts_ns = 7, le_level = WARN, le_msg = ''REROUTE''\<rparr>, \<lparr>le_ts_ns = 8, le_level = INFO, le_msg = ''FILL''\<rparr>]" "n = 2"
    by (auto simp: logger_init_def logger_new_def log_msg_def drain_turn_def Let_def fflush_def log_kMask_def kLogRingSize_eq
        snprintf_msg_def kMsgLen_def)
  have "logger_init ''oms.log'' True 1 logger_new = (True, ?l0)" by (simp add: logger_init_def)
  from logger_shutdown_complete [OF this r] show ?thesis using r a by auto
qed

end
