(* ===== verification/Order_Pool.thy ===== *)
theory Order_Pool
  imports Oms_Types
begin

text \<open>
  \<^verbatim>\<open>src/oms/order_pool.hpp\<close>: the two flat pools of orders with LIFO free lists.

  The arrays are functions from indices.  \<open>free_parent\<close> and \<open>free_child\<close> can fault (\<open>None\<close>):
  their assertion on the identifier, and the write past the end of the free list that a surplus
  call would make.  The contract \<open>id_pool\<close> speaks of the set of live identifiers; both pools are
  interpreted as instances of it.
\<close>

record ChildOrderState =
  ch_child_id :: nat
  ch_parent_id :: nat
  ch_price :: price_t
  ch_qty_lots :: qty_t
  ch_cum_qty_lots :: qty_t
  ch_leaves_qty_lots :: qty_t
  ch_state :: OrderState
  ch_exchange_id :: nat
  ch_level_idx :: nat
  ch_order_type :: OrderType
  ch_dir :: OrderDir
  ch_sent_ns :: u64

text \<open>All bytes zero: \<^verbatim>\<open>OrderState::NEW\<close>, \<^verbatim>\<open>OrderType::MAKER\<close> and \<^verbatim>\<open>OrderDir::BUY\<close> are the zero
  enumerators.\<close>

definition zero_child :: ChildOrderState where
  "zero_child = \<lparr>ch_child_id = 0, ch_parent_id = 0, ch_price = 0, ch_qty_lots = 0, ch_cum_qty_lots = 0,
     ch_leaves_qty_lots = 0, ch_state = OS_NEW, ch_exchange_id = 0, ch_level_idx = 0,
     ch_order_type = MAKER, ch_dir = BUY, ch_sent_ns = 0\<rparr>"

record ParentOrder =
  po_parent_id :: nat
  po_instr_id :: nat
  po_dir :: OrderDir
  po_state :: OrderState
  po_strategy_id :: nat
  po_child_count :: nat
  po_order_type :: OrderType
  po_reduce_only :: bool
  po_total_qty_lots :: qty_t
  po_cum_qty_lots :: qty_t
  po_leaves_qty_lots :: qty_t
  po_limit_price :: price_t
  po_avg_fill_price :: double
  po_create_ns :: u64
  po_last_update_ns :: u64
  po_children :: "nat \<Rightarrow> nat"
  po_child_mask :: u16

definition kMaxChildrenPerParent :: nat where "kMaxChildrenPerParent = 16"

lemma kMaxChildrenPerParent_eq [simp]: "kMaxChildrenPerParent = 16"
  by (simp add: kMaxChildrenPerParent_def)

definition zero_parent :: ParentOrder where
  "zero_parent = \<lparr>po_parent_id = 0, po_instr_id = 0, po_dir = BUY, po_state = OS_NEW,
     po_strategy_id = 0, po_child_count = 0, po_order_type = MAKER, po_reduce_only = False,
     po_total_qty_lots = 0, po_cum_qty_lots = 0, po_leaves_qty_lots = 0, po_limit_price = 0,
     po_avg_fill_price = 0, po_create_ns = 0, po_last_update_ns = 0,
     po_children = (\<lambda>_. 0), po_child_mask = 0\<rparr>"

text \<open>\<^verbatim>\<open>reset()\<close> overwrites the whole record, so it does not depend on the old one.\<close>

definition reset_parent :: ParentOrder where
  "reset_parent = zero_parent\<lparr>po_parent_id := kInvalidOrderId, po_state := OS_NEW\<rparr>"

definition has_child :: "ParentOrder \<Rightarrow> nat \<Rightarrow> bool" where
  "has_child p slot \<longleftrightarrow> drop_bit slot (po_child_mask p) AND 1 \<noteq> 0"

definition add_child :: "nat \<Rightarrow> nat \<Rightarrow> ParentOrder \<Rightarrow> ParentOrder" where
  "add_child slot cid p = p\<lparr>po_children := (po_children p)(slot := cid),
     po_child_mask := po_child_mask p OR push_bit slot 1,
     po_child_count := po_child_count p + 1\<rparr>"

record OMSOrderPool =
  parents :: "nat \<Rightarrow> ParentOrder"
  children :: "nat \<Rightarrow> ChildOrderState"
  parent_free :: "nat \<Rightarrow> nat"
  parent_free_top :: nat
  child_free :: "nat \<Rightarrow> nat"
  child_free_top :: nat
  parent_alloc_failures :: u64
  child_alloc_failures :: u64

definition pool_init :: OMSOrderPool where
  "pool_init = \<lparr>parents = (\<lambda>_. zero_parent), children = (\<lambda>_. zero_child),
     parent_free = (\<lambda>i. kMaxParentOrders - 1 - i), parent_free_top = kMaxParentOrders,
     child_free = (\<lambda>i. kMaxTotalChildren - 1 - i), child_free_top = kMaxTotalChildren,
     parent_alloc_failures = 0, child_alloc_failures = 0\<rparr>"

definition alloc_parent :: "OMSOrderPool \<Rightarrow> nat option \<times> OMSOrderPool" where
  "alloc_parent p =
     (if parent_free_top p = 0
      then (None, p\<lparr>parent_alloc_failures := parent_alloc_failures p + 1\<rparr>)
      else let top = parent_free_top p - 1; i = parent_free p top
        in (Some i, p\<lparr>parent_free_top := top,
             parents := (parents p)(i := reset_parent\<lparr>po_parent_id := i\<rparr>)\<rparr>))"

definition alloc_child :: "OMSOrderPool \<Rightarrow> nat option \<times> OMSOrderPool" where
  "alloc_child p =
     (if child_free_top p = 0
      then (None, p\<lparr>child_alloc_failures := child_alloc_failures p + 1\<rparr>)
      else let top = child_free_top p - 1; i = child_free p top
        in (Some i, p\<lparr>child_free_top := top,
             children := (children p)(i := zero_child\<lparr>ch_child_id := i\<rparr>)\<rparr>))"

definition free_parent :: "nat \<Rightarrow> OMSOrderPool \<Rightarrow> OMSOrderPool option" where
  "free_parent i p =
     (if i < kMaxParentOrders \<and> parent_free_top p < kMaxParentOrders
      then Some (p\<lparr>parent_free := (parent_free p)(parent_free_top p := i),
             parent_free_top := parent_free_top p + 1\<rparr>)
      else None)"

definition free_child :: "nat \<Rightarrow> OMSOrderPool \<Rightarrow> OMSOrderPool option" where
  "free_child i p =
     (if i < kMaxTotalChildren \<and> child_free_top p < kMaxTotalChildren
      then Some (p\<lparr>child_free := (child_free p)(child_free_top p := i),
             child_free_top := child_free_top p + 1\<rparr>)
      else None)"

definition parents_in_use :: "OMSOrderPool \<Rightarrow> nat" where
  "parents_in_use p = kMaxParentOrders - parent_free_top p"

definition children_in_use :: "OMSOrderPool \<Rightarrow> nat" where
  "children_in_use p = kMaxTotalChildren - child_free_top p"

text \<open>\<^verbatim>\<open>pool_.parent(id) = ...\<close> and \<^verbatim>\<open>pool_.child(id) = ...\<close> through the returned references.\<close>

definition upd_parent :: "nat \<Rightarrow> (ParentOrder \<Rightarrow> ParentOrder) \<Rightarrow> OMSOrderPool \<Rightarrow> OMSOrderPool" where
  "upd_parent i f p = p\<lparr>parents := (parents p)(i := f (parents p i))\<rparr>"

definition upd_child :: "nat \<Rightarrow> (ChildOrderState \<Rightarrow> ChildOrderState) \<Rightarrow> OMSOrderPool \<Rightarrow> OMSOrderPool" where
  "upd_child i f p = p\<lparr>children := (children p)(i := f (children p i))\<rparr>"

subsection \<open>The contract of a pool of identifiers\<close>

fun free_all :: "(nat \<Rightarrow> 'p \<Rightarrow> 'p option) \<Rightarrow> nat list \<Rightarrow> 'p \<Rightarrow> 'p option" where
  "free_all fr [] p = Some p"
| "free_all fr (i # ids) p = Option.bind (fr i p) (free_all fr ids)"

fun alloc_many :: "('p \<Rightarrow> nat option \<times> 'p) \<Rightarrow> nat \<Rightarrow> 'p \<Rightarrow> nat list \<times> 'p" where
  "alloc_many al 0 p = ([], p)"
| "alloc_many al (Suc n) p =
     (case al p of (None, p') \<Rightarrow> ([], p')
      | (Some i, p') \<Rightarrow> (let (ids, q) = alloc_many al n p' in (i # ids, q)))"

locale id_pool =
  fixes al :: "'p \<Rightarrow> nat option \<times> 'p"
    and fr :: "nat \<Rightarrow> 'p \<Rightarrow> 'p option"
    and live :: "'p \<Rightarrow> nat set"
    and invar :: "'p \<Rightarrow> bool"
    and cap :: nat
  assumes live_sub: "invar p \<Longrightarrow> live p \<subseteq> {..<cap}"
    and alloc_None_iff: "invar p \<Longrightarrow> fst (al p) = None \<longleftrightarrow> live p = {..<cap}"
    and alloc_fail: "invar p \<Longrightarrow> al p = (None, p') \<Longrightarrow> live p' = live p \<and> invar p'"
    and alloc_fresh: "invar p \<Longrightarrow> al p = (Some i, p') \<Longrightarrow>
      i < cap \<and> i \<notin> live p \<and> live p' = insert i (live p) \<and> invar p'"
    and free_live: "invar p \<Longrightarrow> i \<in> live p \<Longrightarrow>
      \<exists>p'. fr i p = Some p' \<and> live p' = live p - {i} \<and> invar p'"
    and alloc_after_free: "invar p \<Longrightarrow> fr i p = Some p' \<Longrightarrow> fst (al p') = Some i"
begin

lemma free_all_live:
  assumes "invar p" and "distinct ids" and "set ids \<subseteq> live p"
  shows "\<exists>p'. free_all fr ids p = Some p' \<and> live p' = live p - set ids \<and> invar p'"
  using assms
proof (induction ids arbitrary: p)
  case (Cons i ids)
  from Cons.prems obtain p1 where p1: "fr i p = Some p1" "live p1 = live p - {i}" "invar p1"
    using free_live [of p i] by auto
  moreover have "set ids \<subseteq> live p1" using Cons.prems p1 by auto
  ultimately obtain p' where "free_all fr ids p1 = Some p'" "live p' = live p1 - set ids" "invar p'"
    using Cons.IH Cons.prems(2) by force
  then show ?case using p1 by auto
qed simp

lemma finite_live: "invar p \<Longrightarrow> finite (live p)"
  using live_sub finite_subset by blast

lemma alloc_many_fresh:
  assumes "invar p" and "alloc_many al n p = (ids, q)"
  shows "distinct ids \<and> set ids \<inter> live p = {} \<and> live q = live p \<union> set ids \<and> invar q \<and>
    length ids = min n (cap - card (live p))"
  using assms
proof (induction n arbitrary: p ids q)
  case (Suc n)
  show ?case
  proof (cases "fst (al p)")
    case None
    then obtain p' where a: "al p = (None, p')" by (metis prod.collapse)
    then show ?thesis using Suc.prems None alloc_fail [OF Suc.prems(1) a] alloc_None_iff [OF Suc.prems(1)]
      by auto
  next
    case (Some i)
    then obtain p' where a: "al p = (Some i, p')" by (metis prod.collapse)
    note f = alloc_fresh [OF Suc.prems(1) a]
    obtain ids' where r: "alloc_many al n p' = (ids', q)" "ids = i # ids'"
      using Suc.prems(2) a by (auto simp: Let_def split: prod.splits)
    have IH: "distinct ids'" "set ids' \<inter> live p' = {}" "live q = live p' \<union> set ids'" "invar q"
      "length ids' = min n (cap - card (live p'))"
      using Suc.IH [OF _ r(1)] f by blast+
    have "card (live p') = Suc (card (live p))" using f finite_live [OF Suc.prems(1)] by simp
    moreover have "card (live p') \<le> cap"
      using card_mono [OF _ live_sub, of p'] f by fastforce
    ultimately show ?thesis using IH r f by auto
  qed
qed simp

end

subsection \<open>The free list as a stack of identifiers\<close>

definition free_stack :: "(nat \<Rightarrow> nat) \<Rightarrow> nat \<Rightarrow> nat list" where
  "free_stack f tp = map f [0..<tp]"

definition stack_inv :: "nat \<Rightarrow> (nat \<Rightarrow> nat) \<Rightarrow> nat \<Rightarrow> bool" where
  "stack_inv cap f tp \<longleftrightarrow> distinct (free_stack f tp) \<and> set (free_stack f tp) \<subseteq> {..<cap}"

lemma free_stack_push: "free_stack (f(tp := i)) (Suc tp) = free_stack f tp @ [i]"
  by (simp add: free_stack_def)

lemma free_stack_pop: "0 < tp \<Longrightarrow> free_stack f tp = free_stack f (tp - 1) @ [f (tp - 1)]"
  by (cases tp) (simp_all add: free_stack_def)

lemma length_free_stack [simp]: "length (free_stack f tp) = tp"
  by (simp add: free_stack_def)

lemma free_stack_0 [simp]: "free_stack f 0 = []"
  by (simp add: free_stack_def)

lemma stack_inv_top_le: "stack_inv cap f tp \<Longrightarrow> tp \<le> cap"
  using card_mono [of "{..<cap}" "set (free_stack f tp)"] distinct_card [of "free_stack f tp"]
  by (simp add: stack_inv_def)

lemma stack_inv_full:
  assumes "stack_inv cap f tp" and "tp = cap"
  shows "set (free_stack f tp) = {..<cap}"
  using assms card_subset_eq [of "{..<cap}" "set (free_stack f tp)"] distinct_card [of "free_stack f tp"]
  by (simp add: stack_inv_def)

lemma stack_pop_live:
  assumes "stack_inv cap f tp" and "0 < tp"
  shows "f (tp - 1) < cap" and "f (tp - 1) \<in> set (free_stack f tp)"
    and "{..<cap} - set (free_stack f (tp - 1)) = insert (f (tp - 1)) ({..<cap} - set (free_stack f tp))"
    and "stack_inv cap f (tp - 1)"
  using assms free_stack_pop [of tp f] by (auto simp: stack_inv_def)

lemma stack_push_live:
  assumes "stack_inv cap f tp" and "i < cap" and "i \<notin> set (free_stack f tp)"
  shows "tp < cap" and "{..<cap} - set (free_stack (f(tp := i)) (Suc tp)) = {..<cap} - set (free_stack f tp) - {i}"
    and "stack_inv cap (f(tp := i)) (Suc tp)"
proof -
  have "tp \<noteq> cap" using stack_inv_full [OF assms(1)] assms(2,3) by blast
  then show "tp < cap" using stack_inv_top_le [OF assms(1)] by simp
  show "{..<cap} - set (free_stack (f(tp := i)) (Suc tp)) = {..<cap} - set (free_stack f tp) - {i}"
    by (auto simp: free_stack_push)
  show "stack_inv cap (f(tp := i)) (Suc tp)" using assms by (simp add: stack_inv_def free_stack_push)
qed

lemma stack_inv_init: "stack_inv cap (\<lambda>i. cap - 1 - i) cap"
  by (auto simp: stack_inv_def free_stack_def distinct_map inj_on_def)

definition live_parents :: "OMSOrderPool \<Rightarrow> nat set" where
  "live_parents p = {..<kMaxParentOrders} - set (free_stack (parent_free p) (parent_free_top p))"

definition live_children :: "OMSOrderPool \<Rightarrow> nat set" where
  "live_children p = {..<kMaxTotalChildren} - set (free_stack (child_free p) (child_free_top p))"

definition parents_inv :: "OMSOrderPool \<Rightarrow> bool" where
  "parents_inv p = stack_inv kMaxParentOrders (parent_free p) (parent_free_top p)"

definition children_inv :: "OMSOrderPool \<Rightarrow> bool" where
  "children_inv p = stack_inv kMaxTotalChildren (child_free p) (child_free_top p)"

definition pool_inv :: "OMSOrderPool \<Rightarrow> bool" where
  "pool_inv p \<longleftrightarrow> parents_inv p \<and> children_inv p"

lemma stack_live_all_iff:
  assumes "stack_inv cap f tp"
  shows "{..<cap} - set (free_stack f tp) = {..<cap} \<longleftrightarrow> tp = 0"
proof
  assume e: "{..<cap} - set (free_stack f tp) = {..<cap}"
  have "x \<notin> set (free_stack f tp)" for x
  proof
    assume x: "x \<in> set (free_stack f tp)"
    then have "x \<in> {..<cap}" using assms by (auto simp: stack_inv_def)
    then have "x \<in> {..<cap} - set (free_stack f tp)" by (simp only: e)
    then show False using x by simp
  qed
  then have "free_stack f tp = []" by (metis list.set_intros(1) neq_Nil_conv)
  then show "tp = 0" by (metis length_free_stack list.size(3))
qed simp

interpretation parent_pool: id_pool alloc_parent free_parent live_parents parents_inv 4096
proof (unfold_locales, goal_cases)
  case (1 p) then show ?case by (auto simp: live_parents_def)
next
  case (2 p) then show ?case using stack_live_all_iff
    by (simp add: alloc_parent_def live_parents_def parents_inv_def Let_def)
next
  case (3 p p') then show ?case
    by (auto simp: alloc_parent_def live_parents_def parents_inv_def Let_def split: if_splits)
next
  case (4 p i p')
  then have "0 < parent_free_top p" by (auto simp: alloc_parent_def split: if_splits)
  moreover have "i = parent_free p (parent_free_top p - 1)" "parent_free p' = parent_free p"
    "parent_free_top p' = parent_free_top p - 1"
    using 4(2) by (auto simp: alloc_parent_def Let_def split: if_splits)
  ultimately show ?case
    using 4(1) stack_pop_live [of 4096 "parent_free p" "parent_free_top p"] by (simp add: live_parents_def parents_inv_def)
next
  case (5 p i)
  then have "i < 4096" "i \<notin> set (free_stack (parent_free p) (parent_free_top p))" by (auto simp: live_parents_def)
  with 5 stack_push_live [of 4096 "parent_free p" "parent_free_top p" i] show ?case
    by (simp add: free_parent_def live_parents_def parents_inv_def)
next
  case (6 p i p') then show ?case
    by (auto simp: free_parent_def alloc_parent_def Let_def split: if_splits)
qed

interpretation child_pool: id_pool alloc_child free_child live_children children_inv 32768
proof (unfold_locales, goal_cases)
  case (1 p) then show ?case by (auto simp: live_children_def)
next
  case (2 p) then show ?case using stack_live_all_iff
    by (simp add: alloc_child_def live_children_def children_inv_def Let_def)
next
  case (3 p p') then show ?case
    by (auto simp: alloc_child_def live_children_def children_inv_def Let_def split: if_splits)
next
  case (4 p i p')
  then have "0 < child_free_top p" by (auto simp: alloc_child_def split: if_splits)
  moreover have "i = child_free p (child_free_top p - 1)" "child_free p' = child_free p"
    "child_free_top p' = child_free_top p - 1"
    using 4(2) by (auto simp: alloc_child_def Let_def split: if_splits)
  ultimately show ?case
    using 4(1) stack_pop_live [of 32768 "child_free p" "child_free_top p"] by (simp add: live_children_def children_inv_def)
next
  case (5 p i)
  then have "i < 32768" "i \<notin> set (free_stack (child_free p) (child_free_top p))" by (auto simp: live_children_def)
  with 5 stack_push_live [of 32768 "child_free p" "child_free_top p" i] show ?case
    by (simp add: free_child_def live_children_def children_inv_def)
next
  case (6 p i p') then show ?case
    by (auto simp: free_child_def alloc_child_def Let_def split: if_splits)
qed

lemma pool_init_inv: "pool_inv pool_init"
  using stack_inv_init [of 4096] stack_inv_init [of 32768]
  by (simp add: pool_inv_def parents_inv_def children_inv_def pool_init_def)

lemma pool_init_live: "live_parents pool_init = {}" "live_children pool_init = {}"
  using stack_inv_full [OF stack_inv_init, of 4096] stack_inv_full [OF stack_inv_init, of 32768]
  by (simp_all add: live_parents_def live_children_def pool_init_def)

lemma parents_in_use_card: "parents_inv p \<Longrightarrow> parents_in_use p = card (live_parents p)"
  using distinct_card [of "free_stack (parent_free p) (parent_free_top p)"]
  by (simp add: parents_in_use_def live_parents_def parents_inv_def stack_inv_def card_Diff_subset)

lemma children_in_use_card: "children_inv p \<Longrightarrow> children_in_use p = card (live_children p)"
  using distinct_card [of "free_stack (child_free p) (child_free_top p)"]
  by (simp add: children_in_use_def live_children_def children_inv_def stack_inv_def card_Diff_subset)

subsection \<open>Frames: what each operation leaves alone\<close>

lemma upd_frames [simp]:
  "live_parents (upd_parent i f p) = live_parents p" "live_children (upd_parent i f p) = live_children p"
  "live_parents (upd_child i g p) = live_parents p" "live_children (upd_child i g p) = live_children p"
  "parents_inv (upd_parent i f p) = parents_inv p" "children_inv (upd_parent i f p) = children_inv p"
  "parents_inv (upd_child i g p) = parents_inv p" "children_inv (upd_child i g p) = children_inv p"
  "children (upd_parent i f p) = children p" "parents (upd_child i g p) = parents p"
  "parents (upd_parent i f p) j = (if j = i then f (parents p i) else parents p j)"
  "children (upd_child i g p) k = (if k = i then g (children p i) else children p k)"
  by (simp_all add: upd_parent_def upd_child_def live_parents_def live_children_def parents_inv_def children_inv_def)

lemma alloc_parent_frame:
  assumes "alloc_parent p = (r, p')"
  shows "children p' = children p" "live_children p' = live_children p" "children_inv p' = children_inv p"
    and "r = None \<Longrightarrow> parents p' = parents p"
    and "r = Some i \<Longrightarrow> parents p' = (parents p)(i := reset_parent\<lparr>po_parent_id := i\<rparr>)"
  using assms by (auto simp: alloc_parent_def Let_def live_children_def children_inv_def split: if_splits)

lemma alloc_child_frame:
  assumes "alloc_child p = (r, p')"
  shows "parents p' = parents p" "live_parents p' = live_parents p" "parents_inv p' = parents_inv p"
    and "r = None \<Longrightarrow> children p' = children p"
    and "r = Some i \<Longrightarrow> children p' = (children p)(i := zero_child\<lparr>ch_child_id := i\<rparr>)"
  using assms by (auto simp: alloc_child_def Let_def live_parents_def parents_inv_def split: if_splits)

lemma free_parent_frame:
  assumes "free_parent i p = Some p'"
  shows "parents p' = parents p" "children p' = children p" "live_children p' = live_children p"
    "children_inv p' = children_inv p"
  using assms by (auto simp: free_parent_def live_children_def children_inv_def split: if_splits)

lemma free_child_frame:
  assumes "free_child i p = Some p'"
  shows "parents p' = parents p" "children p' = children p" "live_parents p' = live_parents p"
    "parents_inv p' = parents_inv p"
  using assms by (auto simp: free_child_def live_parents_def parents_inv_def split: if_splits)

lemma free_all_child_frame:
  "free_all free_child ids p = Some p' \<Longrightarrow>
     parents p' = parents p \<and> children p' = children p \<and> live_parents p' = live_parents p \<and> parents_inv p' = parents_inv p"
proof (induction ids arbitrary: p)
  case (Cons i ids)
  then obtain q where q: "free_child i p = Some q" "free_all free_child ids q = Some p'"
    by (auto elim: bind_eq_SomeE)
  show ?case using Cons.IH [OF q(2)] free_child_frame [OF q(1)] by simp
qed simp

subsection \<open>The child mask\<close>

lemma has_child_bit: "has_child p slot \<longleftrightarrow> bit (po_child_mask p) slot"
  by (simp add: has_child_def and_one_eq bit_iff_odd_drop_bit odd_iff_mod_2_eq_one)

lemma has_child_add_child:
  "slot < 16 \<Longrightarrow> has_child (add_child slot cid p) s \<longleftrightarrow> s = slot \<or> has_child p s"
  by (auto simp: has_child_bit add_child_def bit_simps)

lemma add_child_children [simp]:
  "po_children (add_child slot cid p) s = (if s = slot then cid else po_children p s)"
  by (simp add: add_child_def)

lemma reset_parent_no_child [simp]: "\<not> has_child (reset_parent\<lparr>po_parent_id := i\<rparr>) s"
  by (simp add: has_child_bit reset_parent_def zero_parent_def)

subsection \<open>Properties\<close>

text \<open>From any consistent pool, allocating \<open>n\<close> children hands out pairwise distinct identifiers,
  none of which was live, exactly as many as fit (\<open>32768\<close> minus those live); the pool stays
  consistent, so no order ever shares its slot with another.\<close>

theorem child_alloc_distinct:
  assumes "children_inv p" and "alloc_many alloc_child n p = (ids, p')"
  shows "distinct ids \<and> set ids \<inter> live_children p = {} \<and>
    live_children p' = live_children p \<union> set ids \<and> children_inv p' \<and>
    length ids = min n (kMaxTotalChildren - children_in_use p)"
  using child_pool.alloc_many_fresh [OF assms] children_in_use_card [OF assms(1)] by simp

theorem child_alloc_distinct_witness:
  "\<exists>ids p'. alloc_many alloc_child 40000 pool_init = (ids, p') \<and> distinct ids \<and> length ids = 32768"
proof -
  obtain ids p' where r: "alloc_many alloc_child 40000 pool_init = (ids, p')" by force
  have "children_inv pool_init" using pool_init_inv by (simp add: pool_inv_def)
  from child_alloc_distinct [OF this r] show ?thesis
    using r by (simp add: children_in_use_def pool_init_def)
qed

text \<open>\<^verbatim>\<open>alloc_parent\<close> fails exactly when all 4096 parents are in use, and then counts the failure
  and changes nothing else; otherwise it returns an unused identifier below 4096 whose record is
  reset and labelled with that identifier, and one more parent is in use.\<close>

theorem alloc_parent_functional:
  assumes "parents_inv p"
  shows "case alloc_parent p of
      (None, p') \<Rightarrow> parents_in_use p = kMaxParentOrders \<and>
        p' = p\<lparr>parent_alloc_failures := parent_alloc_failures p + 1\<rparr>
    | (Some i, p') \<Rightarrow> i < kMaxParentOrders \<and> i \<notin> live_parents p \<and>
        live_parents p' = insert i (live_parents p) \<and> parents_inv p' \<and>
        parents_in_use p' = parents_in_use p + 1 \<and>
        parents p' = (parents p)(i := reset_parent\<lparr>po_parent_id := i\<rparr>) \<and> children p' = children p"
proof (cases "fst (alloc_parent p)")
  case None
  then show ?thesis using stack_inv_top_le assms
    by (auto simp: alloc_parent_def parents_in_use_def Let_def split: if_splits)
next
  case (Some i)
  then obtain p' where a: "alloc_parent p = (Some i, p')" by (metis prod.collapse)
  note f = parent_pool.alloc_fresh [OF assms a]
  have "parents_in_use p' = parents_in_use p + 1"
    using f parent_pool.finite_live [OF assms] by (simp add: parents_in_use_card assms)
  then show ?thesis using f a alloc_parent_frame [OF a] by simp
qed

theorem alloc_parent_functional_witness:
  "fst (alloc_parent pool_init) = Some 0 \<and> (0::nat) \<notin> live_parents pool_init"
proof -
  have "alloc_parent pool_init = (Some 0, snd (alloc_parent pool_init))"
    by (simp add: alloc_parent_def pool_init_def Let_def)
  moreover have "parents_inv pool_init" using pool_init_inv by (simp add: pool_inv_def)
  note alloc_parent_functional [OF this]
  ultimately show ?thesis by (metis (mono_tags, lifting) case_prod_conv fst_conv option.simps(5))
qed

text \<open>C31: The free lists are LIFO and lossless: freeing a live parent succeeds, the next allocation
  returns that same identifier, and after freeing and allocating the set of live parents is what
  it was.\<close>

theorem free_alloc_parent_roundtrip:
  assumes "parents_inv p" and "i \<in> live_parents p"
  shows "\<exists>p1 p2. free_parent i p = Some p1 \<and> live_parents p1 = live_parents p - {i} \<and>
    alloc_parent p1 = (Some i, p2) \<and> live_parents p2 = live_parents p \<and> parents_inv p2"
proof -
  obtain p1 where p1: "free_parent i p = Some p1" "live_parents p1 = live_parents p - {i}" "parents_inv p1"
    using parent_pool.free_live [OF assms] by blast
  obtain p2 where p2: "alloc_parent p1 = (Some i, p2)"
    using parent_pool.alloc_after_free [OF assms(1) p1(1)] by (metis prod.collapse)
  show ?thesis using p1 p2 parent_pool.alloc_fresh [OF p1(3) p2] assms(2) by auto
qed

theorem free_alloc_parent_roundtrip_witness:
  "\<exists>p i p1 p2. free_parent i p = Some p1 \<and> alloc_parent p1 = (Some i, p2) \<and> live_parents p2 = {i}"
proof -
  obtain p where a: "alloc_parent pool_init = (Some 0, p)"
    by (simp add: alloc_parent_def pool_init_def Let_def)
  have "parents_inv pool_init" using pool_init_inv by (simp add: pool_inv_def)
  note f = parent_pool.alloc_fresh [OF this a]
  then have "parents_inv p" "0 \<in> live_parents p" "live_parents p = {0}" by (auto simp: pool_init_live)
  then show ?thesis using free_alloc_parent_roundtrip [of p 0] by metis
qed

end
