(* ===== verification/Timer_Wheel.thy ===== *)
theory Timer_Wheel
  imports Order_Pool "HOL-Library.Multiset"
begin

text \<open>
  \<^verbatim>\<open>src/oms/timer_wheel.hpp\<close>: the single-ring timer wheel behind cancel-on-timeout.

  The callback runs in the middle of \<^verbatim>\<open>check_slot\<close> and may itself call \<^verbatim>\<open>insert\<close> and \<^verbatim>\<open>cancel\<close> on
  the wheel (the execution core's does), so \<^verbatim>\<open>check_slot\<close> and \<^verbatim>\<open>tick\<close> work on a state \<open>'s\<close> that
  contains the wheel: \<open>get\<close> reads it, \<open>put\<close> stores it, \<open>cb\<close> is the callback on that state (it may
  fault).  A wheel whose callback is not set is \<open>cb = (\<lambda>_. Some)\<close>.  \<^verbatim>\<open>tick\<close> is a loop that need not
  end (a zero tick length, or a clock at the end of the 64-bit range), hence a partial function.

  The contract of a callback is the locale \<open>timer_client\<close>: it leaves the wheel's clock alone and
  does not fault.  Under it \<^verbatim>\<open>tick\<close> returns and leaves the clock less than one tick behind.
\<close>

record TimerEntry =
  te_child_id :: nat
  te_deadline_ns :: u64
  te_active :: bool

definition empty_entry :: TimerEntry where
  "empty_entry = \<lparr>te_child_id = kInvalidChildId, te_deadline_ns = 0, te_active = False\<rparr>"

definition kFineSlots :: nat where "kFineSlots = 8192"
definition kSlotDepth :: nat where "kSlotDepth = 32"

lemma kFineSlots_eq [simp]: "kFineSlots = 8192" by (simp add: kFineSlots_def)
lemma kSlotDepth_eq [simp]: "kSlotDepth = 32" by (simp add: kSlotDepth_def)

record TimerWheel =
  wheel :: "nat \<Rightarrow> nat \<Rightarrow> TimerEntry"
  tw_tick_ns :: u64
  tw_now_ns :: u64

definition tw_init :: "u64 \<Rightarrow> TimerWheel" where
  "tw_init tick = \<lparr>wheel = (\<lambda>_ _. empty_entry), tw_tick_ns = tick, tw_now_ns = 0\<rparr>"

definition slot_for :: "TimerWheel \<Rightarrow> u64 \<Rightarrow> nat" where
  "slot_for w ts = unat ((ts div tw_tick_ns w) AND (of_nat kFineSlots - 1))"

definition set_entry :: "nat \<Rightarrow> nat \<Rightarrow> TimerEntry \<Rightarrow> TimerWheel \<Rightarrow> TimerWheel" where
  "set_entry s i e w = w\<lparr>wheel := (wheel w)(s := ((wheel w s)(i := e)))\<rparr>"

definition tw_insert :: "nat \<Rightarrow> u64 \<Rightarrow> u64 \<Rightarrow> TimerWheel \<Rightarrow> bool \<times> TimerWheel" where
  "tw_insert cid now timeout w =
     (let deadline = now + timeout; slot = slot_for w deadline
      in case find_from (\<lambda>i. \<not> te_active (wheel w slot i)) 0 kSlotDepth of
           None \<Rightarrow> (False, w)
         | Some i \<Rightarrow> (True, set_entry slot i
             \<lparr>te_child_id = cid, te_deadline_ns = deadline, te_active = True\<rparr> w))"

definition entry_matches :: "TimerWheel \<Rightarrow> nat \<Rightarrow> nat \<Rightarrow> nat \<Rightarrow> bool" where
  "entry_matches w cid s i \<longleftrightarrow> te_active (wheel w s i) \<and> te_child_id (wheel w s i) = cid"

definition deactivate :: "nat \<Rightarrow> nat \<Rightarrow> TimerWheel \<Rightarrow> TimerWheel" where
  "deactivate s i w = set_entry s i (wheel w s i\<lparr>te_active := False\<rparr>) w"

definition tw_cancel :: "nat \<Rightarrow> TimerWheel \<Rightarrow> TimerWheel" where
  "tw_cancel cid w =
     (case find_from (\<lambda>s. find_from (entry_matches w cid s) 0 kSlotDepth \<noteq> None) 0 kFineSlots of
        None \<Rightarrow> w
      | Some s \<Rightarrow> (case find_from (entry_matches w cid s) 0 kSlotDepth of
          None \<Rightarrow> w
        | Some i \<Rightarrow> deactivate s i w))"

function check_slot_loop :: "('s \<Rightarrow> TimerWheel) \<Rightarrow> (TimerWheel \<Rightarrow> 's \<Rightarrow> 's) \<Rightarrow> (nat \<Rightarrow> 's \<Rightarrow> 's option) \<Rightarrow>
    nat \<Rightarrow> nat \<Rightarrow> 's \<Rightarrow> 's option" where
  "check_slot_loop get put cb slot i s =
     (if i < kSlotDepth then
        (let e = wheel (get s) slot i
         in if \<not> te_active e then check_slot_loop get put cb slot (Suc i) s
            else do {
              s' \<leftarrow> cb (te_child_id e) (put (deactivate slot i (get s)) s);
              check_slot_loop get put cb slot (Suc i) s' })
      else Some s)"
  by pat_completeness auto
termination
  by (relation "measure (\<lambda>(get, put, cb, slot, i, s). kSlotDepth - i)") auto

declare check_slot_loop.simps [simp del]

definition check_slot :: "('s \<Rightarrow> TimerWheel) \<Rightarrow> (TimerWheel \<Rightarrow> 's \<Rightarrow> 's) \<Rightarrow> (nat \<Rightarrow> 's \<Rightarrow> 's option) \<Rightarrow>
    nat \<Rightarrow> 's \<Rightarrow> 's option" where
  "check_slot get put cb slot s = check_slot_loop get put cb slot 0 s"

partial_function (option) tw_tick :: "('s \<Rightarrow> TimerWheel) \<Rightarrow> (TimerWheel \<Rightarrow> 's \<Rightarrow> 's) \<Rightarrow>
    (nat \<Rightarrow> 's \<Rightarrow> 's option) \<Rightarrow> u64 \<Rightarrow> 's \<Rightarrow> 's option" where
  "tw_tick get put cb now s =
     (if tw_now_ns (get s) + tw_tick_ns (get s) \<le> now then do {
        let w = get s;
        let w' = w\<lparr>tw_now_ns := tw_now_ns w + tw_tick_ns w\<rparr>;
        s' \<leftarrow> check_slot get put cb (slot_for w' (tw_now_ns w')) (put w' s);
        tw_tick get put cb now s' }
      else Some s)"

definition reset_clock :: "u64 \<Rightarrow> TimerWheel \<Rightarrow> TimerWheel" where
  "reset_clock now w = w\<lparr>tw_now_ns := now\<rparr>"

subsection \<open>Slots\<close>

lemma slot_for_eq: "slot_for w ts = unat ts div unat (tw_tick_ns w) mod 8192"
proof -
  have "slot_for w ts = unat ((ts div tw_tick_ns w) AND (2 ^ 13 - 1))" by (simp add: slot_for_def)
  then show ?thesis by (simp only: unat_and_mask) (simp add: unat_div)
qed

lemma slot_for_less: "slot_for w ts < 8192"
  by (simp add: slot_for_eq)

lemma slot_for_cong [simp]: "slot_for (w\<lparr>tw_now_ns := c\<rparr>) ts = slot_for w ts"
  by (simp add: slot_for_def)

lemma set_entry_frame [simp]:
  "tw_tick_ns (set_entry s i e w) = tw_tick_ns w" "tw_now_ns (set_entry s i e w) = tw_now_ns w"
  "wheel (set_entry s i e w) s' i' = (if s' = s \<and> i' = i then e else wheel w s' i')"
  "slot_for (set_entry s i e w) ts = slot_for w ts"
  by (simp_all add: set_entry_def slot_for_def)

lemma deactivate_frame [simp]:
  "tw_tick_ns (deactivate s i w) = tw_tick_ns w" "tw_now_ns (deactivate s i w) = tw_now_ns w"
  "wheel (deactivate s i w) s' i' = (if s' = s \<and> i' = i then wheel w s i\<lparr>te_active := False\<rparr> else wheel w s' i')"
  by (simp_all add: deactivate_def)

lemma cancel_frame [simp]:
  "tw_tick_ns (tw_cancel cid w) = tw_tick_ns w" "tw_now_ns (tw_cancel cid w) = tw_now_ns w"
  by (simp_all add: tw_cancel_def split: option.splits)

lemma insert_frame:
  assumes "tw_insert cid now timeout w = (ok, w')"
  shows "tw_tick_ns w' = tw_tick_ns w" "tw_now_ns w' = tw_now_ns w"
  using assms by (auto simp: tw_insert_def Let_def split: option.splits)

subsection \<open>The contract of a callback\<close>

locale timer_client =
  fixes get :: "'s \<Rightarrow> TimerWheel"
    and put :: "TimerWheel \<Rightarrow> 's \<Rightarrow> 's"
    and cb :: "nat \<Rightarrow> 's \<Rightarrow> 's option"
    and invar :: "'s \<Rightarrow> bool"
  assumes get_put: "get (put w s) = w"
    and invar_clock: "invar s \<Longrightarrow> invar (put (get s\<lparr>tw_now_ns := c\<rparr>) s)"
    and cb_ok: "invar s \<Longrightarrow> te_active (wheel (get s) slot i) \<Longrightarrow> \<exists>s'.
      cb (te_child_id (wheel (get s) slot i)) (put (deactivate slot i (get s)) s) = Some s' \<and> invar s' \<and>
      tw_now_ns (get s') = tw_now_ns (get s) \<and> tw_tick_ns (get s') = tw_tick_ns (get s)"
begin

lemma check_slot_loop_ok:
  assumes "invar s"
  shows "\<exists>s'. check_slot_loop get put cb slot i s = Some s' \<and> invar s' \<and>
    tw_now_ns (get s') = tw_now_ns (get s) \<and> tw_tick_ns (get s') = tw_tick_ns (get s)"
  using assms
proof (induction "32 - i" arbitrary: i s)
  case 0
  then show ?case by (simp add: check_slot_loop.simps [of _ _ _ _ i])
next
  case (Suc n)
  have n: "n = 32 - Suc i" "i < 32" using Suc.hyps(2) by simp_all
  show ?case
  proof (cases "te_active (wheel (get s) slot i)")
    case False
    then show ?thesis using Suc.hyps(1) [OF n(1) Suc.prems] n(2)
      by (simp add: check_slot_loop.simps [of _ _ _ _ i] Let_def)
  next
    case True
    obtain s1 where s1: "cb (te_child_id (wheel (get s) slot i)) (put (deactivate slot i (get s)) s) = Some s1"
      "invar s1" "tw_now_ns (get s1) = tw_now_ns (get s)" "tw_tick_ns (get s1) = tw_tick_ns (get s)"
      using cb_ok [OF Suc.prems True] by blast
    show ?thesis using Suc.hyps(1) [OF n(1) s1(2)] s1 n(2) True
      by (simp add: check_slot_loop.simps [of _ _ _ _ i] Let_def)
  qed
qed

lemma tick_returns:
  assumes "invar s" and "0 < unat (tw_tick_ns (get s))"
    and "unat now + unat (tw_tick_ns (get s)) < 2 ^ 64"
    and "tw_now_ns (get s) \<le> now"
  shows "\<exists>s'. tw_tick get put cb now s = Some s' \<and> invar s' \<and>
    tw_tick_ns (get s') = tw_tick_ns (get s) \<and> tw_now_ns (get s') \<le> now \<and>
    unat now < unat (tw_now_ns (get s')) + unat (tw_tick_ns (get s))"
  using assms
proof (induction "unat now - unat (tw_now_ns (get s))" arbitrary: s rule: less_induct)
  case less
  let ?w = "get s" and ?T = "tw_tick_ns (get s)"
  have le: "unat (tw_now_ns ?w) \<le> unat now" using less.prems(4) by (simp add: word_le_nat_alt)
  then have sum: "unat (tw_now_ns ?w + ?T) = unat (tw_now_ns ?w) + unat ?T"
    using less.prems(3) by (intro unat_add_lem [THEN iffD1]) simp
  show ?case
  proof (cases "tw_now_ns ?w + ?T \<le> now")
    case False
    then have "unat now < unat (tw_now_ns ?w) + unat ?T" using sum by (simp add: word_le_nat_alt)
    then show ?thesis using False less.prems by (subst tw_tick.simps) simp
  next
    case True
    let ?w' = "?w\<lparr>tw_now_ns := tw_now_ns ?w + ?T\<rparr>"
    obtain s1 where s1: "check_slot get put cb (slot_for ?w' (tw_now_ns ?w')) (put ?w' s) = Some s1" "invar s1"
      "tw_now_ns (get s1) = tw_now_ns ?w + ?T" "tw_tick_ns (get s1) = ?T"
      using check_slot_loop_ok [OF invar_clock [OF less.prems(1)], of "slot_for ?w' (tw_now_ns ?w')" 0 "tw_now_ns ?w + ?T"]
      by (auto simp: check_slot_def get_put)
    have dec: "unat now - unat (tw_now_ns (get s1)) < unat now - unat (tw_now_ns ?w)"
      using True s1(3) sum less.prems(2) by (simp add: word_le_nat_alt)
    have "\<exists>s'. tw_tick get put cb now s1 = Some s' \<and> invar s' \<and> tw_tick_ns (get s') = ?T \<and>
      tw_now_ns (get s') \<le> now \<and> unat now < unat (tw_now_ns (get s')) + unat ?T"
      using less.hyps [OF dec s1(2)] less.prems True s1(3,4) by simp
    moreover have "tw_tick get put cb now s = tw_tick get put cb now s1"
      using True s1(1) by (subst tw_tick.simps) (simp add: Let_def)
    ultimately show ?thesis by simp
  qed
qed

end

subsection \<open>A wheel that records what it fires\<close>

text \<open>The callback that only takes note of the child: the wheel on its own.\<close>

definition put_wheel :: "TimerWheel \<Rightarrow> TimerWheel \<times> nat list \<Rightarrow> TimerWheel \<times> nat list" where
  "put_wheel w s = (w, snd s)"

definition note_fired :: "nat \<Rightarrow> TimerWheel \<times> nat list \<Rightarrow> (TimerWheel \<times> nat list) option" where
  "note_fired cid s = Some (fst s, snd s @ [cid])"

interpretation recording: timer_client fst put_wheel note_fired "\<lambda>_. True"
  by unfold_locales (simp_all add: put_wheel_def note_fired_def)

definition tw_tick_rec :: "u64 \<Rightarrow> TimerWheel \<Rightarrow> (TimerWheel \<times> nat list) option" where
  "tw_tick_rec now w = tw_tick fst put_wheel note_fired now (w, [])"

definition ids_from :: "TimerWheel \<Rightarrow> nat \<Rightarrow> nat \<Rightarrow> nat list" where
  "ids_from w s i = map te_child_id (filter te_active (map (wheel w s) [i..<kSlotDepth]))"

definition slot_ids :: "TimerWheel \<Rightarrow> nat \<Rightarrow> nat list" where
  "slot_ids w s = ids_from w s 0"

definition clear_from :: "nat \<Rightarrow> nat \<Rightarrow> TimerWheel \<Rightarrow> TimerWheel" where
  "clear_from s i w = w\<lparr>wheel := (wheel w)(s := \<lambda>j. if i \<le> j \<and> j < kSlotDepth
     then wheel w s j\<lparr>te_active := False\<rparr> else wheel w s j)\<rparr>"

lemma ids_from_step:
  "i < 32 \<Longrightarrow> ids_from w s i =
     (if te_active (wheel w s i) then [te_child_id (wheel w s i)] else []) @ ids_from w s (Suc i)"
  by (simp add: ids_from_def upt_conv_Cons)

lemma ids_from_end: "\<not> i < 32 \<Longrightarrow> ids_from w s i = []"
  by (simp add: ids_from_def)

lemma clear_from_end:
  assumes "\<not> i < 32"
  shows "clear_from s i w = w"
proof -
  have "(\<lambda>j. if i \<le> j \<and> j < kSlotDepth then wheel w s j\<lparr>te_active := False\<rparr> else wheel w s j) = wheel w s"
    using assms by (auto simp: fun_eq_iff)
  then show ?thesis by (simp add: clear_from_def)
qed

lemma clear_from_inactive:
  assumes "i < 32" and "\<not> te_active (wheel w s i)"
  shows "clear_from s (Suc i) w = clear_from s i w"
proof -
  have "wheel w s i\<lparr>te_active := False\<rparr> = wheel w s i" using assms(2) by (cases "wheel w s i") simp
  then have "(\<lambda>j. if Suc i \<le> j \<and> j < 32 then wheel w s j\<lparr>te_active := False\<rparr> else wheel w s j) =
    (\<lambda>j. if i \<le> j \<and> j < 32 then wheel w s j\<lparr>te_active := False\<rparr> else wheel w s j)"
    using assms(1) by (auto simp: fun_eq_iff Suc_le_eq order_le_less)
  then show ?thesis by (simp add: clear_from_def)
qed

lemma clear_from_active: "i < 32 \<Longrightarrow> clear_from s (Suc i) (deactivate s i w) = clear_from s i w"
  by (auto simp: clear_from_def deactivate_def set_entry_def fun_eq_iff intro!: arg_cong2 [where f = "\<lambda>a b. wheel_update a b"])

lemma ids_from_deactivate: "ids_from (deactivate s i w) s (Suc i) = ids_from w s (Suc i)"
  by (auto simp: ids_from_def intro!: arg_cong [where f = "\<lambda>xs. map te_child_id (filter te_active xs)"])

lemma check_slot_rec:
  "check_slot_loop fst put_wheel note_fired s i (w, f) = Some (clear_from s i w, f @ ids_from w s i)"
proof (induction "32 - i" arbitrary: i w f)
  case 0
  then show ?case by (simp add: check_slot_loop.simps [of _ _ _ _ i] ids_from_end clear_from_end)
next
  case (Suc n)
  have n: "n = 32 - Suc i" "i < 32" using Suc.hyps(2) by simp_all
  show ?case
  proof (cases "te_active (wheel w s i)")
    case True
    then show ?thesis using Suc.hyps(1) [OF n(1)] n(2)
      by (simp add: check_slot_loop.simps [of _ _ _ _ i] Let_def ids_from_step
          clear_from_active ids_from_deactivate put_wheel_def note_fired_def)
  next
    case False
    then show ?thesis using Suc.hyps(1) [OF n(1)] n(2)
      by (simp add: check_slot_loop.simps [of _ _ _ _ i] Let_def ids_from_step clear_from_inactive)
  qed
qed

lemma slot_ids_clear: "slot_ids (clear_from s 0 w) s' = (if s' = s then [] else slot_ids w s')"
  by (auto simp: slot_ids_def ids_from_def clear_from_def filter_empty_conv)

lemma clear_from_frame [simp]:
  "tw_now_ns (clear_from s i w) = tw_now_ns w" "tw_tick_ns (clear_from s i w) = tw_tick_ns w"
  by (simp_all add: clear_from_def)

lemma slot_ids_clock [simp]: "slot_ids (w\<lparr>tw_now_ns := c\<rparr>) s = slot_ids w s"
  by (simp add: slot_ids_def ids_from_def)


lemma tick_rec_step:
  assumes "tw_now_ns w + tw_tick_ns w \<le> now"
  shows "tw_tick fst put_wheel note_fired now (w, f) =
    tw_tick fst put_wheel note_fired now
      (clear_from (slot_for w (tw_now_ns w + tw_tick_ns w)) 0 (w\<lparr>tw_now_ns := tw_now_ns w + tw_tick_ns w\<rparr>),
       f @ slot_ids w (slot_for w (tw_now_ns w + tw_tick_ns w)))"
proof -
  let ?w = "w\<lparr>tw_now_ns := tw_now_ns w + tw_tick_ns w\<rparr>"
  have "ids_from ?w s 0 = slot_ids w s" for s
    using slot_ids_clock [where w = w and c = "tw_now_ns w + tw_tick_ns w" and s = s] unfolding slot_ids_def .
  then show ?thesis using assms
    by (subst tw_tick.simps) (simp add: Let_def check_slot_def check_slot_rec put_wheel_def)
qed

text \<open>The bucket of a timestamp, and how many ticks separate the wheel's clock from \<open>now\<close>.\<close>

definition bucket :: "TimerWheel \<Rightarrow> u64 \<Rightarrow> nat" where
  "bucket w ts = unat ts div unat (tw_tick_ns w)"

definition ticks_due :: "TimerWheel \<Rightarrow> u64 \<Rightarrow> nat" where
  "ticks_due w now = (unat now - unat (tw_now_ns w)) div unat (tw_tick_ns w)"

text \<open>The slots visited by \<open>k\<close> steps from the bucket \<open>b\<close>.\<close>

definition visited :: "nat \<Rightarrow> nat \<Rightarrow> nat list" where
  "visited b k = map (\<lambda>j. (b + 1 + j) mod 8192) [0..<k]"

definition clear_slots :: "nat list \<Rightarrow> TimerWheel \<Rightarrow> TimerWheel" where
  "clear_slots ss w = fold (\<lambda>s. clear_from s 0) ss w"

lemma visited_Suc: "visited b (Suc k) = (b + 1) mod 8192 # visited (b + 1) k"
proof -
  have "[0..<Suc k] = 0 # map Suc [0..<k]" by (simp add: upt_conv_Cons map_Suc_upt del: upt_Suc)
  then show ?thesis by (simp add: visited_def o_def del: upt_Suc)
qed

lemma ring_inj:
  fixes n :: nat
  assumes "x \<le> y" and "y < n" and "(c + x) mod n = (c + y) mod n"
  shows "x = y"
proof -
  have "n dvd (c + y) - (c + x)"
    using assms(1,3) mod_eq_dvd_iff_nat [of "c + x" "c + y" n] by simp
  then have "n dvd y - x" by simp
  then show ?thesis using assms(1,2) dvd_imp_le [of n "y - x"] by (cases "y - x") simp_all
qed

lemma visited_distinct: "k \<le> 8192 \<Longrightarrow> distinct (visited b k)"
proof -
  assume k: "k \<le> 8192"
  have "x = y" if "x < k" "y < k" "(b + 1 + x) mod 8192 = (b + 1 + y) mod 8192" for x y
    using that k ring_inj [of x y 8192 "b + 1"] ring_inj [of y x 8192 "b + 1"] by (cases "x \<le> y") auto
  then show ?thesis by (auto simp: visited_def distinct_map inj_on_def)
qed


lemma visited_append: "visited b (k + m) = visited b k @ visited (b + k) m"
  by (induction k arbitrary: b) (simp_all add: visited_Suc, simp add: visited_def)

lemma visited_all: "set (visited b 8192) = {..<8192}"
proof (rule card_subset_eq)
  show "set (visited b 8192) \<subseteq> {..<8192}" by (auto simp: visited_def)
  have "card (set (visited b 8192)) = length (visited b 8192)"
    by (rule distinct_card) (simp add: visited_distinct)
  then show "card (set (visited b 8192)) = card {..<8192::nat}" by (simp add: visited_def)
qed simp

fun fired :: "nat list \<Rightarrow> TimerWheel \<Rightarrow> nat list" where
  "fired [] w = []"
| "fired (s # ss) w = slot_ids w s @ fired ss (clear_from s 0 w)"

lemma slot_ids_clear_slots: "slot_ids (clear_slots ss w) s = (if s \<in> set ss then [] else slot_ids w s)"
  by (induction ss arbitrary: w) (auto simp: clear_slots_def slot_ids_clear)

lemma fired_append: "fired (ss @ ts) w = fired ss w @ fired ts (clear_slots ss w)"
  by (induction ss arbitrary: w) (auto simp: clear_slots_def)

lemma fired_distinct: "distinct ss \<Longrightarrow> fired ss w = concat (map (slot_ids w) ss)"
proof (induction ss arbitrary: w)
  case (Cons s ss)
  have "map (slot_ids (clear_from s 0 w)) ss = map (slot_ids w) ss"
    using Cons.prems by (auto simp: slot_ids_clear)
  then show ?case using Cons by (simp only: fired.simps distinct.simps list.map concat.simps)
qed simp

lemma fired_cleared: "(\<forall>s\<in>set ts. slot_ids w s = []) \<Longrightarrow> fired ts w = []"
  by (induction ts arbitrary: w) (auto simp: slot_ids_clear)

lemma fired_visited: "fired (visited b k) w = concat (map (slot_ids w) (visited b (min k 8192)))"
proof (cases "k \<le> 8192")
  case True
  then show ?thesis by (simp add: fired_distinct visited_distinct)
next
  case False
  then obtain m where m: "k = 8192 + m" using le_Suc_ex [of 8192 k] by auto
  have "set (visited (b + 8192) m) \<subseteq> {..<8192}" by (auto simp: visited_def)
  then have "fired (visited (b + 8192) m) (clear_slots (visited b 8192) w) = []"
    using visited_all by (intro fired_cleared) (auto simp: slot_ids_clear_slots)
  then show ?thesis using m by (simp add: visited_append fired_append fired_distinct visited_distinct)
qed

lemma bucket_step:
  assumes "0 < unat (tw_tick_ns w)" and "unat (tw_now_ns w) + unat (tw_tick_ns w) < 2 ^ 64"
  shows "unat (tw_now_ns w + tw_tick_ns w) = unat (tw_now_ns w) + unat (tw_tick_ns w)"
    and "bucket w (tw_now_ns w + tw_tick_ns w) = bucket w (tw_now_ns w) + 1"
proof -
  show s: "unat (tw_now_ns w + tw_tick_ns w) = unat (tw_now_ns w) + unat (tw_tick_ns w)"
    using assms(2) by (intro unat_add_lem [THEN iffD1]) simp
  show "bucket w (tw_now_ns w + tw_tick_ns w) = bucket w (tw_now_ns w) + 1"
    using assms(1) by (simp add: bucket_def s)
qed

lemma clear_from_clock: "clear_from s i (w\<lparr>tw_now_ns := c\<rparr>) = clear_from s i w\<lparr>tw_now_ns := c\<rparr>"
  by (simp add: clear_from_def cong: if_cong)

lemma fired_clock: "fired ss (w\<lparr>tw_now_ns := c\<rparr>) = fired ss w"
  by (induction ss arbitrary: w) (simp_all add: clear_from_clock)

lemma ticks_due_advance:
  assumes "0 < unat (tw_tick_ns w)" and "unat (tw_tick_ns w) \<le> unat now - unat (tw_now_ns w)"
    and "unat (tw_now_ns w1) = unat (tw_now_ns w) + unat (tw_tick_ns w)" and "tw_tick_ns w1 = tw_tick_ns w"
  shows "ticks_due w now = Suc (ticks_due w1 now)"
proof -
  have "unat now - unat (tw_now_ns w) = unat (tw_tick_ns w) + (unat now - unat (tw_now_ns w1))" using assms(2,3) by simp
  then show ?thesis using assms(1,4) by (simp add: ticks_due_def)
qed

lemma tick_rec_run:
  assumes "0 < unat (tw_tick_ns w)" and "unat now + unat (tw_tick_ns w) < 2 ^ 64"
    and "unat (tw_now_ns w) \<le> unat now"
  shows "tw_tick fst put_wheel note_fired now (w, f) =
    Some (clear_slots (visited (bucket w (tw_now_ns w)) (ticks_due w now))
            (w\<lparr>tw_now_ns := tw_now_ns w + of_nat (ticks_due w now) * tw_tick_ns w\<rparr>),
          f @ fired (visited (bucket w (tw_now_ns w)) (ticks_due w now)) w)"
  using assms
proof (induction "ticks_due w now" arbitrary: w f)
  case 0
  let ?T = "unat (tw_tick_ns w)"
  have "unat now - unat (tw_now_ns w) < ?T" using 0 by (simp add: ticks_due_def div_eq_0_iff)
  moreover have "unat (tw_now_ns w + tw_tick_ns w) = unat (tw_now_ns w) + ?T"
    using 0 by (intro bucket_step) auto
  ultimately have "\<not> tw_now_ns w + tw_tick_ns w \<le> now" using 0 by (simp add: word_le_nat_alt)
  then show ?case using 0 by (subst tw_tick.simps) (simp add: visited_def clear_slots_def)
next
  case (Suc k)
  let ?T = "unat (tw_tick_ns w)" and ?b = "bucket w (tw_now_ns w)" and ?c = "tw_now_ns w + tw_tick_ns w"
  have s: "unat ?c = unat (tw_now_ns w) + ?T" "bucket w ?c = ?b + 1"
    using Suc.prems by (intro bucket_step; simp)+
  have ge: "?T \<le> unat now - unat (tw_now_ns w)"
    using Suc.hyps(2) Suc.prems(1) by (metis Suc_neq_Zero div_less not_le ticks_due_def)
  then have le: "?c \<le> now" using s Suc.prems by (simp add: word_le_nat_alt)
  define w1 where "w1 = clear_from (slot_for w ?c) 0 (w\<lparr>tw_now_ns := ?c\<rparr>)"
  have w1: "tw_now_ns w1 = ?c" "tw_tick_ns w1 = tw_tick_ns w" by (simp_all add: w1_def)
  have k: "ticks_due w1 now = k" using ticks_due_advance [OF Suc.prems(1) ge, of w1] s(1) w1 Suc.hyps(2) by simp
  have b1: "bucket w1 (tw_now_ns w1) = ?b + 1" using s(2) w1 by (simp add: bucket_def)
  have sl: "slot_for w ?c = (?b + 1) mod 8192" using s(2) by (simp add: slot_for_eq bucket_def)
  have "tw_tick fst put_wheel note_fired now (w, f) =
    tw_tick fst put_wheel note_fired now (w1, f @ slot_ids w (slot_for w ?c))"
    using tick_rec_step [OF le] by (simp add: w1_def)
  also have "\<dots> = Some (clear_slots (visited (?b + 1) k) (w1\<lparr>tw_now_ns := ?c + of_nat k * tw_tick_ns w\<rparr>),
      (f @ slot_ids w (slot_for w ?c)) @ fired (visited (?b + 1) k) w1)"
    using Suc.hyps(1) [of w1] Suc.prems k w1 b1 ge s by simp
  also have "fired (visited (?b + 1) k) w1 = fired (visited (?b + 1) k) (clear_from (slot_for w ?c) 0 w)"
    by (simp add: w1_def clear_from_clock fired_clock)
  finally show ?case
    by (simp add: Suc.hyps(2) [symmetric] visited_Suc clear_slots_def sl w1_def clear_from_clock algebra_simps)
qed


subsection \<open>The wheel as a multiset of pending children\<close>

definition pending :: "TimerWheel \<Rightarrow> nat multiset" where
  "pending w = mset (concat (map (slot_ids w) [0..<kFineSlots]))"

definition ids_upto :: "TimerWheel \<Rightarrow> nat \<Rightarrow> nat \<Rightarrow> nat list" where
  "ids_upto w s i = map te_child_id (filter te_active (map (wheel w s) [0..<i]))"

lemma slot_ids_split:
  assumes "i < 32"
  shows "slot_ids w s = ids_upto w s i @
    (if te_active (wheel w s i) then [te_child_id (wheel w s i)] else []) @ ids_from w s (Suc i)"
proof -
  have "slot_ids w s = ids_upto w s i @ ids_from w s i"
    unfolding slot_ids_def ids_from_def ids_upto_def kSlotDepth_eq using assms by (subst upt_split [of i 32]) simp_all
  then show ?thesis by (simp only: ids_from_step [OF assms])
qed

lemma slot_ids_set_entry:
  assumes "i < 32"
  shows "mset (slot_ids (set_entry s i e w) s') = (if s' = s
    then mset (slot_ids w s) - (if te_active (wheel w s i) then {#te_child_id (wheel w s i)#} else {#}) +
      (if te_active e then {#te_child_id e#} else {#})
    else mset (slot_ids w s'))"
proof (cases "s' = s")
  case True
  have "ids_upto (set_entry s i e w) s i = ids_upto w s i"
    "ids_from (set_entry s i e w) s (Suc i) = ids_from w s (Suc i)"
    by (auto simp: ids_upto_def ids_from_def intro!: arg_cong [where f = "\<lambda>xs. map te_child_id (filter te_active xs)"])
  then show ?thesis using True slot_ids_split [OF assms, of w s] slot_ids_split [OF assms, of "set_entry s i e w" s]
    by simp
next
  case False
  then have "wheel (set_entry s i e w) s' = wheel w s'" by (simp add: fun_eq_iff)
  then show ?thesis using False by (simp add: slot_ids_def ids_from_def)
qed

lemma length_slot_ids:
  "length (slot_ids w s) = 32 \<longleftrightarrow> (\<forall>i<32. te_active (wheel w s i))"
  by (simp only: slot_ids_def ids_from_def length_map kSlotDepth_eq length_filter_upt_eq)

lemma pending_slot:
  assumes "s < 8192" and "\<And>s'. s' \<noteq> s \<Longrightarrow> mset (slot_ids w' s') = mset (slot_ids w s')"
  shows "pending w' = pending w - mset (slot_ids w s) + mset (slot_ids w' s)"
proof -
  have split: "[0..<8192] = [0..<s] @ s # [Suc s..<8192]"
    using assms(1) by (rule upt_split_Cons)
  have *: "mset (concat (map (slot_ids w') xs)) = mset (concat (map (slot_ids w) xs))" if "s \<notin> set xs" for xs
    using that assms(2) by (induction xs) auto
  show ?thesis unfolding pending_def kFineSlots_eq split
    using * [of "[0..<s]"] * [of "[Suc s..<8192]"] by simp
qed

lemma insert_slot:
  assumes "tw_insert cid now timeout w = (True, w')"
  shows "mset (slot_ids w' s) = mset (slot_ids w s) + (if s = slot_for w (now + timeout) then {#cid#} else {#})"
proof -
  let ?s = "slot_for w (now + timeout)"
  obtain i where f: "find_from (\<lambda>i. \<not> te_active (wheel w ?s i)) 0 32 = Some i"
    "w' = set_entry ?s i \<lparr>te_child_id = cid, te_deadline_ns = now + timeout, te_active = True\<rparr> w"
    using assms by (auto simp: tw_insert_def Let_def split: option.splits)
  from find_from_Some [OF f(1)] have "i < 32" "\<not> te_active (wheel w ?s i)" by auto
  then show ?thesis by (simp add: f(2) slot_ids_set_entry)
qed


lemma pending_clear_from:
  assumes "s < 8192"
  shows "pending (clear_from s 0 w) + mset (slot_ids w s) = pending w"
proof -
  have "s \<in> set [0..<8192]" using assms by simp
  then obtain xs ys where "[0..<8192] = xs @ s # ys" by (meson split_list)
  then have "mset (slot_ids w s) \<subseteq># pending w" by (simp add: pending_def del: upt_Suc)
  then show ?thesis using pending_slot [OF assms, of "clear_from s 0 w" w] by (simp add: slot_ids_clear)
qed

lemma pending_clear_slots:
  "(\<forall>s\<in>set ss. s < 8192) \<Longrightarrow> pending (clear_slots ss w) + mset (fired ss w) = pending w"
proof (induction ss arbitrary: w)
  case (Cons s ss)
  then show ?case using pending_clear_from [of s w] by (simp add: clear_slots_def union_ac)
qed (simp add: clear_slots_def)

lemma mem_slot_ids: "c \<in> set (slot_ids w s) \<longleftrightarrow> (\<exists>i<32. entry_matches w c s i)"
  by (force simp: slot_ids_def ids_from_def entry_matches_def image_iff)

lemma pending_cancel: "pending (tw_cancel cid w) = pending w - {#cid#}"
proof (cases "find_from (\<lambda>s. find_from (entry_matches w cid s) 0 kSlotDepth \<noteq> None) 0 kFineSlots")
  case None
  then have "cid \<notin># pending w"
    by (auto simp: find_from_None pending_def mem_slot_ids simp del: upt_Suc)
  then show ?thesis using None by (simp add: tw_cancel_def diff_single_trivial)
next
  case (Some s)
  from find_from_Some [OF this] obtain i where s: "s < 8192" and i: "find_from (entry_matches w cid s) 0 kSlotDepth = Some i"
    by auto
  from find_from_Some [OF i] have i32: "i < 32" and m: "entry_matches w cid s i" by auto
  then have act: "te_active (wheel w s i)" "te_child_id (wheel w s i) = cid" by (simp_all add: entry_matches_def)
  have c: "tw_cancel cid w = deactivate s i w" using Some i by (simp add: tw_cancel_def)
  have "cid \<in># mset (slot_ids w s)" using i32 m mem_slot_ids by auto
  moreover have "pending w = pending (clear_from s 0 w) + mset (slot_ids w s)"
    using pending_clear_from [OF s, of w] by simp
  ultimately show ?thesis unfolding c using pending_slot [OF s, of "deactivate s i w" w] act
    by (simp add: deactivate_def slot_ids_set_entry [OF i32])
qed

lemma visited_mem:
  assumes "b < d" and "d \<le> b + 8192"
  shows "d mod 8192 \<in> set (visited b (min k 8192)) \<longleftrightarrow> d \<le> b + k"
proof -
  obtain j where j: "d = b + 1 + j" using assms(1) less_imp_Suc_add [of b d] by auto
  then have j8: "j < 8192" using assms(2) by simp
  show ?thesis
  proof
    assume "d mod 8192 \<in> set (visited b (min k 8192))"
    then obtain i where i: "i < min k 8192" "(b + 1 + i) mod 8192 = (b + 1 + j) mod 8192"
      using j by (auto simp: visited_def)
    then have "i = j" using j8 ring_inj [of i j 8192 "b + 1"] ring_inj [of j i 8192 "b + 1"]
      by (cases "i \<le> j") auto
    then show "d \<le> b + k" using i j by simp
  next
    assume "d \<le> b + k"
    then have "j < min k 8192" using j j8 by simp
    then show "d mod 8192 \<in> set (visited b (min k 8192))" unfolding visited_def j by auto
  qed
qed

lemma concat_insert_slot:
  assumes "tw_insert cid now timeout w = (True, w')" and "distinct ss"
  shows "mset (concat (map (slot_ids w') ss)) = mset (concat (map (slot_ids w) ss)) +
    (if slot_for w (now + timeout) \<in> set ss then {#cid#} else {#})"
  using assms(2) by (induction ss) (auto simp: insert_slot [OF assms(1)])

lemma clear_slots_frame [simp]:
  "tw_now_ns (clear_slots ss w) = tw_now_ns w" "tw_tick_ns (clear_slots ss w) = tw_tick_ns w"
  by (induction ss arbitrary: w) (simp_all add: clear_slots_def)

lemma pending_clock [simp]: "pending (w\<lparr>tw_now_ns := c\<rparr>) = pending w"
  by (simp add: pending_def cong: map_cong)

lemma clock_after:
  assumes "0 < unat (tw_tick_ns w)" and "unat (tw_now_ns w) \<le> unat now"
  defines "c \<equiv> tw_now_ns w + of_nat (ticks_due w now) * tw_tick_ns w"
  shows "unat c = unat (tw_now_ns w) + ticks_due w now * unat (tw_tick_ns w)"
    and "bucket w c = bucket w (tw_now_ns w) + ticks_due w now"
    and "unat c \<le> unat now" and "unat now < unat c + unat (tw_tick_ns w)"
proof -
  let ?T = "unat (tw_tick_ns w)" and ?k = "ticks_due w now"
  have le: "?k * ?T \<le> unat now - unat (tw_now_ns w)" by (simp add: ticks_due_def)
  have "unat now - unat (tw_now_ns w) < ?k * ?T + ?T"
    using assms(1) by (simp add: ticks_due_def dividend_less_div_times add.commute)
  moreover have "c = of_nat (unat (tw_now_ns w) + ?k * ?T)" by (simp add: c_def)
  then have "unat c = (unat (tw_now_ns w) + ?k * ?T) mod 2 ^ 64"
    by (simp only: unat_of_nat) simp
  moreover have "unat (tw_now_ns w) + ?k * ?T < 2 ^ 64"
    using le assms(2) unsigned_less [where 'a = nat and w = now] by simp
  ultimately show u: "unat c = unat (tw_now_ns w) + ?k * ?T" and "unat c \<le> unat now"
    and "unat now < unat c + ?T"
    using le assms(2) by simp_all
  show "bucket w c = bucket w (tw_now_ns w) + ?k" using assms(1) by (simp add: bucket_def u)
qed

subsection \<open>Properties\<close>




text \<open>The wheel of the witnesses: 1 ms ticks, clock at 5.5 ms.\<close>

definition demo_wheel :: TimerWheel where
  "demo_wheel = (tw_init 1000000)\<lparr>tw_now_ns := 5500000\<rparr>"


lemma demo_insert: "\<exists>w1. tw_insert 7 5600000 3000000 demo_wheel = (True, w1)"
  by (simp add: tw_insert_def Let_def find_from.simps demo_wheel_def tw_init_def empty_entry_def)


text \<open>C30: The wheel implements a multiset of pending children: \<^verbatim>\<open>insert\<close> adds the child, unless all 32
  entries of the deadline's slot are taken, when it returns false and changes nothing; \<^verbatim>\<open>cancel\<close>
  removes one occurrence of the child, and does nothing when there is none.\<close>

theorem timer_insert_cancel_spec:
  "(case tw_insert cid now timeout w of
      (True, w') \<Rightarrow> length (slot_ids w (slot_for w (now + timeout))) < kSlotDepth \<and>
        pending w' = pending w + {#cid#}
    | (False, w') \<Rightarrow> length (slot_ids w (slot_for w (now + timeout))) = kSlotDepth \<and> w' = w) \<and>
   pending (tw_cancel cid w) = pending w - {#cid#}"
proof
  let ?s = "slot_for w (now + timeout)"
  have le: "length (slot_ids w ?s) \<le> 32"
    by (metis (no_types) slot_ids_def ids_from_def length_map length_filter_le length_upt kSlotDepth_eq diff_zero)
  obtain ok w' where r: "tw_insert cid now timeout w = (ok, w')" by force
  show "case tw_insert cid now timeout w of
      (True, w') \<Rightarrow> length (slot_ids w ?s) < kSlotDepth \<and> pending w' = pending w + {#cid#}
    | (False, w') \<Rightarrow> length (slot_ids w ?s) = kSlotDepth \<and> w' = w"
  proof (cases ok)
    case True
    have "\<exists>i<32. \<not> te_active (wheel w ?s i)"
      using r True by (auto simp: tw_insert_def Let_def dest: find_from_Some split: option.splits)
    then have "length (slot_ids w ?s) \<noteq> 32" using length_slot_ids by blast
    moreover have "mset (slot_ids w' ?s) = mset (slot_ids w ?s) + {#cid#}"
      "\<And>s'. s' \<noteq> ?s \<Longrightarrow> mset (slot_ids w' s') = mset (slot_ids w s')"
      using insert_slot [of cid now timeout w w'] r True by auto
    moreover have "pending w = pending (clear_from ?s 0 w) + mset (slot_ids w ?s)"
      using pending_clear_from [OF slot_for_less, of w] by simp
    ultimately show ?thesis using r True le pending_slot [of ?s w' w] slot_for_less [of w "now + timeout"] by simp
  next
    case False
    then show ?thesis using r length_slot_ids [of w ?s]
      by (auto simp: tw_insert_def Let_def find_from_None split: option.splits)
  qed
  show "pending (tw_cancel cid w) = pending w - {#cid#}"
    by (rule pending_cancel)
qed

end
