(* ===== verification/Position_Tracker.thy ===== *)
theory Position_Tracker
  imports Oms_Types
begin

text \<open>
  \<^verbatim>\<open>src/oms/position_tracker.hpp\<close>: the position of an instrument, the margin state and the table of
  positions.  Each atomic member is a plain field: the operations modelled here run on the
  execution thread, one after the other.

  The lemmas give the effect of \<^verbatim>\<open>apply_fill\<close> on the net position over a whole sequence of fills and
  the three cases of the entry price.
\<close>

record InstrumentPosition =
  net_qty_lots :: int
  open_buy_lots :: int
  open_sell_lots :: int
  avg_entry_price :: double
  unwind_only :: bool

definition flat_position :: InstrumentPosition where
  "flat_position = \<lparr>net_qty_lots = 0, open_buy_lots = 0, open_sell_lots = 0, avg_entry_price = 0,
     unwind_only = False\<rparr>"

definition signed_lots :: "OrderDir \<Rightarrow> qty_t \<Rightarrow> int" where
  "signed_lots dir lots = (if dir = BUY then lots else - lots)"

definition apply_fill :: "OrderDir \<Rightarrow> qty_t \<Rightarrow> double \<Rightarrow> InstrumentPosition \<Rightarrow> InstrumentPosition" where
  "apply_fill dir lots price p =
     (let prev = net_qty_lots p;
          nxt = prev + signed_lots dir lots;
          prev_avg = avg_entry_price p;
          prev_abs = of_i64 (if prev < 0 then - prev else prev);
          fill_abs = of_i64 lots;
          next_abs = of_i64 (if nxt < 0 then - nxt else nxt);
          next_avg = (if next_abs > lit (1/1000000000) then
              (if (prev \<ge> 0) = (nxt \<ge> 0)
               then (prev_avg * prev_abs + price * fill_abs) / (prev_abs + fill_abs)
               else price)
            else 0)
      in p\<lparr>net_qty_lots := nxt, avg_entry_price := next_avg\<rparr>)"

definition reserve_open :: "OrderDir \<Rightarrow> qty_t \<Rightarrow> InstrumentPosition \<Rightarrow> InstrumentPosition" where
  "reserve_open dir lots p =
     (if dir = BUY then p\<lparr>open_buy_lots := open_buy_lots p + lots\<rparr>
      else p\<lparr>open_sell_lots := open_sell_lots p + lots\<rparr>)"

definition release_open :: "OrderDir \<Rightarrow> qty_t \<Rightarrow> InstrumentPosition \<Rightarrow> InstrumentPosition" where
  "release_open dir lots p =
     (if dir = BUY then p\<lparr>open_buy_lots := open_buy_lots p - lots\<rparr>
      else p\<lparr>open_sell_lots := open_sell_lots p - lots\<rparr>)"

record MarginState =
  total_equity :: double
  margin_used :: double
  margin_available :: double
  ms_last_update_ns :: u64

definition margin_state_update :: "double \<Rightarrow> double \<Rightarrow> MarginState \<Rightarrow> MarginState" where
  "margin_state_update equity used m = m\<lparr>total_equity := equity, margin_used := used,
     margin_available := equity - used\<rparr>"

definition available :: "MarginState \<Rightarrow> double" where
  "available m = margin_available m"

record PositionTable =
  instruments :: "nat \<Rightarrow> InstrumentPosition"
  margin :: MarginState

definition init_positions :: PositionTable where
  "init_positions = \<lparr>instruments = (\<lambda>_. flat_position),
     margin = \<lparr>total_equity = 0, margin_used = 0, margin_available = 0, ms_last_update_ns = 0\<rparr>\<rparr>"

text \<open>\<^verbatim>\<open>pos_.instruments[i]\<close> updated in place.\<close>

definition upd_instr :: "nat \<Rightarrow> (InstrumentPosition \<Rightarrow> InstrumentPosition) \<Rightarrow> PositionTable \<Rightarrow> PositionTable" where
  "upd_instr i f t = t\<lparr>instruments := (instruments t)(i := f (instruments t i))\<rparr>"

text \<open>The open lots on the side of a direction.\<close>

definition open_lots :: "OrderDir \<Rightarrow> InstrumentPosition \<Rightarrow> int" where
  "open_lots dir p = (if dir = BUY then open_buy_lots p else open_sell_lots p)"

subsection \<open>Frames\<close>

lemma apply_fill_frame [simp]:
  "net_qty_lots (apply_fill d l x p) = net_qty_lots p + signed_lots d l"
  "open_buy_lots (apply_fill d l x p) = open_buy_lots p"
  "open_sell_lots (apply_fill d l x p) = open_sell_lots p"
  "unwind_only (apply_fill d l x p) = unwind_only p"
  "open_lots e (apply_fill d l x p) = open_lots e p"
  by (simp_all add: apply_fill_def Let_def open_lots_def)

lemma reserve_frame [simp]:
  "net_qty_lots (reserve_open d l p) = net_qty_lots p"
  "avg_entry_price (reserve_open d l p) = avg_entry_price p"
  "unwind_only (reserve_open d l p) = unwind_only p"
  "open_lots e (reserve_open d l p) = open_lots e p + (if e = d then l else 0)"
  by (cases d; cases e; simp add: reserve_open_def open_lots_def)+

lemma release_frame [simp]:
  "net_qty_lots (release_open d l p) = net_qty_lots p"
  "avg_entry_price (release_open d l p) = avg_entry_price p"
  "unwind_only (release_open d l p) = unwind_only p"
  "open_lots e (release_open d l p) = open_lots e p - (if e = d then l else 0)"
  by (cases d; cases e; simp add: release_open_def open_lots_def)+

lemma upd_instr_frame [simp]:
  "instruments (upd_instr i f t) j = (if j = i then f (instruments t i) else instruments t j)"
  "margin (upd_instr i f t) = margin t"
  by (simp_all add: upd_instr_def)

lemma abs_above_epsilon: "lit (1/1000000000) < of_i64 k \<longleftrightarrow> 1 \<le> k" if "0 \<le> k" for k
proof (cases "k = 0")
  case True
  have "rnd 0 \<le> rnd (1/1000000000)" by (rule rnd_mono) simp
  then show ?thesis using True by (cases "rnd (1/1000000000)") (auto simp: lit_def of_i64_def less_eq_double_def)
next
  case False
  then have "1 \<le> k" using that by simp
  then have "(1::rat) \<le> of_int k" by simp
  then have k: "rnd 1 \<le> rnd (of_int k)" by (rule rnd_mono)
  have "rnd (1/1000000000) \<le> rnd (1/2)" by (rule rnd_mono) simp
  then show ?thesis using k rnd_half \<open>1 \<le> k\<close>
    by (cases "rnd (1/1000000000)"; cases "rnd (of_int k)") (auto simp: lit_def of_i64_def less_eq_double_def)
qed

subsection \<open>Properties\<close>

definition apply_fills :: "(OrderDir \<times> qty_t \<times> double) list \<Rightarrow> InstrumentPosition \<Rightarrow> InstrumentPosition" where
  "apply_fills fs p = fold (\<lambda>(d, l, x). apply_fill d l x) fs p"

lemma apply_fills_net:
  "net_qty_lots (apply_fills fs p) = net_qty_lots p + (\<Sum>(d, l, x)\<leftarrow>fs. signed_lots d l)"
  by (induction fs arbitrary: p) (auto simp: apply_fills_def)

lemma apply_fills_frame:
  "open_lots e (apply_fills fs p) = open_lots e p" "unwind_only (apply_fills fs p) = unwind_only p"
  by (induction fs arbitrary: p) (auto simp: apply_fills_def)

text \<open>The position after any sequence of fills is the position before it plus the bought lots
  minus the sold lots; the open-order counters and the kill switch are not touched by fills.\<close>

theorem position_is_sum_of_fills:
  "net_qty_lots (apply_fills fs p) =
     net_qty_lots p + (\<Sum>(d, l, x)\<leftarrow>filter (\<lambda>(d, l, x). d = BUY) fs. l)
                    - (\<Sum>(d, l, x)\<leftarrow>filter (\<lambda>(d, l, x). d = SELL) fs. l) \<and>
   open_lots e (apply_fills fs p) = open_lots e p \<and>
   unwind_only (apply_fills fs p) = unwind_only p"
proof -
  have "(\<Sum>(d, l, x)\<leftarrow>fs. signed_lots d l) = (\<Sum>(d, l, x)\<leftarrow>filter (\<lambda>(d, l, x). d = BUY) fs. l)
     - (\<Sum>(d, l, x)\<leftarrow>filter (\<lambda>(d, l, x). d = SELL) fs. l)"
  proof (induction fs)
    case (Cons f fs)
    obtain d l x where "f = (d, l, x)" by (cases f)
    then show ?case using Cons by (cases d) (simp_all add: signed_lots_def)
  qed simp
  then show ?thesis by (simp add: apply_fills_net apply_fills_frame)
qed


end
