(* ===== verification/Risk_Engine.thy ===== *)
theory Risk_Engine
  imports Position_Tracker
begin

text \<open>
  \<^verbatim>\<open>src/oms/risk_engine.hpp\<close>: the pre-trade checks and the reduce-only clamp.  The engine holds its
  own copy of the limits and of the instrument table and reads the live position table.

  The lemmas: when an order is accepted and what that says about the position it can produce; and
  that reduce-only orders clamped against the open-order counters can never turn a position over,
  however they fill.
\<close>

record RiskLimits =
  max_order_lots :: "nat \<Rightarrow> qty_t"
  max_net_lots :: "nat \<Rightarrow> qty_t"
  max_notional_usd :: double
  min_margin_required :: double

datatype RiskRejectReason = RR_OK | FAT_FINGER | POSITION_LIMIT | RR_MARGIN | NOTIONAL | DISABLED

record PreTradeRiskEngine =
  re_limits :: RiskLimits
  re_instruments :: InstrumentTable

definition check_fat_finger :: "PreTradeRiskEngine \<Rightarrow> StrategyOrderSignal \<Rightarrow> RiskRejectReason" where
  "check_fat_finger e sig =
     (let mx = max_order_lots (re_limits e) (sig_instr_id sig)
      in if mx > 0 \<and> sig_qty_lots sig > mx then FAT_FINGER else RR_OK)"

definition check_position :: "PreTradeRiskEngine \<Rightarrow> PositionTable \<Rightarrow> StrategyOrderSignal \<Rightarrow> RiskRejectReason" where
  "check_position e pos sig =
     (let mx = max_net_lots (re_limits e) (sig_instr_id sig)
      in if mx = 0 then RR_OK
         else let net = net_qty_lots (instruments pos (sig_instr_id sig));
                  proposed = (if sig_dir sig = BUY then net + sig_qty_lots sig else net - sig_qty_lots sig);
                  abs_proposed = (if proposed < 0 then - proposed else proposed)
           in if abs_proposed > mx then POSITION_LIMIT else RR_OK)"

definition order_notional :: "InstrumentTable \<Rightarrow> StrategyOrderSignal \<Rightarrow> double" where
  "order_notional t sig = of_i64 (sig_qty_lots sig) * lot_size t (sig_instr_id sig) * sig_limit_price_usd sig"

definition check_margin :: "PreTradeRiskEngine \<Rightarrow> PositionTable \<Rightarrow> StrategyOrderSignal \<Rightarrow> RiskRejectReason" where
  "check_margin e pos sig =
     (if max_notional_usd (re_limits e) > 0 \<and> sig_limit_price_usd sig > 0 \<and>
         order_notional (re_instruments e) sig > max_notional_usd (re_limits e)
      then NOTIONAL
      else if available (margin pos) < min_margin_required (re_limits e) then RR_MARGIN else RR_OK)"

definition validate :: "PreTradeRiskEngine \<Rightarrow> PositionTable \<Rightarrow> StrategyOrderSignal \<Rightarrow> RiskRejectReason" where
  "validate e pos sig =
     (if sig_instr_id sig \<ge> kMaxInstruments then DISABLED
      else if check_fat_finger e sig \<noteq> RR_OK then FAT_FINGER
      else if check_position e pos sig \<noteq> RR_OK then POSITION_LIMIT
      else let margin_result = check_margin e pos sig
        in if margin_result \<noteq> RR_OK then margin_result else RR_OK)"

definition update_limits :: "RiskLimits \<Rightarrow> PreTradeRiskEngine \<Rightarrow> PreTradeRiskEngine" where
  "update_limits l e = e\<lparr>re_limits := l\<rparr>"

definition risk_update_instruments :: "InstrumentTable \<Rightarrow> PreTradeRiskEngine \<Rightarrow> PreTradeRiskEngine" where
  "risk_update_instruments t e = e\<lparr>re_instruments := t\<rparr>"

definition clamp_reduce_only_impl :: "PositionTable \<Rightarrow> nat \<Rightarrow> OrderDir \<Rightarrow> qty_t \<Rightarrow> bool \<Rightarrow> qty_t" where
  "clamp_reduce_only_impl pos instr dir qty requested =
     (let p = instruments pos instr; forced = unwind_only p
      in if \<not> requested \<and> \<not> forced then qty
         else let net = net_qty_lots p;
                  reduces_something = (dir = BUY \<and> net < 0) \<or> (dir = SELL \<and> net > 0)
           in if \<not> reduces_something then 0
              else let already_committed = (if dir = BUY then open_buy_lots p else open_sell_lots p);
                       abs_net = (if net < 0 then - net else net);
                       headroom = abs_net - already_committed
                in if headroom \<le> 0 then 0
                   else if qty < headroom then qty else headroom)"

text \<open>The two overloads of \<^verbatim>\<open>clamp_reduce_only\<close>.\<close>

definition clamp_reduce_only :: "PositionTable \<Rightarrow> nat \<Rightarrow> OrderDir \<Rightarrow> qty_t \<Rightarrow> bool \<Rightarrow> qty_t" where
  "clamp_reduce_only pos instr dir qty requested =
     (if instr \<ge> kMaxInstruments then qty else clamp_reduce_only_impl pos instr dir qty requested)"

definition clamp_reduce_only_sig :: "PositionTable \<Rightarrow> StrategyOrderSignal \<Rightarrow> qty_t" where
  "clamp_reduce_only_sig pos sig =
     (if sig_instr_id sig \<ge> kMaxInstruments then sig_qty_lots sig
      else clamp_reduce_only_impl pos (sig_instr_id sig) (sig_dir sig) (sig_qty_lots sig) (sig_reduce_only sig))"

lemma clamp_sig_eq:
  "clamp_reduce_only_sig pos sig =
     clamp_reduce_only pos (sig_instr_id sig) (sig_dir sig) (sig_qty_lots sig) (sig_reduce_only sig)"
  by (simp add: clamp_reduce_only_sig_def clamp_reduce_only_def)

subsection \<open>Validation\<close>

lemma check_fat_finger_OK:
  "check_fat_finger e sig = RR_OK \<longleftrightarrow>
     (let mx = max_order_lots (re_limits e) (sig_instr_id sig) in mx \<le> 0 \<or> sig_qty_lots sig \<le> mx)"
  by (simp add: check_fat_finger_def Let_def linorder_not_less)

lemma check_position_OK:
  "check_position e pos sig = RR_OK \<longleftrightarrow>
     (let mx = max_net_lots (re_limits e) (sig_instr_id sig)
      in mx = 0 \<or> \<bar>net_qty_lots (instruments pos (sig_instr_id sig)) + signed_lots (sig_dir sig) (sig_qty_lots sig)\<bar> \<le> mx)"
  by (auto simp: check_position_def signed_lots_def Let_def abs_if)

lemma check_margin_cases:
  "check_margin e pos sig \<in> {RR_OK, RR_MARGIN, NOTIONAL}"
  by (simp add: check_margin_def)



subsection \<open>The reduce-only clamp\<close>

lemma clamp_reduce_only_eq:
  assumes "instr < 64" and "requested \<or> unwind_only (instruments pos instr)"
  shows "clamp_reduce_only pos instr dir qty requested =
    (let p = instruments pos instr; toward_flat = - signed_lots dir (net_qty_lots p)
     in if toward_flat \<le> 0 then 0 else if toward_flat \<le> open_lots dir p then 0
        else min qty (toward_flat - open_lots dir p))"
  using assms by (cases dir) (auto simp: clamp_reduce_only_def clamp_reduce_only_impl_def Let_def signed_lots_def open_lots_def)

text \<open>
  The life of one instrument under reduce-only orders on one side: an order is submitted (clamped
  against the live position and reserved), some reserved lots fill, some are released unfilled.
\<close>

inductive reduce_step :: "OrderDir \<Rightarrow> InstrumentPosition \<Rightarrow> InstrumentPosition \<Rightarrow> bool" for dir where
  submit: "instruments pos i = p \<Longrightarrow> i < kMaxInstruments \<Longrightarrow> requested \<or> unwind_only p \<Longrightarrow> 0 \<le> qty \<Longrightarrow>
    reduce_step dir p (reserve_open dir (clamp_reduce_only pos i dir qty requested) p)"
| fill: "0 \<le> lots \<Longrightarrow> lots \<le> open_lots dir p \<Longrightarrow>
    reduce_step dir p (release_open dir lots (apply_fill dir lots price p))"
| release: "0 \<le> lots \<Longrightarrow> lots \<le> open_lots dir p \<Longrightarrow> reduce_step dir p (release_open dir lots p)"

inductive_cases reduce_stepE: "reduce_step dir p p'"

definition reduce_inv :: "OrderDir \<Rightarrow> InstrumentPosition \<Rightarrow> bool" where
  "reduce_inv dir p \<longleftrightarrow> 0 \<le> open_lots dir p \<and>
     (open_lots dir p = 0 \<or> open_lots dir p \<le> - signed_lots dir (net_qty_lots p))"

lemma signed_lots_add: "signed_lots d (a + b) = signed_lots d a + signed_lots d b"
  by (simp add: signed_lots_def)

lemma signed_lots_twice [simp]: "signed_lots d (signed_lots d a) = a"
  by (simp add: signed_lots_def)

lemma reduce_step_inv:
  assumes "reduce_step dir p p'" and "reduce_inv dir p"
  shows "reduce_inv dir p'"
  using assms
proof (cases rule: reduce_step.cases)
  case (submit pos i requested qty)
  then show ?thesis using assms(2)
    by (auto simp: reduce_inv_def clamp_reduce_only_eq Let_def min_def)
next
  case (fill lots price)
  then show ?thesis using assms(2) by (auto simp: reduce_inv_def signed_lots_add)
next
  case (release lots)
  then show ?thesis using assms(2) by (auto simp: reduce_inv_def)
qed

lemma reduce_step_net:
  assumes "reduce_step dir p p'" and "reduce_inv dir p"
  shows "- signed_lots dir (net_qty_lots p') \<le> - signed_lots dir (net_qty_lots p) \<and>
    (0 \<le> - signed_lots dir (net_qty_lots p) \<longrightarrow> 0 \<le> - signed_lots dir (net_qty_lots p'))"
  using assms
proof (cases rule: reduce_step.cases)
  case (fill lots price)
  then show ?thesis using assms(2) by (auto simp: reduce_inv_def signed_lots_add)
qed simp_all

text \<open>C13: Reduce-only orders never grow or turn over a position.  Start from a long position with no
  open sell (or a short one with no open buy) and let any number of reduce-only orders be
  submitted, partly filled and partly released in any order, with every fill and release within
  what is reserved: the position only moves towards flat and never crosses it.\<close>

theorem reduce_only_never_flips:
  assumes "(reduce_step dir)\<^sup>*\<^sup>* p p'" and "open_lots dir p = 0"
    and "(dir = SELL \<and> 0 \<le> net_qty_lots p) \<or> (dir = BUY \<and> net_qty_lots p \<le> 0)"
  shows "\<bar>net_qty_lots p'\<bar> \<le> \<bar>net_qty_lots p\<bar> \<and>
    (dir = SELL \<longrightarrow> 0 \<le> net_qty_lots p') \<and> (dir = BUY \<longrightarrow> net_qty_lots p' \<le> 0)"
proof -
  let ?t = "\<lambda>p. - signed_lots dir (net_qty_lots p)"
  have "reduce_inv dir p' \<and> ?t p' \<le> ?t p \<and> 0 \<le> ?t p'"
    using assms(1)
  proof (induction rule: rtranclp_induct)
    case base
    then show ?case using assms(2,3) by (auto simp: reduce_inv_def signed_lots_def)
  next
    case (step y z)
    then show ?case using reduce_step_inv [of dir y z] reduce_step_net [of dir y z] by auto
  qed
  then show ?thesis using assms(3) by (auto simp: signed_lots_def split: if_splits)
qed


theorem reduce_only_never_flips_witness:
  "\<exists>p'. (reduce_step SELL)\<^sup>*\<^sup>* (flat_position\<lparr>net_qty_lots := 10\<rparr>) p' \<and> 0 \<le> net_qty_lots p' \<and>
     net_qty_lots p' = 3"
proof -
  let ?p = "flat_position\<lparr>net_qty_lots := 10\<rparr>"
  let ?pos = "init_positions\<lparr>instruments := (\<lambda>_. ?p)\<rparr>"
  let ?q = "reserve_open SELL (clamp_reduce_only ?pos 0 SELL 7 True) ?p"
  have 1: "reduce_step SELL ?p ?q" by (rule reduce_step.submit) simp_all
  have o: "open_lots SELL ?q = 7" "net_qty_lots ?q = 10"
    by (simp_all add: clamp_reduce_only_eq open_lots_def reserve_open_def flat_position_def signed_lots_def Let_def)
  have 2: "reduce_step SELL ?q (release_open SELL 7 (apply_fill SELL 7 (Fin 1) ?q))"
    by (rule reduce_step.fill, simp) (simp only: o, simp?)
  let ?r = "release_open SELL 7 (apply_fill SELL 7 (Fin 1) ?q)"
  have r: "(reduce_step SELL)\<^sup>*\<^sup>* ?p ?r" using 1 2 by (meson r_into_rtranclp rtranclp_trans)
  from reduce_only_never_flips [OF r] have "0 \<le> net_qty_lots ?r"
    by (simp add: open_lots_def flat_position_def)
  then show ?thesis using r by (intro exI [of _ ?r]) (simp add: o(2) signed_lots_def flat_position_def)
qed

end
