(* ===== verification/Notional_Gate.thy ===== *)
theory Notional_Gate
  imports Risk_Engine
begin

text \<open>
  \<^verbatim>\<open>src/oms/notional_gate.hpp\<close>: automatic approval, hard block, or a question to the operator on
  standard input.  The input not yet read is part of the state: \<open>approve\<close> returns the decision
  and what is left to read.  The text printed to the terminal and the log lines are left out.

  The lemmas give the decision in closed form: in particular no answer of the operator approves an
  order above the hard limit.
\<close>

record NotionalGateConfig =
  auto_approve_usd :: double
  hard_block_usd :: double

definition default_gate_config :: NotionalGateConfig where
  "default_gate_config = \<lparr>auto_approve_usd = lit 50000, hard_block_usd = lit 500000\<rparr>"

record NotionalConfirmationGate =
  ng_cfg :: NotionalGateConfig
  ng_instruments :: InstrumentTable

text \<open>\<^verbatim>\<open>std::fgets(buf, n, stdin)\<close>: at most \<open>n - 1\<close> characters, up to and including a newline;
  \<open>None\<close> at the end of the input.\<close>

fun read_line :: "nat \<Rightarrow> string \<Rightarrow> string \<times> string" where
  "read_line 0 inp = ([], inp)"
| "read_line (Suc n) [] = ([], [])"
| "read_line (Suc n) (c # inp) =
     (if c = CHR 0x0A then ([c], inp) else (let (l, r) = read_line n inp in (c # l, r)))"

definition fgets :: "nat \<Rightarrow> string \<Rightarrow> (string \<times> string) option" where
  "fgets n inp = (if inp = [] then None else Some (read_line (n - 1) inp))"

text \<open>The string in a character buffer ends before the first NUL.\<close>

definition c_str :: "string \<Rightarrow> string" where
  "c_str buf = takeWhile (\<lambda>c. c \<noteq> CHR 0x00) buf"

definition strip_newline :: "string \<Rightarrow> string" where
  "strip_newline s = takeWhile (\<lambda>c. c \<noteq> CHR 0x0A) s"

text \<open>\<^verbatim>\<open>std::strncmp(buf, "yes", 3) == 0\<close>.\<close>

definition is_yes :: "string \<Rightarrow> bool" where
  "is_yes s \<longleftrightarrow> take 3 s = ''yes''"

definition prompt_confirmation :: "string \<Rightarrow> bool \<times> string" where
  "prompt_confirmation inp =
     (case fgets 8 inp of
        None \<Rightarrow> (False, inp)
      | Some (buf, rest) \<Rightarrow> (is_yes (strip_newline (c_str buf)), rest))"

definition approve :: "NotionalConfirmationGate \<Rightarrow> StrategyOrderSignal \<Rightarrow> string \<Rightarrow> bool \<times> string" where
  "approve g sig inp =
     (if sig_limit_price_usd sig \<le> 0 then (True, inp)
      else let notional = of_i64 (sig_qty_lots sig) * lot_size (ng_instruments g) (sig_instr_id sig) *
                 sig_limit_price_usd sig
        in if hard_block_usd (ng_cfg g) > 0 \<and> notional > hard_block_usd (ng_cfg g) then (False, inp)
           else if notional \<le> auto_approve_usd (ng_cfg g) then (True, inp)
           else prompt_confirmation inp)"

definition update_config :: "NotionalGateConfig \<Rightarrow> NotionalConfirmationGate \<Rightarrow> NotionalConfirmationGate" where
  "update_config c g = g\<lparr>ng_cfg := c\<rparr>"

definition gate_update_instruments :: "InstrumentTable \<Rightarrow> NotionalConfirmationGate \<Rightarrow> NotionalConfirmationGate" where
  "gate_update_instruments t g = g\<lparr>ng_instruments := t\<rparr>"

subsection \<open>Reading the answer\<close>

lemma read_line_append: "fst (read_line n inp) @ snd (read_line n inp) = inp"
  by (induction n inp rule: read_line.induct) (auto simp: Let_def split: prod.splits)

lemma read_line_fst:
  "fst (read_line n inp) = take n (takeWhile (\<lambda>c. c \<noteq> CHR 0x0A) inp @
     take 1 (dropWhile (\<lambda>c. c \<noteq> CHR 0x0A) inp))"
  by (induction n inp rule: read_line.induct) (auto simp: Let_def take_Cons' split: prod.splits)

lemma take_takeWhile_eq:
  "(\<forall>c\<in>set ys. P c) \<Longrightarrow> take (length ys) (takeWhile P xs) = ys \<longleftrightarrow> take (length ys) xs = ys"
proof (induction ys arbitrary: xs)
  case (Cons y ys)
  then show ?case by (cases xs) auto
qed simp

lemma is_yes_line:
  assumes "3 \<le> n"
  shows "is_yes (strip_newline (c_str (fst (read_line n inp)))) \<longleftrightarrow> take 3 inp = ''yes''"
proof -
  have "is_yes (strip_newline (c_str (fst (read_line n inp)))) \<longleftrightarrow> take 3 (fst (read_line n inp)) = ''yes''"
    using take_takeWhile_eq [of "''yes''" "\<lambda>c. c \<noteq> CHR 0x0A" "c_str (fst (read_line n inp))"]
      take_takeWhile_eq [of "''yes''" "\<lambda>c. c \<noteq> CHR 0x00" "fst (read_line n inp)"]
    by (simp add: is_yes_def strip_newline_def c_str_def numeral_3_eq_3)
  also have "\<dots> \<longleftrightarrow> take 3 inp = ''yes''"
  proof
    assume a: "take 3 (fst (read_line n inp)) = ''yes''"
    then have "3 \<le> length (fst (read_line n inp))" by (metis length_take list.size(3,4) min_def nle_le Suc_eq_numeral numeral_3_eq_3 plus_1_eq_Suc One_nat_def add.right_neutral add_Suc_right)
    then show "take 3 inp = ''yes''"
      using a read_line_append [of n inp] by (metis append_Nil2 diff_is_0_eq take0 take_append)
  next
    assume a: "take 3 inp = ''yes''"
    then obtain r where r: "inp = ''yes'' @ r" by (metis append_take_drop_id)
    obtain m where "n = Suc (Suc (Suc m))" using assms by (metis Suc_le_D numeral_3_eq_3 Suc_le_mono)
    then show "take 3 (fst (read_line n inp)) = ''yes''"
      by (simp add: r Let_def split: prod.splits)
  qed
  finally show ?thesis .
qed

subsection \<open>Properties\<close>

lemma prompt_yes: "fst (prompt_confirmation inp) \<longleftrightarrow> take 3 inp = ''yes''"
  using is_yes_line [of 7 inp] by (auto simp: prompt_confirmation_def fgets_def split: prod.splits)

text \<open>C27: The decision of the gate.  A market order passes; above the hard limit the answer is no
  whatever the operator has typed; up to the automatic threshold it is yes; in between it is yes
  exactly when the pending input begins with \<^verbatim>\<open>yes\<close>.  Only the last case consumes input, and
  what it consumes is at most seven characters.\<close>

theorem approve_decision:
  "let n = order_notional (ng_instruments g) sig; C = ng_cfg g; (ok, rest) = approve g sig inp
   in ok = (if sig_limit_price_usd sig \<le> 0 then True
            else if 0 < hard_block_usd C \<and> hard_block_usd C < n then False
            else if n \<le> auto_approve_usd C then True
            else take 3 inp = ''yes'') \<and>
      (\<exists>used. inp = used @ rest \<and> length used \<le> 7 \<and>
        (used = [] \<or> (\<not> sig_limit_price_usd sig \<le> 0 \<and> \<not> n \<le> auto_approve_usd C \<and>
                      \<not> (0 < hard_block_usd C \<and> hard_block_usd C < n))))"
proof -
  have l: "length (fst (read_line 7 inp)) \<le> 7" by (simp add: read_line_fst)
  have "\<exists>used. inp = used @ snd (prompt_confirmation inp) \<and> length used \<le> 7"
    using read_line_append [of 7 inp] l by (auto simp: prompt_confirmation_def fgets_def split: prod.splits)
  moreover note prompt_yes [of inp]
  ultimately show ?thesis
    by (auto simp: approve_def order_notional_def Let_def split: prod.splits)
qed

end
