(* ===== verification/Execution_Core.thy ===== *)
theory Execution_Core
  imports Timer_Wheel Spsc_Queue Notional_Gate Margin_Monitor Book_Snapshot Routing_Engine
begin

text \<open>
  \<^verbatim>\<open>src/oms/execution_core.hpp\<close> and \<^verbatim>\<open>execution_core.cpp\<close>: the execution core, which wires the pools, the
  position table, the pre-trade checks, the router, the timer wheel, the margin monitor and the
  queues together.

  The state is one record.  Every handler takes the state and returns the new one, or \<open>None\<close> for a
  fault (a failed \<^verbatim>\<open>assert\<close> or an index outside an array) in any call it makes.  References to a
  parent or a child order are their pool indices.  The environment \<open>E\<close> supplies what the code takes
  from outside: the exponential of the C library and the readings of the system clock, of which the
  state counts how many were taken.  The routing context and the child buffer, which the code keeps
  as scratch members and overwrites before each use, are local.  Log lines and the dashboard thread,
  which only read, are left out.
\<close>

record Env =
  env_exp :: "double \<Rightarrow> double"
  env_clock :: "nat \<Rightarrow> u64"

record ExecCoreConfig =
  cfg_fees :: FeeMatrix
  cfg_risk_limits :: RiskLimits
  cfg_instruments :: InstrumentTable
  cfg_notional_gate :: NotionalGateConfig
  cfg_margin :: MarginConfig
  cfg_child_timeout_ns :: u64
  cfg_maker_timeout_ns :: u64
  cfg_exchange_states :: "ExchangeState list"
  cfg_active_exchanges :: nat

record ExecutionCore =
  ec_pool :: OMSOrderPool
  ec_pos :: PositionTable
  ec_risk :: PreTradeRiskEngine
  ec_sor :: RoutingEngine
  ec_gate :: NotionalConfirmationGate
  ec_timer :: TimerWheel
  ec_book_cache :: BookSnapshotCache
  ec_margin :: MarginMonitor
  ec_cfg :: ExecCoreConfig
  ec_gateways :: "nat \<Rightarrow> OutboundOrder SpscQueue option"
  ec_strategy_queue :: "StrategyOrderSignal SpscQueue"
  ec_exec_report_queue :: "ExecutionReport SpscQueue"
  ec_reject_queue :: "OrderReject SpscQueue"
  ec_running :: bool
  ec_stdin :: string
  ec_clock_reads :: nat

subsection \<open>The clock and small accessors\<close>

definition now_ns :: "Env \<Rightarrow> ExecutionCore \<Rightarrow> u64 \<times> ExecutionCore" where
  "now_ns E s = (env_clock E (ec_clock_reads s), s\<lparr>ec_clock_reads := ec_clock_reads s + 1\<rparr>)"

definition the_parent :: "nat \<Rightarrow> ExecutionCore \<Rightarrow> ParentOrder" where
  "the_parent pid s = parents (ec_pool s) pid"

definition the_child :: "nat \<Rightarrow> ExecutionCore \<Rightarrow> ChildOrderState" where
  "the_child cid s = children (ec_pool s) cid"

definition mod_parent :: "nat \<Rightarrow> (ParentOrder \<Rightarrow> ParentOrder) \<Rightarrow> ExecutionCore \<Rightarrow> ExecutionCore" where
  "mod_parent pid f s = s\<lparr>ec_pool := upd_parent pid f (ec_pool s)\<rparr>"

definition mod_child :: "nat \<Rightarrow> (ChildOrderState \<Rightarrow> ChildOrderState) \<Rightarrow> ExecutionCore \<Rightarrow> ExecutionCore" where
  "mod_child cid f s = s\<lparr>ec_pool := upd_child cid f (ec_pool s)\<rparr>"

text \<open>\<^verbatim>\<open>pos_.instruments[i]\<close> has \<^verbatim>\<open>kMaxInstruments\<close> elements.\<close>

definition mod_instr :: "nat \<Rightarrow> (InstrumentPosition \<Rightarrow> InstrumentPosition) \<Rightarrow> ExecutionCore \<Rightarrow> ExecutionCore option" where
  "mod_instr i f s = (if i < kMaxInstruments then Some (s\<lparr>ec_pos := upd_instr i f (ec_pos s)\<rparr>) else None)"

definition release_parent :: "nat \<Rightarrow> ExecutionCore \<Rightarrow> ExecutionCore option" where
  "release_parent pid s = do {
     pool \<leftarrow> free_parent (po_parent_id (the_parent pid s)) (ec_pool s);
     Some (s\<lparr>ec_pool := pool\<rparr>) }"

text \<open>\<^verbatim>\<open>for s: if (parent.has_child(s)) pool_.free_child(parent.children[s])\<close>, the loop of
  \<^verbatim>\<open>handle_fill\<close> and \<^verbatim>\<open>handle_cancel_reject\<close>; \<^verbatim>\<open>reroute_leaves\<close> has it with a test on the child's state.\<close>

definition child_ids :: "ParentOrder \<Rightarrow> nat list" where
  "child_ids p = map (po_children p) (filter (has_child p) [0..<kMaxChildrenPerParent])"

definition release_children :: "nat list \<Rightarrow> ExecutionCore \<Rightarrow> ExecutionCore option" where
  "release_children ids s = do {
     pool \<leftarrow> free_all free_child ids (ec_pool s);
     Some (s\<lparr>ec_pool := pool\<rparr>) }"

subsection \<open>Rejects\<close>

definition notify_reject :: "Env \<Rightarrow> nat \<Rightarrow> OrderDir \<Rightarrow> nat \<Rightarrow> qty_t \<Rightarrow> RejectReason \<Rightarrow> ExecutionCore \<Rightarrow> ExecutionCore" where
  "notify_reject E instr dir strategy qty reason s =
     (let (now, s) = now_ns E s;
          rej = \<lparr>rej_qty_lots = qty, rej_instr_id = instr, rej_dir = dir, rej_strategy_id = strategy,
            rej_reason = reason, rej_reject_ns = now\<rparr>
      in s\<lparr>ec_reject_queue := snd (spsc_push OutboundQueueN (ec_reject_queue s) rej)\<rparr>)"

definition notify_reject_sig :: "Env \<Rightarrow> StrategyOrderSignal \<Rightarrow> RejectReason \<Rightarrow> ExecutionCore \<Rightarrow> ExecutionCore" where
  "notify_reject_sig E sig reason s =
     notify_reject E (sig_instr_id sig) (sig_dir sig) (sig_strategy_id sig) (sig_qty_lots sig) reason s"

subsection \<open>Conversions and the routing context\<close>

definition to_canonical_lots :: "nat \<Rightarrow> nat \<Rightarrow> qty_t \<Rightarrow> ExecutionCore \<Rightarrow> qty_t option" where
  "to_canonical_lots exchange_id instr native_lots s = do {
     st \<leftarrow> nth_opt (cfg_exchange_states (ec_cfg s)) exchange_id;
     let native_lot_size = nb_lot_size (es_book st);
     let ref_lot_size = lot_size (cfg_instruments (ec_cfg s)) instr;
     Some (to_i64 (std_round (of_i64 native_lots * native_lot_size / ref_lot_size))) }"

definition build_routing_context :: "ParentOrder \<Rightarrow> qty_t \<Rightarrow> ExecutionCore \<Rightarrow> RoutingContext option" where
  "build_routing_context parent target s = do {
     let cfg = ec_cfg s;
     limit \<leftarrow> (if po_limit_price parent > 0 then do {
         st \<leftarrow> nth_opt (cfg_exchange_states cfg) 0;
         Some (of_i64 (po_limit_price parent) * nb_tick_size (es_book st)) }
       else Some 0);
     Some \<lparr>ctx_states = cfg_exchange_states cfg, ctx_active_exchanges = cfg_active_exchanges cfg,
       ctx_dir = po_dir parent, ctx_target_lots = target, ctx_limit_price = limit,
       ctx_reference_lot_size = lot_size (cfg_instruments cfg) (po_instr_id parent), ctx_decision_ns = 0,
       ctx_short_vol_factor = 0, ctx_book_imbalance = 0\<rparr> }"

definition all_children_terminal :: "ParentOrder \<Rightarrow> ExecutionCore \<Rightarrow> bool" where
  "all_children_terminal parent s \<longleftrightarrow>
     list_all (\<lambda>cid. ch_state (the_child cid s) \<noteq> PENDING_NEW \<and> ch_state (the_child cid s) \<noteq> PARTIALLY_FILLED)
       (child_ids parent)"

subsection \<open>Dispatch\<close>

definition new_child :: "nat \<Rightarrow> u64 \<Rightarrow> OrderDir \<Rightarrow> ExchangeState \<Rightarrow> ChildOrder \<Rightarrow> ChildOrderState \<Rightarrow> ChildOrderState" where
  "new_child parent_id ts dir st co child =
     (let qty = to_lots (co_qty co) (nb_lot_size (es_book st))
      in child\<lparr>ch_parent_id := parent_id,
           ch_price := (if co_price co > 0 then to_ticks (co_price co) (nb_tick_size (es_book st)) else 0),
           ch_qty_lots := qty, ch_leaves_qty_lots := qty, ch_cum_qty_lots := 0, ch_exchange_id := co_exchange_id co,
           ch_level_idx := co_level_idx co, ch_order_type := co_type co, ch_dir := dir, ch_state := PENDING_NEW,
           ch_sent_ns := ts\<rparr>)"

definition push_gateway :: "nat \<Rightarrow> OutboundOrder \<Rightarrow> ExecutionCore \<Rightarrow> ExecutionCore" where
  "push_gateway ex out s =
     (if ex < kMaxExchanges then
        (case ec_gateways s ex of
           None \<Rightarrow> s
         | Some q \<Rightarrow> s\<lparr>ec_gateways := (ec_gateways s)(ex := Some (snd (spsc_push GatewayQueueN q out)))\<rparr>)
      else s)"

text \<open>One turn of the dispatch loop once the child's slot in the pool is allocated.\<close>

definition dispatch_one :: "nat \<Rightarrow> u64 \<Rightarrow> RoutingContext \<Rightarrow> nat \<Rightarrow> ChildOrder \<Rightarrow> nat \<Rightarrow> ExecutionCore \<Rightarrow> ExecutionCore option" where
  "dispatch_one pid ts ctx i co cid s = do {
     st \<leftarrow> nth_opt (cfg_exchange_states (ec_cfg s)) (co_exchange_id co);
     let s = mod_child cid (new_child (po_parent_id (the_parent pid s)) ts (ctx_dir ctx) st co) s;
     assert_opt (i < kMaxChildrenPerParent);
     let s = mod_parent pid (add_child i cid) s;
     let timeout = (if co_type co = MAKER then cfg_maker_timeout_ns (ec_cfg s) else cfg_child_timeout_ns (ec_cfg s));
     let s = s\<lparr>ec_timer := snd (tw_insert cid ts timeout (ec_timer s))\<rparr>;
     let child = the_child cid s;
     let out = \<lparr>out_child_id = cid, out_price = ch_price child, out_qty_lots = ch_qty_lots child, out_dir = ctx_dir ctx,
       out_order_type = co_type co, out_exchange_id = co_exchange_id co, out_instr_id = po_instr_id (the_parent pid s)\<rparr>;
     Some (push_gateway (co_exchange_id co) out s) }"

fun dispatch_loop :: "nat \<Rightarrow> u64 \<Rightarrow> RoutingContext \<Rightarrow> nat \<Rightarrow> ChildOrder list \<Rightarrow> ExecutionCore \<Rightarrow> (nat \<times> ExecutionCore) option" where
  "dispatch_loop pid ts ctx i [] s = Some (i, s)"
| "dispatch_loop pid ts ctx i (co # rest) s =
     (if po_child_count (the_parent pid s) \<ge> kMaxChildrenPerParent then Some (i, s)
      else case alloc_child (ec_pool s) of
          (None, pool) \<Rightarrow> Some (i, s\<lparr>ec_pool := pool\<rparr>)
        | (Some cid, pool) \<Rightarrow> do {
            s \<leftarrow> dispatch_one pid ts ctx i co cid (s\<lparr>ec_pool := pool\<rparr>);
            dispatch_loop pid ts ctx (Suc i) rest s })"

text \<open>The lots of the orders that were not dispatched are released.\<close>

definition release_gap :: "nat \<Rightarrow> RoutingContext \<Rightarrow> ChildOrder list \<Rightarrow> ExecutionCore \<Rightarrow> ExecutionCore option" where
  "release_gap pid ctx rest s = do {
     let gap_qty = fold (\<lambda>co acc. acc + co_qty co) rest 0;
     ref_lot_size \<leftarrow> resolve_reference_lot_size ctx;
     let gap_lots = to_i64 (std_round (gap_qty / ref_lot_size));
     let parent = the_parent pid s;
     if gap_lots > 0 then mod_instr (po_instr_id parent) (release_open (po_dir parent) gap_lots) s else Some s }"

definition dispatch_child_orders :: "Env \<Rightarrow> nat \<Rightarrow> ChildOrder list \<Rightarrow> RoutingContext \<Rightarrow> ExecutionCore \<Rightarrow> ExecutionCore option" where
  "dispatch_child_orders E pid buf ctx s = do {
     let (ts, s) = now_ns E s;
     (i, s) \<leftarrow> dispatch_loop pid ts ctx 0 buf s;
     s \<leftarrow> (if i < length buf then release_gap pid ctx (drop i buf) s else Some s);
     let parent = the_parent pid s;
     if po_child_count parent = 0 then do {
       let s = mod_parent pid (\<lambda>p. p\<lparr>po_state := (if po_cum_qty_lots p > 0 then PARTIALLY_FILLED else REJECTED)\<rparr>) s;
       let s = notify_reject E (po_instr_id parent) (po_dir parent) (po_strategy_id parent)
         (po_leaves_qty_lots parent) CHILD_POOL_EXHAUSTED s;
       release_parent pid s }
     else Some s }"

subsection \<open>New orders\<close>

definition reject_reason_of :: "RiskRejectReason \<Rightarrow> RejectReason" where
  "reject_reason_of r = (case r of POSITION_LIMIT \<Rightarrow> RISK_POSITION_LIMIT | NOTIONAL \<Rightarrow> RISK_NOTIONAL
     | RR_MARGIN \<Rightarrow> RISK_MARGIN | _ \<Rightarrow> RISK_FAT_FINGER)"

text \<open>A signal that dies after its parent was allocated.\<close>

definition kill_signal :: "Env \<Rightarrow> nat \<Rightarrow> StrategyOrderSignal \<Rightarrow> RejectReason \<Rightarrow> ExecutionCore \<Rightarrow> ExecutionCore option" where
  "kill_signal E pid sig reason s = do {
     let s = mod_parent pid (\<lambda>p. p\<lparr>po_state := REJECTED\<rparr>) s;
     pool \<leftarrow> free_parent pid (ec_pool s);
     Some (notify_reject_sig E sig reason (s\<lparr>ec_pool := pool\<rparr>)) }"

text \<open>Routing and dispatch of an accepted signal.\<close>

definition route_signal :: "Env \<Rightarrow> nat \<Rightarrow> StrategyOrderSignal \<Rightarrow> qty_t \<Rightarrow> ExecutionCore \<Rightarrow> ExecutionCore option" where
  "route_signal E pid sig effective_qty s = do {
     ctx \<leftarrow> build_routing_context (the_parent pid s) effective_qty s;
     let (now, s) = now_ns E s;
     let ctx = ctx\<lparr>ctx_short_vol_factor := sig_short_vol_factor sig, ctx_book_imbalance := sig_book_imbalance sig,
       ctx_decision_ns := now\<rparr>;
     (split, buf) \<leftarrow> (if sig_order_type sig = MAKER then calculate_maker_placement (ec_sor s) ctx []
       else calculate_optimal_split (env_exp E) (ec_sor s) ctx []);
     if buf = [] then kill_signal E pid sig NO_LIQUIDITY s
     else do {
       let s = mod_parent pid (\<lambda>p. p\<lparr>po_state := PENDING_NEW\<rparr>) s;
       s \<leftarrow> mod_instr (sig_instr_id sig) (reserve_open (sig_dir sig) effective_qty) s;
       dispatch_child_orders E pid buf ctx s } }"

text \<open>What follows once the parent is allocated and its identity written: the reduce-only verdict, the
  quantities and the limit, the risk checks.\<close>

definition decide_signal :: "Env \<Rightarrow> nat \<Rightarrow> StrategyOrderSignal \<Rightarrow> qty_t \<Rightarrow> ExecutionCore \<Rightarrow> ExecutionCore option" where
  "decide_signal E pid sig effective_qty s =
     (if sig_instr_id sig < kMaxInstruments \<and> effective_qty = 0 then kill_signal E pid sig REDUCE_ONLY_VIOLATION s
      else do {
        st \<leftarrow> nth_opt (cfg_exchange_states (ec_cfg s)) 0;
        let limit = (if sig_limit_price_usd sig > 0
          then to_ticks (sig_limit_price_usd sig) (nb_tick_size (es_book st)) else 0);
        let s = mod_parent pid (\<lambda>p. p\<lparr>po_total_qty_lots := effective_qty,
          po_leaves_qty_lots := effective_qty, po_limit_price := limit\<rparr>) s;
        let risk_result = validate (ec_risk s) (ec_pos s) (sig\<lparr>sig_qty_lots := effective_qty\<rparr>);
        if risk_result \<noteq> RR_OK then kill_signal E pid sig (reject_reason_of risk_result) s
        else route_signal E pid sig effective_qty s })"

definition on_strategy_order :: "Env \<Rightarrow> StrategyOrderSignal \<Rightarrow> ExecutionCore \<Rightarrow> ExecutionCore option" where
  "on_strategy_order E sig s =
     (let (ok, inp) = approve (ec_gate s) sig (ec_stdin s); s = s\<lparr>ec_stdin := inp\<rparr>
      in if \<not> ok then Some (notify_reject_sig E sig NOTIONAL_GATE_BLOCK s)
         else case alloc_parent (ec_pool s) of
             (None, pool) \<Rightarrow> Some (notify_reject_sig E sig PARENT_POOL_EXHAUSTED (s\<lparr>ec_pool := pool\<rparr>))
           | (Some pid, pool) \<Rightarrow>
               let s = s\<lparr>ec_pool := pool\<rparr>;
                   (create, s) = (if sig_signal_ns sig \<noteq> 0 then (sig_signal_ns sig, s) else now_ns E s);
                   effective_qty = clamp_reduce_only_sig (ec_pos s) sig;
                   reduce_only = (sig_instr_id sig < kMaxInstruments \<and>
                     (sig_reduce_only sig \<or> unwind_only (instruments (ec_pos s) (sig_instr_id sig))))
               in decide_signal E pid sig effective_qty (mod_parent pid (\<lambda>p. p\<lparr>po_instr_id := sig_instr_id sig,
                    po_dir := sig_dir sig, po_order_type := sig_order_type sig, po_strategy_id := sig_strategy_id sig,
                    po_create_ns := create, po_state := OS_NEW, po_reduce_only := reduce_only\<rparr>) s))"

subsection \<open>Execution reports\<close>

text \<open>The shrinking of a reduce-only parent before it is routed again; the flag says that nothing is
  left to route.\<close>

definition shrink_reduce_only :: "nat \<Rightarrow> ExecutionCore \<Rightarrow> (bool \<times> ExecutionCore) option" where
  "shrink_reduce_only pid s =
     (let parent = the_parent pid s
      in if \<not> po_reduce_only parent then Some (False, s)
         else do {
           let safe_qty = clamp_reduce_only (ec_pos s) (po_instr_id parent) (po_dir parent) (po_leaves_qty_lots parent) True;
           s \<leftarrow> (if safe_qty < po_leaves_qty_lots parent then do {
               let excess = po_leaves_qty_lots parent - safe_qty;
               s \<leftarrow> mod_instr (po_instr_id parent) (release_open (po_dir parent) excess) s;
               Some (mod_parent pid (\<lambda>p. p\<lparr>po_total_qty_lots := po_total_qty_lots p - excess,
                 po_leaves_qty_lots := safe_qty\<rparr>) s) }
             else Some s);
           if po_leaves_qty_lots (the_parent pid s) = 0 then do {
             let s = mod_parent pid (\<lambda>p. p\<lparr>po_state := (if po_cum_qty_lots p > 0 then FILLED else REJECTED)\<rparr>) s;
             s \<leftarrow> release_parent pid s;
             Some (True, s) }
           else Some (False, s) })"

definition terminal_state :: "OrderState \<Rightarrow> bool" where
  "terminal_state st \<longleftrightarrow> st = CANCELED \<or> st = REJECTED \<or> st = FILLED"

text \<open>The end of \<^verbatim>\<open>reroute_leaves\<close>: the router is asked again and its orders dispatched; with none the parent
  is closed.\<close>

definition route_rest :: "Env \<Rightarrow> nat \<Rightarrow> RoutingContext \<Rightarrow> ExecutionCore \<Rightarrow> ExecutionCore option" where
  "route_rest E pid ctx s = do {
     (split, buf) \<leftarrow> calculate_optimal_split (env_exp E) (ec_sor s) ctx [];
     if buf = [] then do {
       let parent = the_parent pid s;
       let s = mod_parent pid (\<lambda>p. p\<lparr>po_state := (if po_cum_qty_lots p > 0 then PARTIALLY_FILLED else REJECTED)\<rparr>) s;
       let s = notify_reject E (po_instr_id parent) (po_dir parent) (po_strategy_id parent)
         (po_leaves_qty_lots parent) NO_LIQUIDITY s;
       release_parent pid s }
     else dispatch_child_orders E pid buf ctx (mod_parent pid (\<lambda>p. p\<lparr>po_state := PENDING_NEW\<rparr>) s) }"

definition reroute_leaves :: "Env \<Rightarrow> nat \<Rightarrow> ExecutionCore \<Rightarrow> ExecutionCore option" where
  "reroute_leaves E pid s = do {
     ctx \<leftarrow> build_routing_context (the_parent pid s) (po_leaves_qty_lots (the_parent pid s)) s;
     let (now, s) = now_ns E s;
     let inputs = get_routing_inputs (ec_book_cache s) (po_dir (the_parent pid s)) now;
     let ctx = ctx\<lparr>ctx_short_vol_factor := ri_short_vol_factor inputs, ctx_book_imbalance := ri_book_imbalance inputs,
       ctx_decision_ns := now\<rparr>;
     s \<leftarrow> release_children (filter (\<lambda>cid. terminal_state (ch_state (the_child cid s))) (child_ids (the_parent pid s))) s;
     let s = mod_parent pid (\<lambda>p. p\<lparr>po_child_count := 0, po_child_mask := 0\<rparr>) s;
     (finished, s) \<leftarrow> shrink_reduce_only pid s;
     if finished then Some s
     else do {
       let parent = the_parent pid s;
       let ctx = (if po_reduce_only parent then ctx\<lparr>ctx_target_lots := po_leaves_qty_lots parent\<rparr> else ctx);
       route_rest E pid ctx s } }"

definition core_margin :: "(MarginMonitor \<times> PositionTable \<Rightarrow> MarginMonitor \<times> PositionTable) \<Rightarrow> ExecutionCore \<Rightarrow> ExecutionCore" where
  "core_margin f s = (let (m, t) = f (ec_margin s, ec_pos s) in s\<lparr>ec_margin := m, ec_pos := t\<rparr>)"

text \<open>The parent's side of a fill: quantities, running average, time of the update.\<close>

definition fill_parent :: "qty_t \<Rightarrow> double \<Rightarrow> double \<Rightarrow> u64 \<Rightarrow> ParentOrder \<Rightarrow> ParentOrder" where
  "fill_parent fill_canonical fill_px ref_lot_size recv p =
     (let cum = po_cum_qty_lots p + fill_canonical;
          prev_cum = of_i64 (po_cum_qty_lots p) * ref_lot_size;
          fill_qty = of_i64 fill_canonical * ref_lot_size;
          total_cum = of_i64 cum * ref_lot_size
      in p\<lparr>po_cum_qty_lots := cum, po_leaves_qty_lots := po_total_qty_lots p - cum, po_last_update_ns := recv,
           po_avg_fill_price := (if prev_cum > 0
             then (po_avg_fill_price p * prev_cum + fill_px * fill_qty) / total_cum else fill_px)\<rparr>)"

text \<open>The child's side of a fill.\<close>

definition fill_child :: "qty_t \<Rightarrow> ChildOrderState \<Rightarrow> ChildOrderState" where
  "fill_child lots c =
     (let cum = ch_cum_qty_lots c + lots; leaves = ch_qty_lots c - cum
      in c\<lparr>ch_cum_qty_lots := cum, ch_leaves_qty_lots := leaves,
           ch_state := (if leaves = 0 then FILLED else PARTIALLY_FILLED)\<rparr>)"

definition handle_fill :: "Env \<Rightarrow> nat \<Rightarrow> nat \<Rightarrow> ExecutionReport \<Rightarrow> ExecutionCore \<Rightarrow> ExecutionCore option" where
  "handle_fill E cid pid rep s = do {
     let exchange = ch_exchange_id (the_child cid s);
     st \<leftarrow> nth_opt (cfg_exchange_states (ec_cfg s)) exchange;
     let fill_px = of_i64 (rep_fill_price_ticks rep) * nb_tick_size (es_book st);
     let s = mod_child cid (fill_child (rep_fill_qty_lots rep)) s;
     let s = s\<lparr>ec_timer := tw_cancel (ch_child_id (the_child cid s)) (ec_timer s)\<rparr>;
     let parent = the_parent pid s;
     let ref_lot_size = lot_size (cfg_instruments (ec_cfg s)) (po_instr_id parent);
     fill_canonical \<leftarrow> to_canonical_lots exchange (po_instr_id parent) (rep_fill_qty_lots rep) s;
     let s = core_margin (on_fill fill_canonical fill_px ref_lot_size) s;
     let s = mod_parent pid (fill_parent fill_canonical fill_px ref_lot_size (rep_recv_ns rep)) s;
     s \<leftarrow> mod_instr (po_instr_id parent)
       (\<lambda>p. release_open (po_dir parent) fill_canonical (apply_fill (po_dir parent) fill_canonical fill_px p)) s;
     let parent = the_parent pid s;
     if po_leaves_qty_lots parent = 0 then do {
       let s = mod_parent pid (\<lambda>p. p\<lparr>po_state := FILLED\<rparr>) s;
       s \<leftarrow> release_children (child_ids parent) s;
       release_parent pid s }
     else do {
       let s = mod_parent pid (\<lambda>p. p\<lparr>po_state := PARTIALLY_FILLED\<rparr>) s;
       if all_children_terminal parent s then reroute_leaves E pid s else Some s } }"

definition handle_cancel_reject :: "Env \<Rightarrow> nat \<Rightarrow> nat \<Rightarrow> ExecutionReport \<Rightarrow> ExecutionCore \<Rightarrow> ExecutionCore option" where
  "handle_cancel_reject E cid pid rep s = do {
     let child = the_child cid s;
     let parent = the_parent pid s;
     let s = mod_child cid (\<lambda>c. c\<lparr>ch_leaves_qty_lots := 0,
       ch_state := (if rep_exec_type rep = ET_CANCELED then CANCELED else REJECTED)\<rparr>) s;
     let ref_lot_size = lot_size (cfg_instruments (ec_cfg s)) (po_instr_id parent);
     lost_canonical \<leftarrow> to_canonical_lots (ch_exchange_id child) (po_instr_id parent) (ch_leaves_qty_lots child) s;
     let s = s\<lparr>ec_timer := tw_cancel (ch_child_id child) (ec_timer s)\<rparr>;
     st \<leftarrow> nth_opt (cfg_exchange_states (ec_cfg s)) (ch_exchange_id child);
     let s = core_margin (on_release lost_canonical (of_i64 (ch_price child) * nb_tick_size (es_book st)) ref_lot_size) s;
     s \<leftarrow> mod_instr (po_instr_id parent) (release_open (po_dir parent) lost_canonical) s;
     let s = mod_parent pid (\<lambda>p. p\<lparr>po_last_update_ns := rep_recv_ns rep\<rparr>) s;
     if po_leaves_qty_lots parent > 0 then
       (if \<not> all_children_terminal (the_parent pid s) s then Some s else reroute_leaves E pid s)
     else do {
       let s = mod_parent pid (\<lambda>p. p\<lparr>po_state := FILLED\<rparr>) s;
       s \<leftarrow> release_children (child_ids (the_parent pid s)) s;
       release_parent pid s } }"

definition on_execution_report :: "Env \<Rightarrow> ExecutionReport \<Rightarrow> ExecutionCore \<Rightarrow> ExecutionCore option" where
  "on_execution_report E rep s =
     (if rep_child_id rep \<ge> kMaxTotalChildren then Some s
      else let cid = rep_child_id rep; pid = ch_parent_id (the_child cid s)
        in if pid \<ge> kMaxParentOrders then Some s
           else case rep_exec_type rep of
               ET_PARTIAL \<Rightarrow> handle_fill E cid pid rep s
             | ET_FILL \<Rightarrow> handle_fill E cid pid rep s
             | ET_CANCELED \<Rightarrow> handle_cancel_reject E cid pid rep s
             | ET_REJECTED \<Rightarrow> handle_cancel_reject E cid pid rep s
             | ET_NEW \<Rightarrow> Some (mod_child cid (\<lambda>c. c\<lparr>ch_state := PENDING_NEW\<rparr>) s)
             | ET_REPLACED \<Rightarrow> Some s)"

subsection \<open>Timeouts and the loop\<close>

text \<open>The callback installed by the constructor: a timeout is a synthetic cancel report.\<close>

definition timeout_report :: "nat \<Rightarrow> ChildOrderState \<Rightarrow> ExecutionReport" where
  "timeout_report cid c = \<lparr>rep_child_id = cid, rep_fill_price_ticks = 0, rep_fill_qty_lots = 0,
     rep_exec_type = ET_CANCELED, rep_exchange_id = ch_exchange_id c, rep_exchange_ns = 0, rep_recv_ns = ch_sent_ns c\<rparr>"

definition on_timeout :: "Env \<Rightarrow> nat \<Rightarrow> ExecutionCore \<Rightarrow> ExecutionCore option" where
  "on_timeout E cid s =
     (if cid \<ge> kMaxTotalChildren then Some s
      else let child = the_child cid s
        in if ch_state child \<noteq> PENDING_NEW \<and> ch_state child \<noteq> PARTIALLY_FILLED then Some s
           else on_execution_report E (timeout_report cid child) s)"

definition put_timer :: "TimerWheel \<Rightarrow> ExecutionCore \<Rightarrow> ExecutionCore" where
  "put_timer w s = s\<lparr>ec_timer := w\<rparr>"

partial_function (option) drain_strategy :: "Env \<Rightarrow> ExecutionCore \<Rightarrow> ExecutionCore option" where
  "drain_strategy E s =
     (case spsc_pop InboundQueueN (ec_strategy_queue s) of
        (None, q) \<Rightarrow> Some s
      | (Some sig, q) \<Rightarrow> do {
          s \<leftarrow> on_strategy_order E sig (s\<lparr>ec_strategy_queue := q\<rparr>);
          drain_strategy E s })"

partial_function (option) drain_reports :: "Env \<Rightarrow> ExecutionCore \<Rightarrow> ExecutionCore option" where
  "drain_reports E s =
     (case spsc_pop InboundQueueN (ec_exec_report_queue s) of
        (None, q) \<Rightarrow> Some s
      | (Some rep, q) \<Rightarrow> do {
          s \<leftarrow> on_execution_report E rep (s\<lparr>ec_exec_report_queue := q\<rparr>);
          drain_reports E s })"

text \<open>The margin warnings at the end of \<^verbatim>\<open>tick\<close> only log.\<close>

definition core_tick :: "Env \<Rightarrow> u64 \<Rightarrow> ExecutionCore \<Rightarrow> ExecutionCore option" where
  "core_tick E now s = do {
     s \<leftarrow> drain_strategy E s;
     s \<leftarrow> drain_reports E s;
     tw_tick ec_timer put_timer (on_timeout E) now s }"

text \<open>\<^verbatim>\<open>run()\<close>, up to \<open>n\<close> turns of its loop; \<^verbatim>\<open>stop()\<close> is called from another thread.\<close>

fun run_loop :: "Env \<Rightarrow> nat \<Rightarrow> ExecutionCore \<Rightarrow> ExecutionCore option" where
  "run_loop E 0 s = Some s"
| "run_loop E (Suc n) s =
     (if ec_running s then do {
        let (now, s) = now_ns E s;
        s \<leftarrow> core_tick E now s;
        run_loop E n s }
      else Some s)"

definition core_run :: "Env \<Rightarrow> nat \<Rightarrow> ExecutionCore \<Rightarrow> ExecutionCore option" where
  "core_run E n s = run_loop E n (s\<lparr>ec_running := True\<rparr>)"

definition core_stop :: "ExecutionCore \<Rightarrow> ExecutionCore" where
  "core_stop s = s\<lparr>ec_running := False\<rparr>"

subsection \<open>Construction and the calls from other threads\<close>

text \<open>The zero values with which the rings are filled.\<close>

definition zero_outbound :: OutboundOrder where
  "zero_outbound = \<lparr>out_child_id = 0, out_price = 0, out_qty_lots = 0, out_dir = BUY, out_order_type = MAKER,
     out_exchange_id = 0, out_instr_id = 0\<rparr>"

definition zero_report :: ExecutionReport where
  "zero_report = \<lparr>rep_child_id = 0, rep_fill_price_ticks = 0, rep_fill_qty_lots = 0, rep_exec_type = ET_NEW,
     rep_exchange_id = 0, rep_exchange_ns = 0, rep_recv_ns = 0\<rparr>"

definition zero_reject :: OrderReject where
  "zero_reject = \<lparr>rej_qty_lots = 0, rej_instr_id = 0, rej_dir = BUY, rej_strategy_id = 0,
     rej_reason = RISK_FAT_FINGER, rej_reject_ns = 0\<rparr>"

text \<open>\<open>wired ex\<close> says whether \<^verbatim>\<open>cfg.gateways[ex].outbound\<close> is set.\<close>

definition core_init :: "Env \<Rightarrow> ExecCoreConfig \<Rightarrow> (nat \<Rightarrow> bool) \<Rightarrow> string \<Rightarrow> ExecutionCore" where
  "core_init E cfg wired inp =
     (let (m, pos) = margin_monitor_init (cfg_margin cfg) init_positions;
          s = \<lparr>ec_pool = pool_init, ec_pos = pos,
            ec_risk = \<lparr>re_limits = cfg_risk_limits cfg, re_instruments = cfg_instruments cfg\<rparr>,
            ec_sor = \<lparr>eng_fees = cfg_fees cfg\<rparr>,
            ec_gate = \<lparr>ng_cfg = cfg_notional_gate cfg, ng_instruments = cfg_instruments cfg\<rparr>,
            ec_timer = tw_init 1000000, ec_book_cache = \<lparr>exchanges = (\<lambda>_. empty_snapshot)\<rparr>, ec_margin = m, ec_cfg = cfg,
            ec_gateways = (\<lambda>ex. if wired ex then Some (spsc_init zero_outbound) else None),
            ec_strategy_queue = spsc_init empty_signal, ec_exec_report_queue = spsc_init zero_report,
            ec_reject_queue = spsc_init zero_reject, ec_running = False, ec_stdin = inp, ec_clock_reads = 0\<rparr>;
          (now, s) = now_ns E s
      in s\<lparr>ec_timer := reset_clock now (ec_timer s)\<rparr>)"

definition set_unwind_mode :: "nat \<Rightarrow> bool \<Rightarrow> ExecutionCore \<Rightarrow> ExecutionCore" where
  "set_unwind_mode i enabled s =
     (if i < kMaxInstruments then s\<lparr>ec_pos := upd_instr i (\<lambda>p. p\<lparr>unwind_only := enabled\<rparr>) (ec_pos s)\<rparr> else s)"

definition core_on_mark_price :: "double \<Rightarrow> double \<Rightarrow> nat \<Rightarrow> ExecutionCore \<Rightarrow> ExecutionCore option" where
  "core_on_mark_price mark lot i s = do {
     (m, t) \<leftarrow> on_mark_price mark lot i (ec_margin s, ec_pos s);
     Some (s\<lparr>ec_margin := m, ec_pos := t\<rparr>) }"

definition on_rest_margin :: "double \<Rightarrow> double \<Rightarrow> u64 \<Rightarrow> ExecutionCore \<Rightarrow> ExecutionCore" where
  "on_rest_margin equity used ts s = core_margin (on_rest_update equity used ts) s"

definition on_book_snapshot :: "nat \<Rightarrow> double \<Rightarrow> double \<Rightarrow> double \<Rightarrow> u64 \<Rightarrow> ExecutionCore \<Rightarrow> ExecutionCore" where
  "on_book_snapshot ex vol imb mid ts s =
     (if ex < kMaxExchanges then s\<lparr>ec_book_cache := (ec_book_cache s)\<lparr>exchanges :=
        (exchanges (ec_book_cache s))(ex := snap_update vol imb mid ts (exchanges (ec_book_cache s) ex))\<rparr>\<rparr>
      else s)"

end
