(* ===== verification/Order_Families.thy ===== *)
theory Order_Families
  imports Execution_Core
begin

text \<open>
  Parents and their children in the pool.  \<open>linked\<close> says that a parent's child slots name distinct
  live children that point back at it; \<open>pool_ok\<close> says so for every live parent, and that every live
  child is in exactly one family, that the quantities of every parent add up, and that no live
  parent is parked without a working child.  While a handler works on one parent that parent may
  be in between, which is \<open>focus\<close>.  Each lemma is the effect of one pool operation of the handlers.
\<close>

definition working :: "OrderState \<Rightarrow> bool" where
  "working st \<longleftrightarrow> st = PENDING_NEW \<or> st = PARTIALLY_FILLED"

definition child_ok :: "nat \<Rightarrow> OMSOrderPool \<Rightarrow> nat \<Rightarrow> nat \<Rightarrow> bool" where
  "child_ok n P pid cid \<longleftrightarrow> cid \<in> live_children P \<and> ch_child_id (children P cid) = cid \<and>
     ch_parent_id (children P cid) = pid \<and> ch_exchange_id (children P cid) < n \<and>
     (working (ch_state (children P cid)) \<or> terminal_state (ch_state (children P cid)))"

definition linked :: "nat \<Rightarrow> OMSOrderPool \<Rightarrow> nat \<Rightarrow> bool" where
  "linked n P pid \<longleftrightarrow> po_parent_id (parents P pid) = pid \<and> distinct (child_ids (parents P pid)) \<and>
     (\<forall>cid\<in>set (child_ids (parents P pid)). child_ok n P pid cid)"

definition qty_ok :: "ParentOrder \<Rightarrow> bool" where
  "qty_ok p \<longleftrightarrow> po_instr_id p < 64 \<and> po_total_qty_lots p = po_cum_qty_lots p + po_leaves_qty_lots p \<and>
     0 < po_leaves_qty_lots p"

definition has_working :: "OMSOrderPool \<Rightarrow> nat \<Rightarrow> bool" where
  "has_working P pid \<longleftrightarrow> (\<exists>cid\<in>set (child_ids (parents P pid)). working (ch_state (children P cid)))"

definition family_ok :: "nat \<Rightarrow> OMSOrderPool \<Rightarrow> nat \<Rightarrow> bool" where
  "family_ok n P pid \<longleftrightarrow> linked n P pid \<and> qty_ok (parents P pid) \<and> has_working P pid"

definition owned :: "OMSOrderPool \<Rightarrow> bool" where
  "owned P \<longleftrightarrow> live_children P \<subseteq> (\<Union>pid\<in>live_parents P. set (child_ids (parents P pid)))"

definition pool_ok :: "nat \<Rightarrow> OMSOrderPool \<Rightarrow> bool" where
  "pool_ok n P \<longleftrightarrow> pool_inv P \<and> owned P \<and> (\<forall>pid\<in>live_parents P. family_ok n P pid)"

definition focus :: "nat \<Rightarrow> OMSOrderPool \<Rightarrow> nat \<Rightarrow> bool" where
  "focus n P pid \<longleftrightarrow> pool_inv P \<and> owned P \<and> pid \<in> live_parents P \<and> linked n P pid \<and>
     (\<forall>q\<in>live_parents P - {pid}. family_ok n P q)"

lemma focusD:
  assumes "focus n P pid"
  shows "pool_inv P" and "owned P" and "pid \<in> live_parents P" and "linked n P pid"
    and "q \<in> live_parents P - {pid} \<Longrightarrow> family_ok n P q"
  using assms by (simp_all add: focus_def)

lemma focusI: "pool_ok n P \<Longrightarrow> pid \<in> live_parents P \<Longrightarrow> focus n P pid"
  by (simp add: focus_def pool_ok_def family_ok_def)

lemma pool_okI: "focus n P pid \<Longrightarrow> qty_ok (parents P pid) \<Longrightarrow> has_working P pid \<Longrightarrow> pool_ok n P"
  by (auto simp: focus_def pool_ok_def family_ok_def)

lemma pool_ok_init: "pool_ok n pool_init"
  by (simp add: pool_ok_def pool_init_inv owned_def pool_init_live)

lemma child_ids_cong:
  "po_child_mask p = po_child_mask q \<Longrightarrow> po_children p = po_children q \<Longrightarrow> child_ids p = child_ids q"
  by (simp add: child_ids_def has_child_def [abs_def])

lemma child_ids_mask0 [simp]: "po_child_mask p = 0 \<Longrightarrow> child_ids p = []"
  by (simp add: child_ids_def has_child_def)

lemma child_ids_reset [simp]: "child_ids (reset_parent\<lparr>po_parent_id := i\<rparr>) = []"
  by (simp add: reset_parent_def zero_parent_def)

text \<open>A family only depends on its parent, its children and which children are live.\<close>

lemma family_cong:
  assumes "family_ok n P q" and "parents Q q = parents P q"
    and "\<And>cid. child_ok n P q cid \<Longrightarrow> children Q cid = children P cid \<and> cid \<in> live_children Q"
  shows "family_ok n Q q"
  using assms by (fastforce simp: family_ok_def linked_def has_working_def child_ok_def)

lemma owned_cong:
  assumes "owned P" and "live_children Q \<subseteq> live_children P"
    and "\<And>q cid. q \<in> live_parents P \<Longrightarrow> cid \<in> set (child_ids (parents P q)) \<Longrightarrow> cid \<in> live_children Q \<Longrightarrow>
      q \<in> live_parents Q \<and> cid \<in> set (child_ids (parents Q q))"
  shows "owned Q"
  unfolding owned_def
proof
  fix cid assume c: "cid \<in> live_children Q"
  then obtain q where "q \<in> live_parents P" "cid \<in> set (child_ids (parents P q))"
    using assms(1,2) unfolding owned_def by blast
  then show "cid \<in> (\<Union>pid\<in>live_parents Q. set (child_ids (parents Q pid)))" using assms(3) c by blast
qed

subsection \<open>Updates of the focused parent and of its children\<close>

lemma focus_upd_parent:
  assumes "focus n P pid" and "po_parent_id (f (parents P pid)) = po_parent_id (parents P pid)"
    and "po_child_mask (f (parents P pid)) = po_child_mask (parents P pid)"
    and "po_children (f (parents P pid)) = po_children (parents P pid)"
  shows "focus n (upd_parent pid f P) pid"
proof -
  note c = child_ids_cong [OF assms(3,4)]
  have "linked n (upd_parent pid f P) pid" using assms(1,2) c by (simp add: focus_def linked_def child_ok_def)
  moreover have "owned (upd_parent pid f P)" using assms(1) c by (intro owned_cong [OF focusD(2) [OF assms(1)]]) auto
  moreover have "family_ok n (upd_parent pid f P) q" if "q \<in> live_parents P - {pid}" for q
    using that by (intro family_cong [OF focusD(5) [OF assms(1) that]]) (auto simp: child_ok_def)
  ultimately show ?thesis using assms(1) by (simp add: focus_def pool_inv_def)
qed

lemma focus_upd_child:
  assumes "focus n P pid" and "cid \<in> set (child_ids (parents P pid))"
    and "ch_child_id (g (children P cid)) = ch_child_id (children P cid)"
    and "ch_parent_id (g (children P cid)) = ch_parent_id (children P cid)"
    and "ch_exchange_id (g (children P cid)) = ch_exchange_id (children P cid)"
    and "working (ch_state (g (children P cid))) \<or> terminal_state (ch_state (g (children P cid)))"
  shows "focus n (upd_child cid g P) pid"
proof -
  have c: "child_ok n P pid cid" using assms(1,2) by (simp add: focus_def linked_def)
  then have "linked n (upd_child cid g P) pid" using assms by (auto simp: focus_def linked_def child_ok_def)
  moreover have "owned (upd_child cid g P)" using assms(1) by (intro owned_cong [OF focusD(2) [OF assms(1)]]) auto
  moreover have "family_ok n (upd_child cid g P) q" if "q \<in> live_parents P - {pid}" for q
    using c that by (intro family_cong [OF focusD(5) [OF assms(1) that]]) (auto simp: child_ok_def)
  ultimately show ?thesis using assms(1) by (simp add: focus_def pool_inv_def)
qed

subsection \<open>Freeing\<close>

lemma focus_free_children:
  assumes "focus n P pid" and "f = (\<lambda>p. p\<lparr>po_child_count := 0, po_child_mask := 0\<rparr>)"
  shows "\<exists>Q. free_all free_child (child_ids (parents P pid)) P = Some Q \<and> parents Q = parents P \<and> children Q = children P \<and>
    live_parents Q = live_parents P \<and> live_children Q = live_children P - set (child_ids (parents P pid)) \<and> pool_inv Q \<and>
    focus n (upd_parent pid f Q) pid"
proof -
  let ?ids = "child_ids (parents P pid)"
  have l: "linked n P pid" "pool_inv P" "owned P" "pid \<in> live_parents P" using assms(1) by (simp_all add: focus_def)
  then have "distinct ?ids" "set ?ids \<subseteq> live_children P" "children_inv P" "parents_inv P"
    by (auto simp: linked_def child_ok_def pool_inv_def)
  then obtain Q where Q: "free_all free_child ?ids P = Some Q" "live_children Q = live_children P - set ?ids" "children_inv Q"
    using child_pool.free_all_live [of P ?ids] by auto
  note fr = free_all_child_frame [OF Q(1)]
  let ?R = "upd_parent pid f Q"
  have "linked n ?R pid" using l(1) fr assms(2) by (simp add: linked_def)
  moreover have "owned ?R" using Q(2) fr by (intro owned_cong [OF l(3)]) auto
  moreover have "family_ok n ?R q" if "q \<in> live_parents P - {pid}" for q
  proof (rule family_cong [where P = P])
    show "family_ok n P q" using assms(1) that by (simp add: focus_def)
    show "parents ?R q = parents P q" using that fr by simp
    fix cid assume c: "child_ok n P q cid"
    then have "cid \<notin> set ?ids" using l(1) that by (auto simp: linked_def child_ok_def)
    then show "children ?R cid = children P cid \<and> cid \<in> live_children ?R" using c Q(2) fr by (simp add: child_ok_def)
  qed
  ultimately show ?thesis using Q fr l(2,4) by (auto simp: focus_def pool_inv_def)
qed

lemma focus_free_parent:
  assumes "focus n P pid" and "child_ids (parents P pid) = []"
  shows "\<exists>Q. free_parent pid P = Some Q \<and> pool_ok n Q \<and> live_parents Q = live_parents P - {pid} \<and>
    parents Q = parents P \<and> children Q = children P \<and> live_children Q = live_children P"
proof -
  have l: "parents_inv P" "children_inv P" "owned P" "pid \<in> live_parents P"
    using assms(1) by (simp_all add: focus_def pool_inv_def)
  obtain Q where Q: "free_parent pid P = Some Q" "live_parents Q = live_parents P - {pid}" "parents_inv Q"
    using parent_pool.free_live [OF l(1,4)] by blast
  note fr = free_parent_frame [OF Q(1)]
  have "owned Q" using Q(2) fr assms(2) by (intro owned_cong [OF l(3)]) auto
  moreover have "family_ok n Q q" if "q \<in> live_parents Q" for q
    using that Q(2) fr by (intro family_cong [OF focusD(5) [OF assms(1)]]) (auto simp: child_ok_def)
  ultimately show ?thesis using Q fr l(2) by (auto simp: pool_ok_def pool_inv_def)
qed

lemma focus_close:
  assumes "focus n P pid"
  shows "\<exists>Q R. free_all free_child (child_ids (parents P pid)) P = Some Q \<and> parents Q = parents P \<and> free_parent pid Q = Some R \<and>
    pool_ok n R \<and> children R = children P \<and> live_parents R = live_parents P - {pid} \<and>
    live_children R = live_children P - set (child_ids (parents P pid))"
proof -
  let ?ids = "child_ids (parents P pid)"
  obtain Q where Q: "free_all free_child ?ids P = Some Q" "parents Q = parents P" "children Q = children P"
    "live_parents Q = live_parents P" "live_children Q = live_children P - set ?ids" "pool_inv Q"
    using focus_free_children [OF assms refl] by blast
  obtain R where R: "free_parent pid Q = Some R" "live_parents R = live_parents Q - {pid}" "parents_inv R"
    using parent_pool.free_live [of Q pid] Q(4,6) focusD(3) [OF assms] by (auto simp: pool_inv_def)
  note fr = free_parent_frame [OF R(1)]
  have "owned R" using Q R fr by (intro owned_cong [OF focusD(2) [OF assms]]) auto
  moreover have "family_ok n R q" if "q \<in> live_parents R" for q
  proof (rule family_cong)
    show q: "family_ok n P q" using focusD(5) [OF assms] that R(2) Q(4) by simp
    show "parents R q = parents P q" using fr Q by simp
    fix cid assume c: "child_ok n P q cid"
    then have "cid \<notin> set ?ids" using focusD(4) [OF assms] that R(2) by (auto simp: linked_def child_ok_def)
    then show "children R cid = children P cid \<and> cid \<in> live_children R" using c Q fr by (simp add: child_ok_def)
  qed
  ultimately have "pool_ok n R" using Q(6) R(3) fr by (simp add: pool_ok_def pool_inv_def)
  then show ?thesis using Q R fr by auto
qed

subsection \<open>Allocating\<close>

lemma alloc_parent_focus:
  assumes "pool_ok n P" and "alloc_parent P = (Some pid, Q)"
  shows "focus n Q pid" and "pid \<notin> live_parents P" and "live_parents Q = insert pid (live_parents P)"
    and "parents Q pid = reset_parent\<lparr>po_parent_id := pid\<rparr>" and "live_children Q = live_children P" and "children Q = children P"
proof -
  have i: "parents_inv P" "children_inv P" "owned P" using assms(1) by (simp_all add: pool_ok_def pool_inv_def)
  note a = parent_pool.alloc_fresh [OF i(1) assms(2)]
  note fr = alloc_parent_frame [OF assms(2)]
  show n: "pid \<notin> live_parents P" and lp: "live_parents Q = insert pid (live_parents P)" using a by simp_all
  show p: "parents Q pid = reset_parent\<lparr>po_parent_id := pid\<rparr>" using fr(5) by simp
  show "live_children Q = live_children P" and "children Q = children P" using fr by simp_all
  have "family_ok n Q q" if "q \<in> live_parents P" for q
  proof (rule family_cong)
    show "family_ok n P q" using assms(1) that by (simp add: pool_ok_def)
  qed (use that n fr in \<open>auto simp: child_ok_def\<close>)
  moreover have "owned Q" using lp fr n by (intro owned_cong [OF i(3)]) auto
  moreover have "linked n Q pid" by (simp add: linked_def p)
  ultimately show "focus n Q pid" using a i(2) fr(3) by (auto simp: focus_def pool_inv_def)
qed

lemma alloc_parent_fail:
  assumes "pool_ok n P" and "alloc_parent P = (None, Q)"
  shows "pool_ok n Q" and "live_parents Q = live_parents P" and "live_children Q = live_children P" and "children Q = children P"
proof -
  have "Q = P\<lparr>parent_alloc_failures := parent_alloc_failures P + 1\<rparr>"
    using assms(2) by (auto simp: alloc_parent_def Let_def split: if_splits)
  then have e: "parents Q = parents P" "children Q = children P" "live_parents Q = live_parents P"
    "live_children Q = live_children P" "pool_inv Q = pool_inv P"
    by (simp_all add: live_parents_def live_children_def pool_inv_def parents_inv_def children_inv_def)
  then show "pool_ok n Q" using assms(1) by (simp add: pool_ok_def owned_def family_ok_def linked_def has_working_def child_ok_def)
  show "live_parents Q = live_parents P" and "live_children Q = live_children P" and "children Q = children P" using e by simp_all
qed

lemma filter_upt_prefix: "i \<le> 16 \<Longrightarrow> filter (\<lambda>s. s < i) [0..<16] = [0..<i]"
  using upt_split [of i 16] by (auto simp: filter_empty_conv)

lemma child_ids_prefix:
  assumes "i \<le> 16" and "\<And>s. has_child p s \<longleftrightarrow> s < i"
  shows "child_ids p = map (po_children p) [0..<i]"
proof -
  have "has_child p = (\<lambda>s. s < i)" using assms(2) by auto
  then show ?thesis using filter_upt_prefix [OF assms(1)] by (simp add: child_ids_def)
qed

lemma owned_insert:
  assumes "owned P" and "pid \<in> live_parents P" and "live_parents Q = live_parents P" and "live_children Q = insert cid (live_children P)"
    and "child_ids (parents Q pid) = child_ids (parents P pid) @ [cid]" and "\<And>q. q \<noteq> pid \<Longrightarrow> parents Q q = parents P q"
  shows "owned Q"
  unfolding owned_def
proof
  fix c assume "c \<in> live_children Q"
  then consider "c = cid" | q where "q \<in> live_parents P" "c \<in> set (child_ids (parents P q))"
    using assms(1,4) unfolding owned_def by blast
  then show "c \<in> (\<Union>q\<in>live_parents Q. set (child_ids (parents Q q)))"
  proof cases
    case 1
    then have "c \<in> set (child_ids (parents Q pid))" using assms(5) by simp
    then show ?thesis using assms(2,3) by blast
  next
    case (2 q)
    then have "c \<in> set (child_ids (parents Q q))" using assms(5,6) by (cases "q = pid") auto
    then show ?thesis using 2 assms(3) by blast
  qed
qed

text \<open>A new child of the focused parent, in the next slot.\<close>

lemma focus_new_child:
  assumes "focus n P pid" and "alloc_child P = (Some cid, P1)"
    and "i < 16" and "\<And>s. has_child (parents P pid) s \<longleftrightarrow> s < i"
    and "ch_child_id (g (zero_child\<lparr>ch_child_id := cid\<rparr>)) = cid" and "ch_parent_id (g (zero_child\<lparr>ch_child_id := cid\<rparr>)) = pid"
    and "ch_exchange_id (g (zero_child\<lparr>ch_child_id := cid\<rparr>)) < n" and "working (ch_state (g (zero_child\<lparr>ch_child_id := cid\<rparr>)))"
  defines "Q \<equiv> upd_parent pid (add_child i cid) (upd_child cid g P1)"
  shows "focus n Q pid" and "\<And>s. has_child (parents Q pid) s \<longleftrightarrow> s < Suc i" and "has_working Q pid"
    and "cid \<notin> live_children P" and "live_children Q = insert cid (live_children P)" and "live_parents Q = live_parents P"
    and "children Q = (children P)(cid := g (zero_child\<lparr>ch_child_id := cid\<rparr>))"
proof -
  have inv: "children_inv P" "parents_inv P" "linked n P pid" "owned P" "pid \<in> live_parents P"
    using assms(1) by (simp_all add: focus_def pool_inv_def)
  note a = child_pool.alloc_fresh [OF inv(1) assms(2)]
  note fr = alloc_child_frame [OF assms(2)]
  show new: "cid \<notin> live_children P" and lc: "live_children Q = insert cid (live_children P)"
    and lp: "live_parents Q = live_parents P" using a fr by (simp_all add: Q_def)
  show chs: "children Q = (children P)(cid := g (zero_child\<lparr>ch_child_id := cid\<rparr>))"
    using fr(5) by (auto simp: Q_def fun_eq_iff)
  have pQ: "parents Q pid = add_child i cid (parents P pid)" "\<And>q. q \<noteq> pid \<Longrightarrow> parents Q q = parents P q"
    using fr by (simp_all add: Q_def)
  show h: "has_child (parents Q pid) s \<longleftrightarrow> s < Suc i" for s
    by (auto simp only: pQ(1) has_child_add_child [OF assms(3)] assms(4) less_Suc_eq)
  have ids: "child_ids (parents Q pid) = child_ids (parents P pid) @ [cid]"
    using child_ids_prefix [of "Suc i", OF _ h] child_ids_prefix [of i, OF _ assms(4)] assms(3) by (simp add: pQ)
  have ok: "child_ok n Q pid cid" using assms(5-8) chs lc by (simp add: child_ok_def)
  show "has_working Q pid" using ids ok assms(8) chs by (simp add: has_working_def)
  have notin: "cid \<notin> set (child_ids (parents P pid))" using inv(3) new by (auto simp: linked_def child_ok_def)
  have "linked n Q pid"
    using inv(3) notin ok new unfolding linked_def ids by (auto simp: pQ add_child_def child_ok_def chs lc)
  moreover have "owned Q" by (rule owned_insert [OF inv(4,5) lp lc ids pQ(2)])
  moreover have "family_ok n Q q" if "q \<in> live_parents P - {pid}" for q
    using that new pQ chs lc by (intro family_cong [OF focusD(5) [OF assms(1) that]]) (auto simp: child_ok_def)
  ultimately show "focus n Q pid" using inv a fr lp by (auto simp: focus_def pool_inv_def Q_def)
qed

lemma alloc_child_fail:
  assumes "focus n P pid" and "alloc_child P = (None, Q)"
  shows "focus n Q pid" and "parents Q = parents P" and "live_parents Q = live_parents P"
    and "live_children Q = live_children P" and "children Q = children P"
proof -
  have "Q = P\<lparr>child_alloc_failures := child_alloc_failures P + 1\<rparr>"
    using assms(2) by (auto simp: alloc_child_def Let_def split: if_splits)
  then have e: "parents Q = parents P" "children Q = children P" "live_parents Q = live_parents P"
    "live_children Q = live_children P" "pool_inv Q = pool_inv P"
    by (simp_all add: live_parents_def live_children_def pool_inv_def parents_inv_def children_inv_def)
  then show "focus n Q pid"
    using assms(1) by (simp add: focus_def owned_def family_ok_def linked_def has_working_def child_ok_def)
  show "parents Q = parents P" and "live_parents Q = live_parents P"
    and "live_children Q = live_children P" and "children Q = children P" using e by simp_all
qed

end
