(* ===== verification/Core_Invariant.thy ===== *)
theory Core_Invariant
  imports Order_Families Routing_Safe
begin

text \<open>
  The invariant of the execution core and its preservation.  \<open>core_ok\<close> joins the families of the
  pool, the shape of the router's inputs and the timers: an armed timer belongs to a live child, or
  to a child that no longer works.  One lemma per handler, bottom up: each returns (does not fault)
  and says what it leaves alone.
\<close>

subsection \<open>Vocabulary\<close>

definition armed :: "TimerWheel \<Rightarrow> nat set" where
  "armed w = {te_child_id (wheel w slot i) | slot i. te_active (wheel w slot i)}"

definition timers_ok :: "TimerWheel \<Rightarrow> OMSOrderPool \<Rightarrow> bool" where
  "timers_ok w P \<longleftrightarrow> (\<forall>cid\<in>armed w. cid \<in> live_children P \<or> \<not> working (ch_state (children P cid)))"

abbreviation ec_states :: "ExecutionCore \<Rightarrow> ExchangeState list" where
  "ec_states s \<equiv> cfg_exchange_states (ec_cfg s)"

definition config_ok :: "ExecutionCore \<Rightarrow> bool" where
  "config_ok s \<longleftrightarrow> router_shape (ec_sor s) (ec_states s) (cfg_active_exchanges (ec_cfg s))"

definition core_ok :: "ExecutionCore \<Rightarrow> bool" where
  "core_ok s \<longleftrightarrow> config_ok s \<and> pool_ok (length (ec_states s)) (ec_pool s) \<and> timers_ok (ec_timer s) (ec_pool s)"

definition core_focus :: "nat \<Rightarrow> ExecutionCore \<Rightarrow> bool" where
  "core_focus pid s \<longleftrightarrow> config_ok s \<and> focus (length (ec_states s)) (ec_pool s) pid \<and> timers_ok (ec_timer s) (ec_pool s)"

text \<open>What every handler leaves alone, and what only fills change.\<close>

definition env_same :: "ExecutionCore \<Rightarrow> ExecutionCore \<Rightarrow> bool" where
  "env_same s s' \<longleftrightarrow> ec_cfg s' = ec_cfg s \<and> ec_sor s' = ec_sor s \<and> ec_risk s' = ec_risk s \<and> ec_gate s' = ec_gate s \<and>
     ec_book_cache s' = ec_book_cache s \<and> ec_strategy_queue s' = ec_strategy_queue s \<and>
     ec_exec_report_queue s' = ec_exec_report_queue s \<and> ec_running s' = ec_running s \<and>
     tw_now_ns (ec_timer s') = tw_now_ns (ec_timer s) \<and> tw_tick_ns (ec_timer s') = tw_tick_ns (ec_timer s)"

definition net_of :: "nat \<Rightarrow> ExecutionCore \<Rightarrow> int" where
  "net_of i s = net_qty_lots (instruments (ec_pos s) i)"

definition nets_same :: "ExecutionCore \<Rightarrow> ExecutionCore \<Rightarrow> bool" where
  "nets_same s s' \<longleftrightarrow> (\<forall>i. net_of i s' = net_of i s \<and>
     avg_entry_price (instruments (ec_pos s') i) = avg_entry_price (instruments (ec_pos s) i) \<and>
     unwind_only (instruments (ec_pos s') i) = unwind_only (instruments (ec_pos s) i))"

definition order_same :: "ParentOrder \<Rightarrow> ParentOrder \<Rightarrow> bool" where
  "order_same p q \<longleftrightarrow> po_instr_id q = po_instr_id p \<and> po_dir q = po_dir p \<and> po_strategy_id q = po_strategy_id p \<and>
     po_total_qty_lots q = po_total_qty_lots p \<and> po_cum_qty_lots q = po_cum_qty_lots p \<and>
     po_leaves_qty_lots q = po_leaves_qty_lots p \<and> po_reduce_only q = po_reduce_only p"

definition same_identity :: "ParentOrder \<Rightarrow> ParentOrder \<Rightarrow> bool" where
  "same_identity p q \<longleftrightarrow> po_instr_id q = po_instr_id p \<and> po_dir q = po_dir p \<and> po_strategy_id q = po_strategy_id p \<and>
     po_reduce_only q = po_reduce_only p"

definition pushed_reject :: "nat \<Rightarrow> OrderDir \<Rightarrow> nat \<Rightarrow> qty_t \<Rightarrow> RejectReason \<Rightarrow> ExecutionCore \<Rightarrow> ExecutionCore \<Rightarrow> bool" where
  "pushed_reject instr dir strategy qty reason s s' \<longleftrightarrow> (\<exists>ts. ec_reject_queue s' =
     snd (spsc_push OutboundQueueN (ec_reject_queue s) \<lparr>rej_qty_lots = qty, rej_instr_id = instr, rej_dir = dir,
       rej_strategy_id = strategy, rej_reason = reason, rej_reject_ns = ts\<rparr>))"

lemma env_same_refl [simp]: "env_same s s"
  by (simp add: env_same_def)

lemma env_same_trans [trans]: "env_same s t \<Longrightarrow> env_same t u \<Longrightarrow> env_same s u"
  by (simp add: env_same_def)

lemma nets_same_refl [simp]: "nets_same s s"
  by (simp add: nets_same_def)

lemma nets_same_trans [trans]: "nets_same s t \<Longrightarrow> nets_same t u \<Longrightarrow> nets_same s u"
  by (simp add: nets_same_def)

lemma nets_same_pos: "ec_pos s' = ec_pos s \<Longrightarrow> nets_same s s'"
  by (simp add: nets_same_def net_of_def)

lemma order_same_refl [simp]: "order_same p p"
  by (simp add: order_same_def)

lemma order_same_trans [trans]: "order_same p q \<Longrightarrow> order_same q r \<Longrightarrow> order_same p r"
  by (simp add: order_same_def)

lemma order_same_qty: "order_same p q \<Longrightarrow> qty_ok q = qty_ok p"
  by (simp add: order_same_def qty_ok_def)

lemma core_ok_focus: "core_ok s \<Longrightarrow> pid \<in> live_parents (ec_pool s) \<Longrightarrow> core_focus pid s"
  by (simp add: core_ok_def core_focus_def focusI)

lemma core_focus_ok:
  "core_focus pid s \<Longrightarrow> qty_ok (the_parent pid s) \<Longrightarrow> has_working (ec_pool s) pid \<Longrightarrow> core_ok s"
  by (auto simp: core_ok_def core_focus_def the_parent_def intro: pool_okI)

subsection \<open>Armed timers\<close>

lemma armed_clock [simp]: "armed (w\<lparr>tw_now_ns := c\<rparr>) = armed w"
  by (simp add: armed_def)

lemma armed_deactivate: "armed (deactivate slot i w) \<subseteq> armed w"
  by (auto simp: armed_def deactivate_def set_entry_def split: if_splits)

lemma armed_cancel: "armed (tw_cancel cid w) \<subseteq> armed w"
  using armed_deactivate by (fastforce simp: tw_cancel_def split: option.splits)

lemma armed_insert: "armed (snd (tw_insert cid now timeout w)) \<subseteq> insert cid (armed w)"
  by (auto simp: tw_insert_def Let_def armed_def set_entry_def split: option.splits if_splits)

lemma timers_okD: "timers_ok w P \<Longrightarrow> cid \<in> armed w \<Longrightarrow> cid \<in> live_children P \<or> \<not> working (ch_state (children P cid))"
  by (simp add: timers_ok_def)

lemma timers_ok_cancel: "timers_ok w P \<Longrightarrow> timers_ok (tw_cancel cid w) P"
  using armed_cancel by (fastforce simp: timers_ok_def)

lemma timers_ok_cong:
  "timers_ok w P \<Longrightarrow> live_children Q = live_children P \<Longrightarrow> children Q = children P \<Longrightarrow> timers_ok w Q"
  by (simp add: timers_ok_def)

lemma timers_ok_upd_parent [simp]: "timers_ok w (upd_parent pid f P) = timers_ok w P"
  by (simp add: timers_ok_def)

lemma timers_ok_upd_child:
  assumes "timers_ok w P" and "cid \<in> live_children P"
  shows "timers_ok w (upd_child cid g P)"
  using assms by (auto simp: timers_ok_def)

text \<open>Freeing children that no longer work keeps the timers harmless.\<close>

lemma timers_ok_free:
  assumes "timers_ok w P" and "children Q = children P" and "live_children Q = live_children P - ids"
    and "\<And>cid. cid \<in> ids \<Longrightarrow> \<not> working (ch_state (children P cid))"
  shows "timers_ok w Q"
  using assms by (auto simp: timers_ok_def)

subsection \<open>Frames of the small operations\<close>

lemma mod_parent_frame [simp]:
  "ec_pool (mod_parent pid f s) = upd_parent pid f (ec_pool s)" "ec_pos (mod_parent pid f s) = ec_pos s"
  "ec_timer (mod_parent pid f s) = ec_timer s" "ec_cfg (mod_parent pid f s) = ec_cfg s" "ec_sor (mod_parent pid f s) = ec_sor s"
  "ec_risk (mod_parent pid f s) = ec_risk s" "ec_gate (mod_parent pid f s) = ec_gate s"
  "ec_book_cache (mod_parent pid f s) = ec_book_cache s" "ec_reject_queue (mod_parent pid f s) = ec_reject_queue s"
  "ec_margin (mod_parent pid f s) = ec_margin s" "env_same t (mod_parent pid f s) = env_same t s"
  "the_parent pid (mod_parent pid f s) = f (the_parent pid s)" "the_child c (mod_parent pid f s) = the_child c s"
  "config_ok (mod_parent pid f s) = config_ok s"
  by (simp_all add: mod_parent_def env_same_def the_parent_def the_child_def config_ok_def)

lemma mod_child_frame [simp]:
  "ec_pool (mod_child cid g s) = upd_child cid g (ec_pool s)" "ec_pos (mod_child cid g s) = ec_pos s"
  "ec_timer (mod_child cid g s) = ec_timer s" "ec_cfg (mod_child cid g s) = ec_cfg s" "ec_sor (mod_child cid g s) = ec_sor s"
  "ec_risk (mod_child cid g s) = ec_risk s" "ec_gate (mod_child cid g s) = ec_gate s"
  "ec_book_cache (mod_child cid g s) = ec_book_cache s" "ec_reject_queue (mod_child cid g s) = ec_reject_queue s"
  "ec_margin (mod_child cid g s) = ec_margin s" "env_same t (mod_child cid g s) = env_same t s"
  "the_child cid (mod_child cid g s) = g (the_child cid s)" "the_parent p (mod_child cid g s) = the_parent p s"
  "config_ok (mod_child cid g s) = config_ok s"
  by (simp_all add: mod_child_def env_same_def the_parent_def the_child_def config_ok_def)

lemma push_gateway_frame [simp]:
  "ec_pool (push_gateway ex out s) = ec_pool s" "ec_pos (push_gateway ex out s) = ec_pos s"
  "ec_timer (push_gateway ex out s) = ec_timer s" "ec_cfg (push_gateway ex out s) = ec_cfg s"
  "ec_reject_queue (push_gateway ex out s) = ec_reject_queue s" "env_same t (push_gateway ex out s) = env_same t s"
  "config_ok (push_gateway ex out s) = config_ok s"
  by (simp_all add: push_gateway_def env_same_def config_ok_def split: option.splits)

lemma notify_reject_frame [simp]:
  "ec_pool (notify_reject E i d st q r s) = ec_pool s" "ec_pos (notify_reject E i d st q r s) = ec_pos s"
  "ec_timer (notify_reject E i d st q r s) = ec_timer s" "ec_cfg (notify_reject E i d st q r s) = ec_cfg s"
  "env_same t (notify_reject E i d st q r s) = env_same t s" "the_parent p (notify_reject E i d st q r s) = the_parent p s"
  "config_ok (notify_reject E i d st q r s) = config_ok s"
  by (simp_all add: notify_reject_def now_ns_def env_same_def the_parent_def config_ok_def)

lemma notify_reject_pushes:
  "ec_reject_queue t = ec_reject_queue s \<Longrightarrow> pushed_reject i d st q r s (notify_reject E i d st q r t)"
  by (auto simp: notify_reject_def now_ns_def pushed_reject_def)

lemma now_ns_pair: "now_ns E s = (env_clock E (ec_clock_reads s), s\<lparr>ec_clock_reads := ec_clock_reads s + 1\<rparr>)"
  by (simp add: now_ns_def)

lemma clock_frame [simp]:
  "the_parent p (s\<lparr>ec_clock_reads := k\<rparr>) = the_parent p s" "the_child c (s\<lparr>ec_clock_reads := k\<rparr>) = the_child c s"
  "env_same t (s\<lparr>ec_clock_reads := k\<rparr>) = env_same t s" "config_ok (s\<lparr>ec_clock_reads := k\<rparr>) = config_ok s"
  "core_focus p (s\<lparr>ec_clock_reads := k\<rparr>) = core_focus p s" "core_ok (s\<lparr>ec_clock_reads := k\<rparr>) = core_ok s"
  by (simp_all add: the_parent_def the_child_def env_same_def config_ok_def core_focus_def core_ok_def)

lemma mod_instr_some:
  assumes "i < 64"
  shows "\<exists>s'. mod_instr i f s = Some s' \<and> ec_pos s' = upd_instr i f (ec_pos s) \<and> ec_pool s' = ec_pool s \<and>
    ec_timer s' = ec_timer s \<and> ec_cfg s' = ec_cfg s \<and> ec_reject_queue s' = ec_reject_queue s \<and>
    ec_sor s' = ec_sor s \<and> env_same s s' \<and> (\<forall>p. core_focus p s' = core_focus p s)"
  using assms by (simp add: mod_instr_def env_same_def core_focus_def config_ok_def)

lemma core_focus_parent:
  assumes "core_focus pid s" and "po_parent_id (f (the_parent pid s)) = po_parent_id (the_parent pid s)"
    and "po_child_mask (f (the_parent pid s)) = po_child_mask (the_parent pid s)"
    and "po_children (f (the_parent pid s)) = po_children (the_parent pid s)"
  shows "core_focus pid (mod_parent pid f s)"
  using assms focus_upd_parent by (simp add: core_focus_def the_parent_def)

lemma config_ok_upd [simp]:
  "config_ok (s\<lparr>ec_pool := P\<rparr>) = config_ok s" "config_ok (s\<lparr>ec_timer := w\<rparr>) = config_ok s"
  "config_ok (s\<lparr>ec_pos := pt\<rparr>) = config_ok s" "config_ok (s\<lparr>ec_margin := m\<rparr>) = config_ok s"
  "config_ok (s\<lparr>ec_stdin := x\<rparr>) = config_ok s"
  by (simp_all add: config_ok_def)

lemma env_same_from [simp]:
  "env_same (mod_parent pid f s) t = env_same s t" "env_same (mod_child cid g s) t = env_same s t"
  by (simp_all add: env_same_def mod_parent_def mod_child_def)

lemma mod_queue_frame [simp]:
  "ec_strategy_queue (mod_parent pid f s) = ec_strategy_queue s" "ec_strategy_queue (mod_child cid g s) = ec_strategy_queue s"
  "ec_exec_report_queue (mod_parent pid f s) = ec_exec_report_queue s" "ec_exec_report_queue (mod_child cid g s) = ec_exec_report_queue s"
  "ec_running (mod_parent pid f s) = ec_running s" "ec_running (mod_child cid g s) = ec_running s"
  by (simp_all add: mod_parent_def mod_child_def)

subsection \<open>Dispatch\<close>

text \<open>What the dispatch loop may change around the focused parent.\<close>

definition dispatched :: "nat \<Rightarrow> ExecutionCore \<Rightarrow> ExecutionCore \<Rightarrow> bool" where
  "dispatched pid s s' \<longleftrightarrow> env_same s s' \<and> ec_pos s' = ec_pos s \<and> ec_reject_queue s' = ec_reject_queue s \<and>
     live_parents (ec_pool s') = live_parents (ec_pool s) \<and> order_same (the_parent pid s) (the_parent pid s')"

lemma dispatched_refl [simp]: "dispatched pid s s"
  by (simp add: dispatched_def)

lemma dispatched_trans [trans]: "dispatched pid s t \<Longrightarrow> dispatched pid t u \<Longrightarrow> dispatched pid s u"
  unfolding dispatched_def using env_same_trans order_same_trans by metis

definition slots_used :: "nat \<Rightarrow> nat \<Rightarrow> ExecutionCore \<Rightarrow> bool" where
  "slots_used pid i s \<longleftrightarrow> core_focus pid s \<and> i \<le> 16 \<and> po_child_count (the_parent pid s) = i \<and>
     (\<forall>slot. has_child (the_parent pid s) slot \<longleftrightarrow> slot < i) \<and> (0 < i \<longrightarrow> has_working (ec_pool s) pid)"

lemma new_child_fields [simp]:
  "ch_child_id (new_child p ts d st co c) = ch_child_id c" "ch_parent_id (new_child p ts d st co c) = p"
  "ch_exchange_id (new_child p ts d st co c) = co_exchange_id co" "ch_state (new_child p ts d st co c) = PENDING_NEW"
  by (simp_all add: new_child_def Let_def)

lemma timers_ok_new_child:
  assumes "timers_ok w P" and "live_children Q = insert cid (live_children P)"
    and "children Q = (children P)(cid := c)"
  shows "timers_ok (snd (tw_insert cid ts timeout w)) Q"
  using assms armed_insert [of cid ts timeout w] by (fastforce simp: timers_ok_def)

lemma dispatch_one_ok:
  assumes "slots_used pid i s" and "i < 16" and "alloc_child (ec_pool s) = (Some cid, P)"
    and "co_exchange_id co < length (ec_states s)"
  shows "\<exists>s'. dispatch_one pid ts ctx i co cid (s\<lparr>ec_pool := P\<rparr>) = Some s' \<and> slots_used pid (Suc i) s' \<and> dispatched pid s s'"
proof -
  let ?n = "length (ec_states s)" and ?st = "ec_states s ! co_exchange_id co"
  let ?g = "new_child (po_parent_id (parents P pid)) ts (ctx_dir ctx) ?st co"
  let ?Q = "upd_parent pid (add_child i cid) (upd_child cid ?g P)"
  have f: "focus ?n (ec_pool s) pid" "timers_ok (ec_timer s) (ec_pool s)" "config_ok s"
    and h: "\<And>slot. has_child (parents (ec_pool s) pid) slot \<longleftrightarrow> slot < i" and c: "po_child_count (parents (ec_pool s) pid) = i"
    using assms(1) by (auto simp: slots_used_def core_focus_def the_parent_def)
  note fr = alloc_child_frame [OF assms(3)]
  have id: "po_parent_id (parents P pid) = pid" using f(1) fr by (simp add: focus_def linked_def)
  have Q: "focus ?n ?Q pid" "\<And>slot. has_child (parents ?Q pid) slot \<longleftrightarrow> slot < Suc i" "has_working ?Q pid"
    "live_children ?Q = insert cid (live_children (ec_pool s))" "live_parents ?Q = live_parents (ec_pool s)"
    "children ?Q = (children (ec_pool s))(cid := ?g (zero_child\<lparr>ch_child_id := cid\<rparr>))"
    using focus_new_child [OF f(1) assms(3,2) h, of ?g] assms(4) id by (simp_all add: working_def)
  let ?t = "if co_type co = MAKER then cfg_maker_timeout_ns (ec_cfg s) else cfg_child_timeout_ns (ec_cfg s)"
  let ?w = "snd (tw_insert cid ts ?t (ec_timer s))"
  have w: "timers_ok ?w ?Q" by (rule timers_ok_new_child [OF f(2) Q(4,6)])
  have p: "parents ?Q pid = add_child i cid (parents (ec_pool s) pid)" using fr by simp
  have wf: "tw_now_ns ?w = tw_now_ns (ec_timer s)" "tw_tick_ns ?w = tw_tick_ns (ec_timer s)"
    using insert_frame [of cid ts ?t "ec_timer s"] by (cases "tw_insert cid ts ?t (ec_timer s)"; simp)+
  have es: "env_same s (s\<lparr>ec_pool := ?Q, ec_timer := ?w\<rparr>)" using wf by (simp add: env_same_def)
  have "\<exists>out. dispatch_one pid ts ctx i co cid (s\<lparr>ec_pool := P\<rparr>) =
      Some (push_gateway (co_exchange_id co) out (s\<lparr>ec_pool := ?Q, ec_timer := ?w\<rparr>))"
    using assms(2,4) by (cases "co_type co = MAKER") (auto simp: dispatch_one_def Let_def mod_child_def mod_parent_def the_parent_def)
  then obtain out where d: "dispatch_one pid ts ctx i co cid (s\<lparr>ec_pool := P\<rparr>) =
      Some (push_gateway (co_exchange_id co) out (s\<lparr>ec_pool := ?Q, ec_timer := ?w\<rparr>))" by blast
  have "slots_used pid (Suc i) (push_gateway (co_exchange_id co) out (s\<lparr>ec_pool := ?Q, ec_timer := ?w\<rparr>))"
    using Q(1-3) w f(3) assms(2) c p by (simp add: slots_used_def core_focus_def the_parent_def add_child_def)
  moreover have "dispatched pid s (push_gateway (co_exchange_id co) out (s\<lparr>ec_pool := ?Q, ec_timer := ?w\<rparr>))"
    using Q(5) p es by (simp add: dispatched_def the_parent_def order_same_def add_child_def)
  ultimately show ?thesis using d by blast
qed

lemma dispatch_loop_ok:
  assumes "slots_used pid i s" and "list_all (\<lambda>co. co_exchange_id co < length (ec_states s)) orders"
  shows "\<exists>k s'. dispatch_loop pid ts ctx i orders s = Some (k, s') \<and> slots_used pid k s' \<and> dispatched pid s s'"
  using assms
proof (induction orders arbitrary: i s)
  case (Cons co orders)
  show ?case
  proof (cases "i < 16")
    case False
    then show ?thesis using Cons.prems(1) by (simp add: slots_used_def)
  next
    case True
    then have cnt: "po_child_count (the_parent pid s) < 16" using Cons.prems(1) by (simp add: slots_used_def)
    obtain r P where a: "alloc_child (ec_pool s) = (r, P)" by fastforce
    show ?thesis
    proof (cases r)
      case None
      have f: "focus (length (ec_states s)) (ec_pool s) pid" using Cons.prems(1) by (simp add: slots_used_def core_focus_def)
      note e = alloc_child_fail [OF f a [unfolded None]]
      have "timers_ok (ec_timer s) (ec_pool s)" using Cons.prems(1) by (simp add: slots_used_def core_focus_def)
      then have "timers_ok (ec_timer s) P" using e(4,5) by (rule timers_ok_cong)
      then have "slots_used pid i (s\<lparr>ec_pool := P\<rparr>) \<and> dispatched pid s (s\<lparr>ec_pool := P\<rparr>)"
        using Cons.prems(1) e
        by (simp add: slots_used_def core_focus_def the_parent_def config_ok_def has_working_def dispatched_def env_same_def)
      then show ?thesis using a None cnt by simp
    next
      case (Some cid)
      obtain s1 where s1: "dispatch_one pid ts ctx i co cid (s\<lparr>ec_pool := P\<rparr>) = Some s1" "slots_used pid (Suc i) s1" "dispatched pid s s1"
        using dispatch_one_ok [OF Cons.prems(1) True a [unfolded Some], of co ts ctx] Cons.prems(2) by auto
      have "ec_cfg s1 = ec_cfg s" using s1(3) by (simp add: dispatched_def env_same_def)
      then obtain k s2 where "dispatch_loop pid ts ctx (Suc i) orders s1 = Some (k, s2)" "slots_used pid k s2" "dispatched pid s1 s2"
        using Cons.IH [OF s1(2)] Cons.prems(2) by auto
      then show ?thesis using s1 a Some cnt dispatched_trans by fastforce
    qed
  qed
qed simp

text \<open>How a handler that routes a parent ends: the parent is still live, or it was closed and the
  strategy told so.\<close>

definition routed :: "nat \<Rightarrow> RejectReason \<Rightarrow> ExecutionCore \<Rightarrow> ExecutionCore \<Rightarrow> bool" where
  "routed pid reason s s' \<longleftrightarrow> core_ok s' \<and> env_same s s' \<and> nets_same s s' \<and>
     (let p = the_parent pid s
      in live_parents (ec_pool s') = live_parents (ec_pool s) \<and> ec_reject_queue s' = ec_reject_queue s \<and> order_same p (the_parent pid s') \<or>
         live_parents (ec_pool s') = live_parents (ec_pool s) - {pid} \<and>
         pushed_reject (po_instr_id p) (po_dir p) (po_strategy_id p) (po_leaves_qty_lots p) reason s s')"

lemma nets_same_release:
  assumes "ec_pos s' = upd_instr i (release_open d l) (ec_pos s)"
  shows "nets_same s s'"
  using assms by (simp add: nets_same_def net_of_def)

lemma release_parent_ok:
  assumes "core_focus pid s" and "child_ids (the_parent pid s) = []"
  shows "\<exists>s'. release_parent pid s = Some s' \<and> core_ok s' \<and> live_parents (ec_pool s') = live_parents (ec_pool s) - {pid} \<and>
    env_same s s' \<and> ec_pos s' = ec_pos s \<and> ec_reject_queue s' = ec_reject_queue s"
proof -
  have f: "focus (length (ec_states s)) (ec_pool s) pid" "config_ok s" "timers_ok (ec_timer s) (ec_pool s)"
    using assms(1) by (simp_all add: core_focus_def)
  obtain Q where Q: "free_parent pid (ec_pool s) = Some Q" "pool_ok (length (ec_states s)) Q"
    "live_parents Q = live_parents (ec_pool s) - {pid}" "children Q = children (ec_pool s)"
    "live_children Q = live_children (ec_pool s)"
    using focus_free_parent [OF f(1)] assms(2) by (auto simp: the_parent_def)
  have "timers_ok (ec_timer s) Q" using f(3) Q(5,4) by (rule timers_ok_cong)
  moreover have "po_parent_id (the_parent pid s) = pid" using f(1) by (simp add: focus_def linked_def the_parent_def)
  ultimately show ?thesis using Q f(2) by (simp add: release_parent_def core_ok_def env_same_def)
qed

lemma slots_used_no_ids: "slots_used pid 0 s \<Longrightarrow> child_ids (the_parent pid s) = []"
  by (simp add: slots_used_def child_ids_def)

lemma core_focus_pool:
  "core_focus pid s \<Longrightarrow> ec_pool s' = ec_pool s \<Longrightarrow> ec_timer s' = ec_timer s \<Longrightarrow> env_same s s' \<Longrightarrow> core_focus pid s'"
  by (simp add: core_focus_def env_same_def config_ok_def)

lemma release_gap_ok:
  assumes "ctx_states ctx \<noteq> []" and "po_instr_id (the_parent pid s) < 64"
  shows "\<exists>s'. release_gap pid ctx rest s = Some s' \<and> ec_pool s' = ec_pool s \<and> ec_timer s' = ec_timer s \<and>
    ec_reject_queue s' = ec_reject_queue s \<and> env_same s s' \<and> nets_same s s'"
proof -
  obtain r where r: "resolve_reference_lot_size ctx = Some r" using resolve_Some [OF assms(1)] by blast
  define g where "g = to_i64 (std_round (fold (\<lambda>co acc. acc + co_qty co) rest 0 / r))"
  obtain s' where s': "mod_instr (po_instr_id (the_parent pid s)) (release_open (po_dir (the_parent pid s)) g) s = Some s'"
    "ec_pos s' = upd_instr (po_instr_id (the_parent pid s)) (release_open (po_dir (the_parent pid s)) g) (ec_pos s)"
    "ec_pool s' = ec_pool s" "ec_timer s' = ec_timer s" "ec_reject_queue s' = ec_reject_queue s" "env_same s s'"
    using mod_instr_some [OF assms(2)] by blast
  then show ?thesis using r nets_same_release [OF s'(2)]
    by (cases "0 < g") (simp_all add: release_gap_def g_def [symmetric])
qed

lemma close_with_reject:
  assumes "slots_used pid 0 s" and "p = the_parent pid s"
  shows "\<exists>s'. release_parent pid (notify_reject E (po_instr_id p) (po_dir p) (po_strategy_id p) (po_leaves_qty_lots p) reason
      (mod_parent pid (\<lambda>p. p\<lparr>po_state := f p\<rparr>) s)) = Some s' \<and> routed pid reason s s'"
proof -
  let ?t = "notify_reject E (po_instr_id p) (po_dir p) (po_strategy_id p) (po_leaves_qty_lots p) reason
      (mod_parent pid (\<lambda>p. p\<lparr>po_state := f p\<rparr>) s)"
  have c: "core_focus pid (mod_parent pid (\<lambda>p. p\<lparr>po_state := f p\<rparr>) s)"
    using assms(1) by (intro core_focus_parent) (simp_all add: slots_used_def)
  have "core_focus pid ?t" by (rule core_focus_pool [OF c]) simp_all
  moreover have "child_ids (the_parent pid ?t) = child_ids (the_parent pid s)"
    by (simp, rule child_ids_cong) simp_all
  ultimately obtain s' where s': "release_parent pid ?t = Some s'" "core_ok s'" "live_parents (ec_pool s') = live_parents (ec_pool ?t) - {pid}"
    "env_same ?t s'" "ec_pos s' = ec_pos ?t" "ec_reject_queue s' = ec_reject_queue ?t"
    using release_parent_ok [of pid ?t] slots_used_no_ids [OF assms(1)] by auto
  have "pushed_reject (po_instr_id p) (po_dir p) (po_strategy_id p) (po_leaves_qty_lots p) reason s ?t"
    by (rule notify_reject_pushes) simp
  then have "pushed_reject (po_instr_id p) (po_dir p) (po_strategy_id p) (po_leaves_qty_lots p) reason s s'"
    using s'(6) by (simp add: pushed_reject_def)
  moreover have "env_same s s'" using s'(4) env_same_trans [of s ?t s'] by simp
  moreover have "nets_same s s'" using s'(5) by (intro nets_same_pos) simp
  ultimately show ?thesis using s'(1-3) assms(2) by (auto simp: routed_def Let_def)
qed

text \<open>The dispatch up to the test whether any child came out of it.\<close>

lemma dispatch_children_run:
  assumes "slots_used pid 0 s" and "qty_ok (the_parent pid s)" and "ctx_states ctx \<noteq> []"
    and "list_all (\<lambda>co. co_exchange_id co < length (ec_states s)) buf"
  obtains k t where "slots_used pid k t" and "qty_ok (the_parent pid t)" and "order_same (the_parent pid s) (the_parent pid t)"
    and "env_same s t" and "nets_same s t" and "ec_reject_queue t = ec_reject_queue s" and "live_parents (ec_pool t) = live_parents (ec_pool s)"
    and "dispatch_child_orders E pid buf ctx s =
     (let parent = the_parent pid t in if po_child_count parent = 0 then
       release_parent pid (notify_reject E (po_instr_id parent) (po_dir parent) (po_strategy_id parent) (po_leaves_qty_lots parent)
         CHILD_POOL_EXHAUSTED (mod_parent pid (\<lambda>p. p\<lparr>po_state := (if po_cum_qty_lots p > 0 then PARTIALLY_FILLED else REJECTED)\<rparr>) t))
      else Some t)"
proof -
  let ?ts = "env_clock E (ec_clock_reads s)" and ?s0 = "s\<lparr>ec_clock_reads := ec_clock_reads s + 1\<rparr>"
  have "slots_used pid 0 ?s0" "list_all (\<lambda>co. co_exchange_id co < length (ec_states ?s0)) buf"
    using assms(1,4) by (simp_all add: slots_used_def)
  then obtain k s1 where s1: "dispatch_loop pid ?ts ctx 0 buf ?s0 = Some (k, s1)" "slots_used pid k s1" "dispatched pid ?s0 s1"
    using dispatch_loop_ok by blast
  have o1: "order_same (the_parent pid s) (the_parent pid s1)" "env_same s s1" "nets_same s s1"
    "ec_reject_queue s1 = ec_reject_queue s" "live_parents (ec_pool s1) = live_parents (ec_pool s)"
    using s1(3) by (auto simp: dispatched_def env_same_def intro: nets_same_pos)
  have q1: "qty_ok (the_parent pid s1)" using assms(2) order_same_qty [OF o1(1)] by simp
  obtain s2 where s2: "(if k < length buf then release_gap pid ctx (drop k buf) s1 else Some s1) = Some s2"
    "ec_pool s2 = ec_pool s1" "ec_timer s2 = ec_timer s1" "ec_reject_queue s2 = ec_reject_queue s1" "env_same s1 s2" "nets_same s1 s2"
    using release_gap_ok [OF assms(3), of pid s1 "drop k buf"] q1 by (cases "k < length buf") (auto simp: qty_ok_def)
  have p2: "the_parent pid s2 = the_parent pid s1" using s2(2) by (simp add: the_parent_def)
  have u2: "slots_used pid k s2"
    using s1(2) core_focus_pool [OF _ s2(2,3,5)] p2 s2(2) by (simp add: slots_used_def)
  have e2: "env_same s s2" "nets_same s s2" using o1 s2(5,6) env_same_trans nets_same_trans by blast+
  show ?thesis
    by (rule that [OF u2]) (use q1 p2 o1 e2 s1(1) s2 in \<open>simp_all add: dispatch_child_orders_def now_ns_pair Let_def\<close>)
qed

lemma dispatch_child_orders_ok:
  assumes "slots_used pid 0 s" and "qty_ok (the_parent pid s)" and "ctx_states ctx \<noteq> []"
    and "list_all (\<lambda>co. co_exchange_id co < length (ec_states s)) buf"
  shows "\<exists>s'. dispatch_child_orders E pid buf ctx s = Some s' \<and> routed pid CHILD_POOL_EXHAUSTED s s'"
proof -
  obtain k t where u: "slots_used pid k t" "qty_ok (the_parent pid t)"
    and o: "order_same (the_parent pid s) (the_parent pid t)" "env_same s t" "nets_same s t" "ec_reject_queue t = ec_reject_queue s"
      "live_parents (ec_pool t) = live_parents (ec_pool s)"
    and d: "dispatch_child_orders E pid buf ctx s =
     (let parent = the_parent pid t in if po_child_count parent = 0 then
       release_parent pid (notify_reject E (po_instr_id parent) (po_dir parent) (po_strategy_id parent) (po_leaves_qty_lots parent)
         CHILD_POOL_EXHAUSTED (mod_parent pid (\<lambda>p. p\<lparr>po_state := (if po_cum_qty_lots p > 0 then PARTIALLY_FILLED else REJECTED)\<rparr>) t))
      else Some t)"
    by (rule dispatch_children_run [OF assms, of E])
  show ?thesis
  proof (cases "k = 0")
    case False
    then have "has_working (ec_pool t) pid" "core_focus pid t" "po_child_count (the_parent pid t) \<noteq> 0"
      using u(1) by (auto simp: slots_used_def)
    moreover have "core_ok t" using core_focus_ok [OF calculation(2) _ calculation(1)] u(2) by simp
    ultimately show ?thesis using d o by (simp add: routed_def Let_def)
  next
    case True
    then have v: "slots_used pid 0 t" and c: "po_child_count (the_parent pid t) = 0" using u(1) by (auto simp: slots_used_def)
    obtain s' where s': "dispatch_child_orders E pid buf ctx s = Some s'" "routed pid CHILD_POOL_EXHAUSTED t s'"
      using close_with_reject [OF v refl, of E CHILD_POOL_EXHAUSTED "\<lambda>p. if po_cum_qty_lots p > 0 then PARTIALLY_FILLED else REJECTED"] d c
      by (auto simp: Let_def)
    have "routed pid CHILD_POOL_EXHAUSTED s s'"
      using s'(2) o env_same_trans [OF o(2)] nets_same_trans [OF o(3)] order_same_trans [OF o(1), of "the_parent pid s'"]
      by (auto simp: routed_def Let_def order_same_def pushed_reject_def)
    then show ?thesis using s'(1) by blast
  qed
qed

subsection \<open>Routing again\<close>

lemma clamp_range:
  assumes "i < 64" and "0 \<le> q"
  shows "0 \<le> clamp_reduce_only pos i d q True" and "clamp_reduce_only pos i d q True \<le> q"
  using assms by (simp_all add: clamp_reduce_only_eq Let_def min_def)

text \<open>How a parent that is routed again can end: as after a dispatch, or closed without a reject
  because a reduce-only order has nothing left to reduce.\<close>

definition rerouted :: "nat \<Rightarrow> ExecutionCore \<Rightarrow> ExecutionCore \<Rightarrow> bool" where
  "rerouted pid s s' \<longleftrightarrow> core_ok s' \<and> env_same s s' \<and> nets_same s s' \<and>
     (let p = the_parent pid s
      in live_parents (ec_pool s') = live_parents (ec_pool s) \<and> ec_reject_queue s' = ec_reject_queue s \<or>
         live_parents (ec_pool s') = live_parents (ec_pool s) - {pid} \<and>
         (po_reduce_only p \<and> ec_reject_queue s' = ec_reject_queue s \<or>
          (\<exists>qty. \<exists>reason\<in>{CHILD_POOL_EXHAUSTED, NO_LIQUIDITY}.
            pushed_reject (po_instr_id p) (po_dir p) (po_strategy_id p) qty reason s s')))"

lemma build_routing_context_ok:
  assumes "config_ok s"
  shows "\<exists>ctx. build_routing_context p q s = Some ctx \<and> ctx_states ctx = ec_states s \<and> ctx_target_lots ctx = q \<and>
    ctx_active_exchanges ctx = cfg_active_exchanges (ec_cfg s) \<and>
    ctx_reference_lot_size ctx = lot_size (cfg_instruments (ec_cfg s)) (po_instr_id p)"
  using assms by (auto simp: build_routing_context_def config_ok_def router_shape_def Let_def nth_opt_def)

lemma clear_children:
  assumes "core_focus pid s" and "all_children_terminal (the_parent pid s) s"
  defines "clear \<equiv> (\<lambda>p. p\<lparr>po_child_count := 0, po_child_mask := 0\<rparr>)"
  shows "\<exists>t. release_children (filter (\<lambda>cid. terminal_state (ch_state (the_child cid s))) (child_ids (the_parent pid s))) s = Some t \<and>
    slots_used pid 0 (mod_parent pid clear t) \<and> env_same s t \<and> ec_pos t = ec_pos s \<and> ec_reject_queue t = ec_reject_queue s \<and>
    the_parent pid t = the_parent pid s \<and> live_parents (ec_pool t) = live_parents (ec_pool s)"
proof -
  let ?P = "ec_pool s" and ?n = "length (ec_states s)" and ?ids = "child_ids (the_parent pid s)"
  have f: "focus ?n ?P pid" "config_ok s" "timers_ok (ec_timer s) ?P" using assms(1) by (simp_all add: core_focus_def)
  have ok: "child_ok ?n ?P pid cid" if "cid \<in> set ?ids" for cid using that f(1) by (simp add: focus_def linked_def the_parent_def)
  have nw: "\<not> working (ch_state (children ?P cid))" if "cid \<in> set ?ids" for cid
    using that assms(2) by (auto simp: all_children_terminal_def list_all_iff working_def the_child_def)
  have flt: "filter (\<lambda>cid. terminal_state (ch_state (the_child cid s))) ?ids = ?ids"
    using ok nw by (auto simp: filter_id_conv child_ok_def the_child_def)
  obtain Q where Q: "free_all free_child ?ids ?P = Some Q" "parents Q = parents ?P" "children Q = children ?P"
    "live_parents Q = live_parents ?P" "live_children Q = live_children ?P - set ?ids" "focus ?n (upd_parent pid clear Q) pid"
    using focus_free_children [OF f(1), of clear] by (auto simp: clear_def the_parent_def)
  have "timers_ok (ec_timer s) Q" using timers_ok_free [OF f(3) Q(3,5)] nw by blast
  then have "slots_used pid 0 (mod_parent pid clear (s\<lparr>ec_pool := Q\<rparr>))"
    using Q(6) f(2) by (simp add: slots_used_def core_focus_def the_parent_def has_child_def clear_def)
  then show ?thesis using flt Q by (simp add: release_children_def env_same_def the_parent_def)
qed

text \<open>The parent after the clamp, before the test for zero.\<close>

lemma shrink_step:
  assumes "slots_used pid 0 s" and "qty_ok (the_parent pid s)" and "po_reduce_only (the_parent pid s)"
  shows "\<exists>q t. shrink_reduce_only pid s = (if q = 0
      then Option.bind (release_parent pid (mod_parent pid (\<lambda>p. p\<lparr>po_state := (if po_cum_qty_lots p > 0 then FILLED else REJECTED)\<rparr>) t)) (\<lambda>s. Some (True, s))
      else Some (False, t)) \<and> 0 \<le> q \<and> slots_used pid 0 t \<and> env_same s t \<and> nets_same s t \<and> ec_reject_queue t = ec_reject_queue s \<and>
    live_parents (ec_pool t) = live_parents (ec_pool s) \<and> same_identity (the_parent pid s) (the_parent pid t) \<and>
    po_leaves_qty_lots (the_parent pid t) = q \<and> po_total_qty_lots (the_parent pid t) = po_cum_qty_lots (the_parent pid t) + q"
proof -
  let ?p = "the_parent pid s"
  define q where "q = clamp_reduce_only (ec_pos s) (po_instr_id ?p) (po_dir ?p) (po_leaves_qty_lots ?p) True"
  define ex where "ex = po_leaves_qty_lots ?p - q"
  have i: "po_instr_id ?p < 64" "0 < po_leaves_qty_lots ?p" using assms(2) by (simp_all add: qty_ok_def)
  have q: "0 \<le> q" "q \<le> po_leaves_qty_lots ?p" using clamp_range [OF i(1)] i(2) by (simp_all add: q_def)
  let ?f = "\<lambda>p. p\<lparr>po_total_qty_lots := po_total_qty_lots p - ex, po_leaves_qty_lots := q\<rparr>"
  obtain s1 where s1: "mod_instr (po_instr_id ?p) (release_open (po_dir ?p) ex) s = Some s1"
    "ec_pos s1 = upd_instr (po_instr_id ?p) (release_open (po_dir ?p) ex) (ec_pos s)" "ec_pool s1 = ec_pool s"
    "ec_timer s1 = ec_timer s" "ec_reject_queue s1 = ec_reject_queue s" "env_same s s1"
    using mod_instr_some [OF i(1)] by blast
  define t where "t = (if q < po_leaves_qty_lots ?p then mod_parent pid ?f s1 else s)"
  have p1: "the_parent pid s1 = ?p" using s1(3) by (simp add: the_parent_def)
  have c1: "core_focus pid s1" using assms(1) core_focus_pool [OF _ s1(3,4,6)] by (simp add: slots_used_def)
  have "core_focus pid (mod_parent pid ?f s1)" by (rule core_focus_parent [OF c1]) simp_all
  then have u: "slots_used pid 0 t" using assms(1) p1 by (auto simp: slots_used_def t_def has_child_def)
  have e: "env_same s t" "nets_same s t" "ec_reject_queue t = ec_reject_queue s" "live_parents (ec_pool t) = live_parents (ec_pool s)"
    using s1 nets_same_release [OF s1(2)] by (simp_all add: t_def nets_same_def net_of_def)
  have pt: "same_identity ?p (the_parent pid t)" "po_leaves_qty_lots (the_parent pid t) = q"
    "po_total_qty_lots (the_parent pid t) = po_cum_qty_lots (the_parent pid t) + q"
    using q assms(2,3) p1 by (simp_all add: t_def ex_def qty_ok_def same_identity_def)
  have "shrink_reduce_only pid s = (if q = 0
      then Option.bind (release_parent pid (mod_parent pid (\<lambda>p. p\<lparr>po_state := (if po_cum_qty_lots p > 0 then FILLED else REJECTED)\<rparr>) t)) (\<lambda>s. Some (True, s))
      else Some (False, t))"
    using assms(3) s1(1) pt(2) i(2) by (cases "q < po_leaves_qty_lots ?p") (auto simp: shrink_reduce_only_def q_def [symmetric] ex_def [symmetric] t_def Let_def)
  then show ?thesis using q(1) u e pt by blast
qed

lemma close_silently:
  assumes "slots_used pid 0 t"
  shows "\<exists>s'. release_parent pid (mod_parent pid (\<lambda>p. p\<lparr>po_state := f p\<rparr>) t) = Some s' \<and> core_ok s' \<and>
    live_parents (ec_pool s') = live_parents (ec_pool t) - {pid} \<and> env_same t s' \<and> nets_same t s' \<and> ec_reject_queue s' = ec_reject_queue t"
proof -
  let ?t = "mod_parent pid (\<lambda>p. p\<lparr>po_state := f p\<rparr>) t"
  have c: "core_focus pid ?t" using assms by (intro core_focus_parent) (simp_all add: slots_used_def)
  have "child_ids (the_parent pid ?t) = []"
    using slots_used_no_ids [OF assms] child_ids_cong [of "the_parent pid ?t" "the_parent pid t"] by simp
  then show ?thesis using release_parent_ok [OF c] nets_same_pos by auto
qed

definition shrunk :: "nat \<Rightarrow> bool \<Rightarrow> ExecutionCore \<Rightarrow> ExecutionCore \<Rightarrow> bool" where
  "shrunk pid fin s s' \<longleftrightarrow> env_same s s' \<and> nets_same s s' \<and> ec_reject_queue s' = ec_reject_queue s \<and>
    (if fin then core_ok s' \<and> live_parents (ec_pool s') = live_parents (ec_pool s) - {pid} \<and> po_reduce_only (the_parent pid s)
     else slots_used pid 0 s' \<and> qty_ok (the_parent pid s') \<and> live_parents (ec_pool s') = live_parents (ec_pool s) \<and>
       same_identity (the_parent pid s) (the_parent pid s'))"

lemma shrink_reduce_only_ok:
  assumes "slots_used pid 0 s" and "qty_ok (the_parent pid s)"
  shows "\<exists>fin s'. shrink_reduce_only pid s = Some (fin, s') \<and> shrunk pid fin s s'"
proof (cases "po_reduce_only (the_parent pid s)")
  case False
  then show ?thesis using assms by (intro exI [of _ False] exI [of _ s]) (simp add: shrink_reduce_only_def shrunk_def same_identity_def)
next
  case True
  obtain q t where step: "shrink_reduce_only pid s = (if q = 0
      then Option.bind (release_parent pid (mod_parent pid (\<lambda>p. p\<lparr>po_state := (if po_cum_qty_lots p > 0 then FILLED else REJECTED)\<rparr>) t)) (\<lambda>s. Some (True, s))
      else Some (False, t))"
    and t: "0 \<le> q" "slots_used pid 0 t" "env_same s t" "nets_same s t" "ec_reject_queue t = ec_reject_queue s"
      "live_parents (ec_pool t) = live_parents (ec_pool s)" "same_identity (the_parent pid s) (the_parent pid t)"
      "po_leaves_qty_lots (the_parent pid t) = q" "po_total_qty_lots (the_parent pid t) = po_cum_qty_lots (the_parent pid t) + q"
    using shrink_step [OF assms True] by blast
  show ?thesis
  proof (cases "q = 0")
    case False
    then show ?thesis using step t assms(2) True by (auto simp: shrunk_def qty_ok_def same_identity_def)
  next
    case q0: True
    obtain s' where s': "release_parent pid (mod_parent pid (\<lambda>p. p\<lparr>po_state := (if po_cum_qty_lots p > 0 then FILLED else REJECTED)\<rparr>) t) = Some s'"
      "core_ok s'" "live_parents (ec_pool s') = live_parents (ec_pool t) - {pid}" "env_same t s'" "nets_same t s'" "ec_reject_queue s' = ec_reject_queue t"
      using close_silently [OF t(2), of "\<lambda>p. if po_cum_qty_lots p > 0 then FILLED else REJECTED"] by blast
    then show ?thesis using step q0 t True env_same_trans [OF t(3)] nets_same_trans [OF t(4)]
      by (intro exI [of _ True] exI [of _ s']) (simp add: shrunk_def)
  qed
qed

lemma rerouted_trans:
  assumes "rerouted pid t s'" and "env_same s t" and "nets_same s t" and "ec_reject_queue t = ec_reject_queue s"
    and "live_parents (ec_pool t) = live_parents (ec_pool s)" and "same_identity (the_parent pid s) (the_parent pid t)"
  shows "rerouted pid s s'"
  using assms env_same_trans [OF assms(2)] nets_same_trans [OF assms(3)]
  by (simp add: rerouted_def Let_def pushed_reject_def same_identity_def)

lemma routed_rerouted: "routed pid reason s s' \<Longrightarrow> reason \<in> {CHILD_POOL_EXHAUSTED, NO_LIQUIDITY} \<Longrightarrow> rerouted pid s s'"
  by (auto simp: routed_def rerouted_def Let_def)

text \<open>Routing the leaves once the old children are gone.\<close>

lemma route_rest_ok:
  assumes "slots_used pid 0 s" and "qty_ok (the_parent pid s)"
    and "ctx_states ctx = ec_states s" and "ctx_active_exchanges ctx = cfg_active_exchanges (ec_cfg s)" and "0 < ctx_target_lots ctx"
  shows "\<exists>s'. route_rest E pid ctx s = Some s' \<and> rerouted pid s s'"
proof -
  have sh: "router_shape (ec_sor s) (ctx_states ctx) (ctx_active_exchanges ctx)"
    using assms(1,3,4) by (simp add: slots_used_def core_focus_def config_ok_def)
  then obtain res buf where r: "calculate_optimal_split (env_exp E) (ec_sor s) ctx [] = Some (res, buf)"
    "list_all (\<lambda>co. co_exchange_id co < length (ec_states s)) buf"
    using router_returns [OF sh assms(5)] assms(3) by metis
  show ?thesis
  proof (cases "buf = []")
    case True
    then show ?thesis
      using r(1) close_with_reject [OF assms(1) refl, of E NO_LIQUIDITY "\<lambda>p. if po_cum_qty_lots p > 0 then PARTIALLY_FILLED else REJECTED"]
        routed_rerouted [of pid NO_LIQUIDITY s] by (auto simp: route_rest_def Let_def)
  next
    case False
    let ?t = "mod_parent pid (\<lambda>p. p\<lparr>po_state := PENDING_NEW\<rparr>) s"
    have "core_focus pid ?t" using assms(1) by (intro core_focus_parent) (simp_all add: slots_used_def)
    then have t: "slots_used pid 0 ?t" "qty_ok (the_parent pid ?t)"
      using assms(1,2) by (simp_all add: slots_used_def has_child_def qty_ok_def)
    have "ctx_states ctx \<noteq> []" using sh by (simp add: router_shape_def)
    then obtain s' where s': "dispatch_child_orders E pid buf ctx ?t = Some s'" "routed pid CHILD_POOL_EXHAUSTED ?t s'"
      using dispatch_child_orders_ok [OF t, of ctx buf E] r(2) by auto
    have "rerouted pid ?t s'" using routed_rerouted [OF s'(2)] by simp
    then have "rerouted pid s s'" by (rule rerouted_trans) (simp_all add: nets_same_pos same_identity_def)
    then show ?thesis using False r(1) s'(1) by (auto simp: route_rest_def)
  qed
qed

text \<open>The first half of \<^verbatim>\<open>reroute_leaves\<close>: the old children are freed, a reduce-only parent is clamped.\<close>

lemma reroute_prepared:
  assumes "core_focus pid s" and "qty_ok (the_parent pid s)" and "all_children_terminal (the_parent pid s) s"
  shows "\<exists>t fin u. release_children (filter (\<lambda>cid. terminal_state (ch_state (the_child cid s))) (child_ids (the_parent pid s)))
      (s\<lparr>ec_clock_reads := ec_clock_reads s + 1\<rparr>) = Some t \<and>
    shrink_reduce_only pid (mod_parent pid (\<lambda>p. p\<lparr>po_child_count := 0, po_child_mask := 0\<rparr>) t) = Some (fin, u) \<and>
    env_same s u \<and> nets_same s u \<and> ec_reject_queue u = ec_reject_queue s \<and>
    (if fin then core_ok u \<and> live_parents (ec_pool u) = live_parents (ec_pool s) - {pid} \<and> po_reduce_only (the_parent pid s)
     else slots_used pid 0 u \<and> qty_ok (the_parent pid u) \<and> live_parents (ec_pool u) = live_parents (ec_pool s) \<and>
       same_identity (the_parent pid s) (the_parent pid u))"
proof -
  let ?s0 = "s\<lparr>ec_clock_reads := ec_clock_reads s + 1\<rparr>" and ?clear = "\<lambda>p. p\<lparr>po_child_count := 0, po_child_mask := 0\<rparr>"
  have t0: "core_focus pid ?s0" "all_children_terminal (the_parent pid ?s0) ?s0"
    using assms(1,3) by (simp_all add: all_children_terminal_def)
  obtain t where t: "release_children (filter (\<lambda>cid. terminal_state (ch_state (the_child cid s))) (child_ids (the_parent pid s))) ?s0 = Some t"
    "slots_used pid 0 (mod_parent pid ?clear t)" "env_same ?s0 t" "ec_pos t = ec_pos s" "ec_reject_queue t = ec_reject_queue s"
    "the_parent pid t = the_parent pid s" "live_parents (ec_pool t) = live_parents (ec_pool s)"
    using clear_children [OF t0] by auto
  let ?t = "mod_parent pid ?clear t"
  have "env_same s ?s0" by simp
  then have et: "env_same s ?t" using env_same_trans [OF _ t(3)] by simp
  have "qty_ok (the_parent pid ?t)" using assms(2) t(6) by (simp add: qty_ok_def)
  then obtain fin u where u: "shrink_reduce_only pid ?t = Some (fin, u)" "shrunk pid fin ?t u"
    using shrink_reduce_only_ok [OF t(2)] by blast
  have "env_same s u" "nets_same s u"
    using u(2) env_same_trans [OF et] nets_same_trans [OF nets_same_pos, of ?t s u] t(4) by (simp_all add: shrunk_def)
  moreover have "same_identity (the_parent pid ?t) q \<longleftrightarrow> same_identity (the_parent pid s) q" for q
    using t(6) by (simp add: same_identity_def)
  ultimately show ?thesis using t u by - (rule exI [of _ t], rule exI [of _ fin], rule exI [of _ u], cases fin, simp_all add: shrunk_def)
qed

text \<open>The run of \<^verbatim>\<open>reroute_leaves\<close> up to the call of the router.\<close>

lemma reroute_leaves_run:
  assumes "core_focus pid s" and "qty_ok (the_parent pid s)" and "all_children_terminal (the_parent pid s) s"
    and "release_children (filter (\<lambda>cid. terminal_state (ch_state (the_child cid s))) (child_ids (the_parent pid s)))
      (s\<lparr>ec_clock_reads := ec_clock_reads s + 1\<rparr>) = Some t"
    and "shrink_reduce_only pid (mod_parent pid (\<lambda>p. p\<lparr>po_child_count := 0, po_child_mask := 0\<rparr>) t) = Some (fin, u)"
  obtains c where "reroute_leaves E pid s = (if fin then Some u else route_rest E pid c u)"
    and "ctx_states c = ec_states s" and "ctx_active_exchanges c = cfg_active_exchanges (ec_cfg s)"
    and "ctx_reference_lot_size c = lot_size (cfg_instruments (ec_cfg s)) (po_instr_id (the_parent pid s))"
    and "ctx_target_lots c = po_leaves_qty_lots (the_parent pid (if po_reduce_only (the_parent pid u) then u else s))"
proof -
  let ?p = "the_parent pid s"
  have cfg: "config_ok s" using assms(1) by (simp add: core_focus_def)
  obtain ctx0 where ctx0: "build_routing_context ?p (po_leaves_qty_lots ?p) s = Some ctx0" "ctx_states ctx0 = ec_states s"
    "ctx_target_lots ctx0 = po_leaves_qty_lots ?p" "ctx_active_exchanges ctx0 = cfg_active_exchanges (ec_cfg s)"
    "ctx_reference_lot_size ctx0 = lot_size (cfg_instruments (ec_cfg s)) (po_instr_id ?p)"
    using build_routing_context_ok [OF cfg] by blast
  define ctx where "ctx = (let inp = get_routing_inputs (ec_book_cache s) (po_dir ?p) (env_clock E (ec_clock_reads s))
    in ctx0\<lparr>ctx_short_vol_factor := ri_short_vol_factor inp, ctx_book_imbalance := ri_book_imbalance inp,
      ctx_decision_ns := env_clock E (ec_clock_reads s)\<rparr>)"
  define c where "c = (if po_reduce_only (the_parent pid u) then ctx\<lparr>ctx_target_lots := po_leaves_qty_lots (the_parent pid u)\<rparr> else ctx)"
  show ?thesis
  proof (rule that [of c])
    show "reroute_leaves E pid s = (if fin then Some u else route_rest E pid c u)"
      using ctx0(1) assms(4,5) by (simp add: reroute_leaves_def now_ns_pair Let_def c_def ctx_def cong: if_cong)
  qed (use ctx0 in \<open>simp_all add: c_def ctx_def Let_def\<close>)
qed

lemma reroute_leaves_ok:
  assumes "core_focus pid s" and "qty_ok (the_parent pid s)" and "all_children_terminal (the_parent pid s) s"
  shows "\<exists>s'. reroute_leaves E pid s = Some s' \<and> rerouted pid s s'"
proof -
  obtain t fin u where t: "release_children (filter (\<lambda>cid. terminal_state (ch_state (the_child cid s))) (child_ids (the_parent pid s)))
      (s\<lparr>ec_clock_reads := ec_clock_reads s + 1\<rparr>) = Some t"
    and sh: "shrink_reduce_only pid (mod_parent pid (\<lambda>p. p\<lparr>po_child_count := 0, po_child_mask := 0\<rparr>) t) = Some (fin, u)"
    and u: "env_same s u" "nets_same s u" "ec_reject_queue u = ec_reject_queue s"
      "if fin then core_ok u \<and> live_parents (ec_pool u) = live_parents (ec_pool s) - {pid} \<and> po_reduce_only (the_parent pid s)
       else slots_used pid 0 u \<and> qty_ok (the_parent pid u) \<and> live_parents (ec_pool u) = live_parents (ec_pool s) \<and>
         same_identity (the_parent pid s) (the_parent pid u)"
    using reroute_prepared [OF assms] by blast
  obtain c where c: "reroute_leaves E pid s = (if fin then Some u else route_rest E pid c u)"
    "ctx_states c = ec_states s" "ctx_active_exchanges c = cfg_active_exchanges (ec_cfg s)"
    "ctx_target_lots c = po_leaves_qty_lots (the_parent pid (if po_reduce_only (the_parent pid u) then u else s))"
    using reroute_leaves_run [OF assms t sh, of E] by blast
  show ?thesis
  proof (cases fin)
    case True
    then show ?thesis using c(1) u by (simp add: rerouted_def Let_def)
  next
    case False
    have v: "slots_used pid 0 u" "qty_ok (the_parent pid u)" using u(4) False by simp_all
    have "0 < ctx_target_lots c" using c(4) v(2) assms(2) by (simp add: qty_ok_def)
    then obtain s' where s': "route_rest E pid c u = Some s'" "rerouted pid u s'"
      using route_rest_ok [OF v, of c E] c(2,3) u(1) by (auto simp: env_same_def)
    have "rerouted pid s s'" using u False by (intro rerouted_trans [OF s'(2)]) simp_all
    then show ?thesis using s'(1) c(1) False by simp
  qed
qed

end
