(* ===== verification/Core_Handlers.thy ===== *)
theory Core_Handlers
  imports Core_Invariant
begin

text \<open>
  The two entry points of the execution core keep the invariant: execution reports (\<open>report_ok\<close> says
  which the code can rely on) and new orders (\<open>answered\<close> says how each ends).
\<close>

subsection \<open>Execution reports\<close>

lemma core_margin_frame [simp]:
  "ec_pool (core_margin f s) = ec_pool s" "ec_timer (core_margin f s) = ec_timer s" "ec_cfg (core_margin f s) = ec_cfg s"
  "ec_reject_queue (core_margin f s) = ec_reject_queue s" "env_same t (core_margin f s) = env_same t s"
  "the_parent p (core_margin f s) = the_parent p s" "the_child c (core_margin f s) = the_child c s"
  "core_focus p (core_margin f s) = core_focus p s"
  by (simp_all add: core_margin_def env_same_def the_parent_def the_child_def core_focus_def config_ok_def split: prod.splits)

lemma core_margin_instruments [simp]:
  "instruments (ec_pos (core_margin (on_fill l x z) s)) = instruments (ec_pos s)"
  "instruments (ec_pos (core_margin (on_release l x z) s)) = instruments (ec_pos s)"
  by (simp_all add: core_margin_def on_fill_def on_release_def Let_def)

lemma timer_upd_frame [simp]:
  "the_parent p (s\<lparr>ec_timer := w\<rparr>) = the_parent p s" "the_child c (s\<lparr>ec_timer := w\<rparr>) = the_child c s"
  by (simp_all add: the_parent_def the_child_def)

lemma core_focus_cancel:
  assumes "core_focus pid s"
  shows "core_focus pid (s\<lparr>ec_timer := tw_cancel cid (ec_timer s)\<rparr>)" and "env_same s (s\<lparr>ec_timer := tw_cancel cid (ec_timer s)\<rparr>)"
  using assms timers_ok_cancel by (simp_all add: core_focus_def env_same_def)

lemma core_focus_child:
  assumes "core_focus pid s" and "cid \<in> set (child_ids (the_parent pid s))"
    and "ch_child_id (g (the_child cid s)) = ch_child_id (the_child cid s)"
    and "ch_parent_id (g (the_child cid s)) = ch_parent_id (the_child cid s)"
    and "ch_exchange_id (g (the_child cid s)) = ch_exchange_id (the_child cid s)"
    and "working (ch_state (g (the_child cid s))) \<or> terminal_state (ch_state (g (the_child cid s)))"
  shows "core_focus pid (mod_child cid g s)"
proof -
  have f: "focus (length (ec_states s)) (ec_pool s) pid" "timers_ok (ec_timer s) (ec_pool s)" using assms(1) by (simp_all add: core_focus_def)
  then have "cid \<in> live_children (ec_pool s)" using assms(2) by (simp add: focus_def linked_def child_ok_def the_parent_def)
  then show ?thesis using assms(1) timers_ok_upd_child [OF f(2)] focus_upd_child [OF f(1), of cid g] assms(2-)
    by (simp add: core_focus_def the_parent_def the_child_def)
qed

text \<open>The family of a live child.\<close>

lemma live_child_family:
  assumes "core_ok s" and "cid \<in> live_children (ec_pool s)" and "pid = ch_parent_id (the_child cid s)"
  shows "core_focus pid s" and "qty_ok (the_parent pid s)" and "cid \<in> set (child_ids (the_parent pid s))"
    and "pid < 4096" and "ch_exchange_id (the_child cid s) < length (ec_states s)" and "ch_child_id (the_child cid s) = cid"
    and "has_working (ec_pool s) pid" and "pid \<in> live_parents (ec_pool s)"
proof -
  let ?P = "ec_pool s" and ?n = "length (ec_states s)"
  have P: "pool_ok ?n ?P" using assms(1) by (simp add: core_ok_def)
  then obtain q where q: "q \<in> live_parents ?P" "cid \<in> set (child_ids (parents ?P q))"
    using assms(2) by (auto simp: pool_ok_def owned_def)
  have fam: "family_ok ?n ?P q" using P q(1) by (simp add: pool_ok_def)
  then have c: "child_ok ?n ?P q cid" using q(2) by (simp add: family_ok_def linked_def)
  then have e: "q = pid" using assms(3) by (simp add: child_ok_def the_child_def)
  show "core_focus pid s" using core_ok_focus [OF assms(1)] q(1) e by simp
  show "qty_ok (the_parent pid s)" and "has_working ?P pid" using fam e by (simp_all add: family_ok_def the_parent_def)
  show "cid \<in> set (child_ids (the_parent pid s))" and "pid \<in> live_parents ?P" using q e by (simp_all add: the_parent_def)
  show "pid < 4096" using q(1) e by (simp add: live_parents_def)
  show "ch_exchange_id (the_child cid s) < ?n" and "ch_child_id (the_child cid s) = cid"
    using c by (simp_all add: child_ok_def the_child_def)
qed

lemma fill_child_fields [simp]:
  "ch_child_id (fill_child l c) = ch_child_id c" "ch_parent_id (fill_child l c) = ch_parent_id c"
  "ch_exchange_id (fill_child l c) = ch_exchange_id c"
  "ch_state (fill_child l c) = (if ch_qty_lots c = ch_cum_qty_lots c + l then FILLED else PARTIALLY_FILLED)"
  by (simp_all add: fill_child_def Let_def)

lemma fill_parent_fields [simp]:
  "po_parent_id (fill_parent l x z r p) = po_parent_id p" "po_child_mask (fill_parent l x z r p) = po_child_mask p"
  "po_children (fill_parent l x z r p) = po_children p" "po_instr_id (fill_parent l x z r p) = po_instr_id p"
  "po_dir (fill_parent l x z r p) = po_dir p" "po_strategy_id (fill_parent l x z r p) = po_strategy_id p"
  "po_reduce_only (fill_parent l x z r p) = po_reduce_only p"
  "po_total_qty_lots (fill_parent l x z r p) = po_total_qty_lots p"
  "po_cum_qty_lots (fill_parent l x z r p) = po_cum_qty_lots p + l"
  "po_leaves_qty_lots (fill_parent l x z r p) = po_total_qty_lots p - (po_cum_qty_lots p + l)"
  "child_ids (fill_parent l x z r p) = child_ids p"
proof -
  show "child_ids (fill_parent l x z r p) = child_ids p" by (rule child_ids_cong) (simp_all add: fill_parent_def Let_def)
qed (simp_all add: fill_parent_def Let_def)

text \<open>A fill that the accounting can absorb: at most the leaves of the parent, and when it is all of
  them no child of the parent is still working afterwards.\<close>

definition canonical_fill :: "ExecutionReport \<Rightarrow> ExecutionCore \<Rightarrow> qty_t" where
  "canonical_fill rep s = (let c = the_child (rep_child_id rep) s in
     the (to_canonical_lots (ch_exchange_id c) (po_instr_id (the_parent (ch_parent_id c) s)) (rep_fill_qty_lots rep) s))"

definition fill_ok :: "ExecutionReport \<Rightarrow> ExecutionCore \<Rightarrow> bool" where
  "fill_ok rep s \<longleftrightarrow> (let cid = rep_child_id rep; c = the_child cid s; p = the_parent (ch_parent_id c) s; l = canonical_fill rep s in
     l \<le> po_leaves_qty_lots p \<and>
     (l = po_leaves_qty_lots p \<longrightarrow> ch_qty_lots c = ch_cum_qty_lots c + rep_fill_qty_lots rep \<and>
       (\<forall>x\<in>set (child_ids p). x \<noteq> cid \<longrightarrow> \<not> working (ch_state (the_child x s)))))"

text \<open>Closing a parent none of whose children works: the children are freed with it.\<close>

lemma close_family:
  assumes "core_focus pid s" and "all_children_terminal (the_parent pid s) s"
  shows "\<exists>s'. Option.bind (release_children (child_ids (the_parent pid s)) (mod_parent pid (\<lambda>p. p\<lparr>po_state := st\<rparr>) s)) (release_parent pid) = Some s' \<and>
    core_ok s' \<and> env_same s s' \<and> ec_pos s' = ec_pos s \<and> ec_reject_queue s' = ec_reject_queue s \<and>
    live_parents (ec_pool s') = live_parents (ec_pool s) - {pid}"
proof -
  let ?t = "mod_parent pid (\<lambda>p. p\<lparr>po_state := st\<rparr>) s" and ?ids = "child_ids (the_parent pid s)"
  have ids: "child_ids (the_parent pid ?t) = ?ids" by (simp, rule child_ids_cong) simp_all
  have c: "core_focus pid ?t" by (rule core_focus_parent [OF assms(1)]) simp_all
  have f: "focus (length (ec_states s)) (ec_pool ?t) pid" "timers_ok (ec_timer s) (ec_pool ?t)" "config_ok s"
    using c by (simp_all add: core_focus_def)
  obtain Q R where Q: "free_all free_child ?ids (ec_pool ?t) = Some Q" "parents Q = parents (ec_pool ?t)" "free_parent pid Q = Some R"
    "pool_ok (length (ec_states s)) R" "children R = children (ec_pool ?t)" "live_parents R = live_parents (ec_pool ?t) - {pid}"
    "live_children R = live_children (ec_pool ?t) - set ?ids"
    using focus_close [OF f(1)] ids by (auto simp: the_parent_def)
  have "\<not> working (ch_state (children (ec_pool s) cid))" if "cid \<in> set ?ids" for cid
    using that assms(2) by (auto simp: all_children_terminal_def list_all_iff working_def the_child_def)
  then have "timers_ok (ec_timer s) R" using timers_ok_free [OF f(2) Q(5,7)] by simp
  moreover have "po_parent_id (parents Q pid) = pid" using f(1) Q(2) by (simp add: focus_def linked_def)
  ultimately show ?thesis using Q f(3)
    by (simp add: release_children_def release_parent_def the_parent_def core_ok_def env_same_def)
qed

text \<open>How a report ends for the parent of its child.\<close>

definition reported :: "nat \<Rightarrow> ExecutionCore \<Rightarrow> ExecutionCore \<Rightarrow> bool" where
  "reported pid s s' \<longleftrightarrow> core_ok s' \<and> env_same s s' \<and>
     (live_parents (ec_pool s') = live_parents (ec_pool s) \<or> live_parents (ec_pool s') = live_parents (ec_pool s) - {pid})"

lemma has_working_iff: "\<not> all_children_terminal (the_parent pid s) s \<longleftrightarrow> has_working (ec_pool s) pid"
  by (auto simp: all_children_terminal_def has_working_def list_all_iff working_def the_parent_def the_child_def)

text \<open>The common end of both handlers while the parent has leaves: wait for the other children, or
  route again.\<close>

lemma continue_ok:
  assumes "core_focus pid s" and "qty_ok (the_parent pid s)"
  shows "\<exists>s'. (if all_children_terminal (the_parent pid s) s then reroute_leaves E pid s else Some s) = Some s' \<and>
    reported pid s s' \<and> nets_same s s'"
proof (cases "all_children_terminal (the_parent pid s) s")
  case True
  then obtain s' where "reroute_leaves E pid s = Some s'" "rerouted pid s s'" using reroute_leaves_ok [OF assms True] by blast
  then show ?thesis using True by (auto simp: rerouted_def reported_def Let_def)
next
  case False
  then have "core_ok s" using core_focus_ok [OF assms] has_working_iff by blast
  then show ?thesis using False by (simp add: reported_def)
qed

definition nets_moved :: "nat \<Rightarrow> int \<Rightarrow> ExecutionCore \<Rightarrow> ExecutionCore \<Rightarrow> bool" where
  "nets_moved i d s s' \<longleftrightarrow> (\<forall>j. net_of j s' = net_of j s + (if j = i then d else 0) \<and>
     unwind_only (instruments (ec_pos s') j) = unwind_only (instruments (ec_pos s) j))"

lemma nets_moved_same: "nets_moved i d s t \<Longrightarrow> nets_same t u \<Longrightarrow> nets_moved i d s u"
  by (simp add: nets_moved_def nets_same_def)

lemma nets_moved_pos: "nets_moved i d s t \<Longrightarrow> ec_pos u = ec_pos t \<Longrightarrow> nets_moved i d s u"
  by (simp add: nets_moved_def net_of_def)

lemma to_canonical_lots_Some:
  "ex < length (ec_states s) \<Longrightarrow> \<exists>l. to_canonical_lots ex i q s = Some l"
  by (simp add: to_canonical_lots_def Let_def)

lemma to_canonical_lots_cong: "ec_cfg s' = ec_cfg s \<Longrightarrow> to_canonical_lots ex i q s' = to_canonical_lots ex i q s"
  by (simp add: to_canonical_lots_def)

text \<open>The book-keeping half of \<^verbatim>\<open>handle_fill\<close>: child, timer, margin, parent and position are updated; what is
  left is the decision between closing the parent, waiting and routing again.\<close>

definition fill_booked :: "nat \<Rightarrow> nat \<Rightarrow> ExecutionReport \<Rightarrow> ExecutionCore \<Rightarrow> ExecutionCore \<Rightarrow> bool" where
  "fill_booked cid pid rep s t \<longleftrightarrow> core_focus pid t \<and> env_same s t \<and> live_parents (ec_pool t) = live_parents (ec_pool s) \<and>
     live_children (ec_pool t) = live_children (ec_pool s) \<and>
     nets_moved (po_instr_id (the_parent pid s)) (signed_lots (po_dir (the_parent pid s)) (canonical_fill rep s)) s t \<and>
     (\<exists>px ref. the_parent pid t = fill_parent (canonical_fill rep s) px ref (rep_recv_ns rep) (the_parent pid s)) \<and>
     (\<forall>q. q \<noteq> pid \<longrightarrow> the_parent q t = the_parent q s) \<and>
     (\<forall>x. the_child x t = (if x = cid then fill_child (rep_fill_qty_lots rep) (the_child cid s) else the_child x s))"

definition fill_decision :: "Env \<Rightarrow> nat \<Rightarrow> ExecutionCore \<Rightarrow> ExecutionCore option" where
  "fill_decision E pid t = (let t' = mod_parent pid (\<lambda>p. p\<lparr>po_state := PARTIALLY_FILLED\<rparr>) t
     in if po_leaves_qty_lots (the_parent pid t) = 0
        then Option.bind (release_children (child_ids (the_parent pid t)) (mod_parent pid (\<lambda>p. p\<lparr>po_state := FILLED\<rparr>) t)) (release_parent pid)
        else if all_children_terminal (the_parent pid t') t' then reroute_leaves E pid t' else Some t')"

lemma handle_fill_books:
  assumes "core_ok s" and "cid \<in> live_children (ec_pool s)" and "pid = ch_parent_id (the_child cid s)" and "rep_child_id rep = cid"
  shows "\<exists>t. handle_fill E cid pid rep s = fill_decision E pid t \<and> fill_booked cid pid rep s t"
proof -
  let ?c = "the_child cid s" and ?p = "the_parent pid s" and ?l = "canonical_fill rep s"
  let ?st = "ec_states s ! ch_exchange_id ?c" and ?ref = "lot_size (cfg_instruments (ec_cfg s)) (po_instr_id ?p)"
  let ?px = "of_i64 (rep_fill_price_ticks rep) * nb_tick_size (es_book ?st)"
  note fam = live_child_family [OF assms(1-3)]
  have i: "po_instr_id ?p < 64" using fam(2) by (simp add: qty_ok_def)
  have l: "to_canonical_lots (ch_exchange_id ?c) (po_instr_id ?p) (rep_fill_qty_lots rep) s = Some ?l"
    using to_canonical_lots_Some [OF fam(5), of "po_instr_id ?p" "rep_fill_qty_lots rep"] assms(3,4)
    by (auto simp: canonical_fill_def Let_def)
  define s1 where "s1 = mod_child cid (fill_child (rep_fill_qty_lots rep)) s"
  define s2 where "s2 = s1\<lparr>ec_timer := tw_cancel cid (ec_timer s1)\<rparr>"
  define s4 where "s4 = mod_parent pid (fill_parent ?l ?px ?ref (rep_recv_ns rep)) (core_margin (on_fill ?l ?px ?ref) s2)"
  have "core_focus pid s1" unfolding s1_def by (rule core_focus_child [OF fam(1,3)]) (simp_all add: working_def terminal_state_def)
  then have c4: "core_focus pid s4" unfolding s4_def s2_def by (intro core_focus_parent) (simp_all add: core_focus_cancel)
  let ?f = "\<lambda>p. release_open (po_dir ?p) ?l (apply_fill (po_dir ?p) ?l ?px p)"
  obtain t where t: "mod_instr (po_instr_id ?p) ?f s4 = Some t" "ec_pos t = upd_instr (po_instr_id ?p) ?f (ec_pos s4)"
    "ec_pool t = ec_pool s4" "env_same s4 t" "core_focus pid t"
    using mod_instr_some [OF i, of ?f s4] c4 by blast
  have "env_same s s2" by (simp add: s2_def s1_def env_same_def)
  then have e: "env_same s t" using t(4) env_same_trans [of s s4 t] by (simp add: s4_def)
  have cfg: "ec_cfg s1 = ec_cfg s" "ec_cfg s2 = ec_cfg s" "the_parent pid s1 = ?p" "the_parent pid s2 = ?p" "ch_child_id (the_child cid s1) = cid"
    using fam(6) by (simp_all add: s2_def s1_def)
  have "child_ids (the_parent pid t\<lparr>po_state := PARTIALLY_FILLED\<rparr>) = child_ids (the_parent pid t)" by (rule child_ids_cong) simp_all
  then have "handle_fill E cid pid rep s = fill_decision E pid t"
    using fam(5) l t(1) cfg to_canonical_lots_cong [OF cfg(2)]
    by (simp add: handle_fill_def fill_decision_def all_children_terminal_def Let_def s1_def [symmetric] s2_def [symmetric] s4_def [symmetric] cong: if_cong)
  moreover have "fill_booked cid pid rep s t"
    using t e by (auto simp: fill_booked_def nets_moved_def net_of_def the_parent_def the_child_def s4_def s2_def s1_def)
  ultimately show ?thesis by blast
qed

lemma handle_fill_ok:
  assumes "core_ok s" and "cid \<in> live_children (ec_pool s)" and "pid = ch_parent_id (the_child cid s)"
    and "rep_child_id rep = cid" and "fill_ok rep s"
  shows "\<exists>s'. handle_fill E cid pid rep s = Some s' \<and> reported pid s s' \<and>
    nets_moved (po_instr_id (the_parent pid s)) (signed_lots (po_dir (the_parent pid s)) (canonical_fill rep s)) s s'"
proof -
  let ?c = "the_child cid s" and ?p = "the_parent pid s" and ?l = "canonical_fill rep s"
  note fam = live_child_family [OF assms(1-3)]
  have i: "po_total_qty_lots ?p = po_cum_qty_lots ?p + po_leaves_qty_lots ?p" using fam(2) by (simp add: qty_ok_def)
  obtain t px ref where run: "handle_fill E cid pid rep s = fill_decision E pid t" and c: "core_focus pid t" and e: "env_same s t"
    and lp: "live_parents (ec_pool t) = live_parents (ec_pool s)" and m: "nets_moved (po_instr_id ?p) (signed_lots (po_dir ?p) ?l) s t"
    and pt: "the_parent pid t = fill_parent ?l px ref (rep_recv_ns rep) ?p"
    and ct: "\<And>x. the_child x t = (if x = cid then fill_child (rep_fill_qty_lots rep) ?c else the_child x s)"
    using handle_fill_books [OF assms(1-4), of E] by (auto simp: fill_booked_def)
  have fo: "?l \<le> po_leaves_qty_lots ?p" "?l = po_leaves_qty_lots ?p \<Longrightarrow> ch_qty_lots ?c = ch_cum_qty_lots ?c + rep_fill_qty_lots rep \<and>
      (\<forall>x\<in>set (child_ids ?p). x \<noteq> cid \<longrightarrow> \<not> working (ch_state (the_child x s)))"
    using assms(3-5) by (simp_all add: fill_ok_def Let_def)
  show ?thesis
  proof (cases "?l = po_leaves_qty_lots ?p")
    case True
    then have "all_children_terminal (the_parent pid t) t"
      using fo(2) pt ct by (auto simp: all_children_terminal_def list_all_iff working_def)
    then obtain s' where "handle_fill E cid pid rep s = Some s'" "core_ok s'" "env_same t s'" "ec_pos s' = ec_pos t"
      "live_parents (ec_pool s') = live_parents (ec_pool t) - {pid}"
      using close_family [OF c, of FILLED] run True pt i by (auto simp: fill_decision_def)
    then show ?thesis using env_same_trans [OF e] nets_moved_pos [OF m] lp by (auto simp: reported_def)
  next
    case False
    let ?t = "mod_parent pid (\<lambda>p. p\<lparr>po_state := PARTIALLY_FILLED\<rparr>) t"
    have "core_focus pid ?t" by (rule core_focus_parent [OF c]) simp_all
    moreover have "qty_ok (the_parent pid ?t)" using fam(2) pt False fo(1) by (simp add: qty_ok_def)
    ultimately obtain s' where s': "handle_fill E cid pid rep s = Some s'" "reported pid ?t s'" "nets_same ?t s'"
      using continue_ok [of pid ?t E] run False pt i by (auto simp: fill_decision_def Let_def)
    then show ?thesis using nets_moved_same [OF nets_moved_pos [OF m] s'(3)] lp env_same_trans [OF e] by (auto simp: reported_def)
  qed
qed

text \<open>The same for a cancel or a reject.\<close>

definition lost_child :: "ExecutionReport \<Rightarrow> ChildOrderState \<Rightarrow> ChildOrderState" where
  "lost_child rep c = c\<lparr>ch_leaves_qty_lots := 0, ch_state := (if rep_exec_type rep = ET_CANCELED then CANCELED else REJECTED)\<rparr>"

definition loss_booked :: "nat \<Rightarrow> nat \<Rightarrow> ExecutionReport \<Rightarrow> ExecutionCore \<Rightarrow> ExecutionCore \<Rightarrow> bool" where
  "loss_booked cid pid rep s t \<longleftrightarrow> core_focus pid t \<and> env_same s t \<and> nets_same s t \<and>
     live_parents (ec_pool t) = live_parents (ec_pool s) \<and>
     the_parent pid t = (the_parent pid s)\<lparr>po_last_update_ns := rep_recv_ns rep\<rparr> \<and>
     (\<forall>q. q \<noteq> pid \<longrightarrow> the_parent q t = the_parent q s) \<and>
     (\<forall>x. the_child x t = (if x = cid then lost_child rep (the_child cid s) else the_child x s))"

lemma handle_cancel_reject_books:
  assumes "core_ok s" and "cid \<in> live_children (ec_pool s)" and "pid = ch_parent_id (the_child cid s)"
  shows "\<exists>t. handle_cancel_reject E cid pid rep s = (if all_children_terminal (the_parent pid t) t then reroute_leaves E pid t else Some t) \<and>
    loss_booked cid pid rep s t"
proof -
  let ?c = "the_child cid s" and ?p = "the_parent pid s" and ?st = "ec_states s ! ch_exchange_id (the_child cid s)"
  let ?ref = "lot_size (cfg_instruments (ec_cfg s)) (po_instr_id ?p)"
  note fam = live_child_family [OF assms]
  obtain l where l: "to_canonical_lots (ch_exchange_id ?c) (po_instr_id ?p) (ch_leaves_qty_lots ?c) s = Some l"
    using to_canonical_lots_Some [OF fam(5)] by blast
  define s1 where "s1 = mod_child cid (lost_child rep) s"
  define s2 where "s2 = s1\<lparr>ec_timer := tw_cancel cid (ec_timer s1)\<rparr>"
  define s3 where "s3 = core_margin (on_release l (of_i64 (ch_price ?c) * nb_tick_size (es_book ?st)) ?ref) s2"
  have "core_focus pid s1" unfolding s1_def by (rule core_focus_child [OF fam(1,3)]) (simp_all add: terminal_state_def lost_child_def)
  then have c3: "core_focus pid s3" unfolding s3_def s2_def by (simp add: core_focus_cancel)
  have i: "po_instr_id ?p < 64" "0 < po_leaves_qty_lots ?p" using fam(2) by (simp_all add: qty_ok_def)
  obtain s4 where s4: "mod_instr (po_instr_id ?p) (release_open (po_dir ?p) l) s3 = Some s4"
    "ec_pos s4 = upd_instr (po_instr_id ?p) (release_open (po_dir ?p) l) (ec_pos s3)" "ec_pool s4 = ec_pool s3" "env_same s3 s4"
    "core_focus pid s4"
    using mod_instr_some [OF i(1), of "release_open (po_dir ?p) l" s3] c3 by blast
  define s5 where "s5 = mod_parent pid (\<lambda>p. p\<lparr>po_last_update_ns := rep_recv_ns rep\<rparr>) s4"
  have c5: "core_focus pid s5" unfolding s5_def by (rule core_focus_parent [OF s4(5)]) simp_all
  have "env_same s s2" by (simp add: s2_def s1_def env_same_def)
  then have "env_same s s3" by (simp add: s3_def)
  then have e5: "env_same s s5" using s4(4) env_same_trans [of s s3 s4] by (simp add: s5_def)
  have n5: "nets_same s s5" using s4(2) by (simp add: nets_same_def net_of_def s5_def s3_def s2_def s1_def)
  have cfg: "ec_cfg s1 = ec_cfg s" "ec_cfg s2 = ec_cfg s" by (simp_all add: s2_def s1_def)
  have g: "(\<lambda>c. c\<lparr>ch_leaves_qty_lots := 0, ch_state := (if rep_exec_type rep = ET_CANCELED then CANCELED else REJECTED)\<rparr>) = lost_child rep"
    by (simp add: lost_child_def fun_eq_iff)
  have "handle_cancel_reject E cid pid rep s = (if all_children_terminal (the_parent pid s5) s5 then reroute_leaves E pid s5 else Some s5)"
    using fam(5,6) l s4(1) i(2) cfg to_canonical_lots_cong [OF cfg(1)] unfolding handle_cancel_reject_def g
    by (simp add: Let_def s1_def [symmetric] s2_def [symmetric] s3_def [symmetric] s5_def)
  moreover have "loss_booked cid pid rep s s5"
    using c5 e5 n5 s4(3) by (auto simp: loss_booked_def the_parent_def the_child_def s5_def s3_def s2_def s1_def)
  ultimately show ?thesis by blast
qed

lemma handle_cancel_reject_ok:
  assumes "core_ok s" and "cid \<in> live_children (ec_pool s)" and "pid = ch_parent_id (the_child cid s)"
  shows "\<exists>s'. handle_cancel_reject E cid pid rep s = Some s' \<and> reported pid s s' \<and> nets_same s s'"
proof -
  obtain t where t: "handle_cancel_reject E cid pid rep s = (if all_children_terminal (the_parent pid t) t then reroute_leaves E pid t else Some t)"
    "core_focus pid t" "env_same s t" "nets_same s t" "live_parents (ec_pool t) = live_parents (ec_pool s)"
    "the_parent pid t = (the_parent pid s)\<lparr>po_last_update_ns := rep_recv_ns rep\<rparr>"
    using handle_cancel_reject_books [OF assms, of E rep] by (auto simp: loss_booked_def)
  have "qty_ok (the_parent pid t)" using live_child_family(2) [OF assms] t(6) by (simp add: qty_ok_def)
  then obtain s' where "handle_cancel_reject E cid pid rep s = Some s'" "reported pid t s'" "nets_same t s'"
    using continue_ok [OF t(2), of E] t(1) by auto
  then show ?thesis using t(5) env_same_trans [OF t(3)] nets_same_trans [OF t(4)] by (auto simp: reported_def)
qed

definition is_fill :: "ExecutionReport \<Rightarrow> bool" where
  "is_fill rep \<longleftrightarrow> rep_exec_type rep = ET_PARTIAL \<or> rep_exec_type rep = ET_FILL"

text \<open>The reports the core can rely on: for a child that is live (or outside the pool, which is
  ignored), and whose fill the accounting can absorb.\<close>

definition report_ok :: "ExecutionReport \<Rightarrow> ExecutionCore \<Rightarrow> bool" where
  "report_ok rep s \<longleftrightarrow> kMaxTotalChildren \<le> rep_child_id rep \<or>
     rep_child_id rep \<in> live_children (ec_pool s) \<and> (is_fill rep \<longrightarrow> fill_ok rep s)"

definition report_effect :: "ExecutionReport \<Rightarrow> ExecutionCore \<Rightarrow> ExecutionCore \<Rightarrow> bool" where
  "report_effect rep s s' \<longleftrightarrow>
     (if rep_child_id rep < kMaxTotalChildren \<and> is_fill rep
      then let p = the_parent (ch_parent_id (the_child (rep_child_id rep) s)) s
        in nets_moved (po_instr_id p) (signed_lots (po_dir p) (canonical_fill rep s)) s s'
      else nets_same s s')"

lemma on_execution_report_ok:
  assumes "core_ok s" and "report_ok rep s"
  shows "\<exists>s'. on_execution_report E rep s = Some s' \<and> core_ok s' \<and> env_same s s' \<and> report_effect rep s s' \<and>
    live_parents (ec_pool s') \<subseteq> live_parents (ec_pool s)"
proof (cases "rep_child_id rep < 32768")
  case False
  then show ?thesis using assms(1) by (simp add: on_execution_report_def report_effect_def)
next
  case True
  define cid where "cid = rep_child_id rep"
  define pid where "pid = ch_parent_id (the_child cid s)"
  have live: "cid \<in> live_children (ec_pool s)" and fl: "is_fill rep \<Longrightarrow> fill_ok rep s"
    using assms(2) True by (auto simp: report_ok_def cid_def)
  note fam = live_child_family [OF assms(1) live pid_def]
  have run: "on_execution_report E rep s = (case rep_exec_type rep of
      ET_PARTIAL \<Rightarrow> handle_fill E cid pid rep s | ET_FILL \<Rightarrow> handle_fill E cid pid rep s
    | ET_CANCELED \<Rightarrow> handle_cancel_reject E cid pid rep s | ET_REJECTED \<Rightarrow> handle_cancel_reject E cid pid rep s
    | ET_NEW \<Rightarrow> Some (mod_child cid (\<lambda>c. c\<lparr>ch_state := PENDING_NEW\<rparr>) s) | ET_REPLACED \<Rightarrow> Some s)"
    using True fam(4) by (cases "rep_exec_type rep") (simp_all add: on_execution_report_def Let_def cid_def pid_def)
  consider (fill) "is_fill rep" | (lost) "rep_exec_type rep = ET_CANCELED \<or> rep_exec_type rep = ET_REJECTED"
    | (ack) "rep_exec_type rep = ET_NEW" | (other) "rep_exec_type rep = ET_REPLACED"
    by (cases "rep_exec_type rep") (auto simp: is_fill_def)
  then show ?thesis
  proof cases
    case fill
    then have "on_execution_report E rep s = handle_fill E cid pid rep s" using run by (auto simp: is_fill_def)
    then show ?thesis using handle_fill_ok [OF assms(1) live pid_def cid_def [symmetric] fl, of E] fill True
      by (auto simp: reported_def report_effect_def cid_def pid_def Let_def)
  next
    case lost
    then have "on_execution_report E rep s = handle_cancel_reject E cid pid rep s" using run by auto
    then show ?thesis using handle_cancel_reject_ok [OF assms(1) live pid_def, of E rep] lost
      by (auto simp: reported_def report_effect_def is_fill_def)
  next
    case ack
    let ?s = "mod_child cid (\<lambda>c. c\<lparr>ch_state := PENDING_NEW\<rparr>) s"
    have c: "core_focus pid ?s" by (rule core_focus_child [OF fam(1,3)]) (simp_all add: working_def)
    have "has_working (ec_pool ?s) pid" using fam(3) by (auto simp: has_working_def working_def the_parent_def intro!: bexI [of _ cid])
    then have "core_ok ?s" using core_focus_ok [OF c] fam(2) by simp
    then show ?thesis using run ack by (simp add: report_effect_def is_fill_def nets_same_pos)
  next
    case other
    then show ?thesis using run assms(1) by (simp add: report_effect_def is_fill_def)
  qed
qed

subsection \<open>New orders\<close>

text \<open>How a signal is answered: one reject and no new parent, or one new parent that carries the
  clamped quantity and no reject.\<close>

definition answered :: "StrategyOrderSignal \<Rightarrow> ExecutionCore \<Rightarrow> ExecutionCore \<Rightarrow> bool" where
  "answered sig s s' \<longleftrightarrow> core_ok s' \<and> env_same s s' \<and> nets_same s s' \<and>
     ((\<exists>qty reason. live_parents (ec_pool s') = live_parents (ec_pool s) \<and>
         pushed_reject (sig_instr_id sig) (sig_dir sig) (sig_strategy_id sig) qty reason s s' \<and>
         (reason \<noteq> CHILD_POOL_EXHAUSTED \<longrightarrow> ec_pos s' = ec_pos s \<and> qty = sig_qty_lots sig)) \<or>
      (\<exists>pid. pid \<notin> live_parents (ec_pool s) \<and> live_parents (ec_pool s') = insert pid (live_parents (ec_pool s)) \<and>
         ec_reject_queue s' = ec_reject_queue s \<and>
         (let p = the_parent pid s'
          in po_instr_id p = sig_instr_id sig \<and> po_dir p = sig_dir sig \<and> po_strategy_id p = sig_strategy_id sig \<and>
             po_total_qty_lots p = clamp_reduce_only_sig (ec_pos s) sig \<and> po_cum_qty_lots p = 0 \<and>
             po_leaves_qty_lots p = clamp_reduce_only_sig (ec_pos s) sig)))"

lemma notify_reject_sig_pushes:
  "ec_reject_queue t = ec_reject_queue s \<Longrightarrow>
     pushed_reject (sig_instr_id sig) (sig_dir sig) (sig_strategy_id sig) (sig_qty_lots sig) r s (notify_reject_sig E sig r t)"
  by (simp add: notify_reject_sig_def notify_reject_pushes)

lemma notify_reject_sig_frame [simp]:
  "ec_pool (notify_reject_sig E sig r s) = ec_pool s" "ec_pos (notify_reject_sig E sig r s) = ec_pos s"
  "env_same t (notify_reject_sig E sig r s) = env_same t s" "core_ok (notify_reject_sig E sig r s) = core_ok s"
  by (simp_all add: notify_reject_sig_def core_ok_def)

lemma kill_signal_ok:
  assumes "core_focus pid s" and "child_ids (the_parent pid s) = []"
  shows "\<exists>s'. kill_signal E pid sig reason s = Some s' \<and> core_ok s' \<and> live_parents (ec_pool s') = live_parents (ec_pool s) - {pid} \<and>
    env_same s s' \<and> ec_pos s' = ec_pos s \<and>
    pushed_reject (sig_instr_id sig) (sig_dir sig) (sig_strategy_id sig) (sig_qty_lots sig) reason s s'"
proof -
  let ?t = "mod_parent pid (\<lambda>p. p\<lparr>po_state := REJECTED\<rparr>) s"
  have c: "core_focus pid ?t" by (rule core_focus_parent [OF assms(1)]) simp_all
  have "child_ids (the_parent pid ?t) = []" using assms(2) child_ids_cong [of "the_parent pid ?t" "the_parent pid s"] by simp
  then obtain u where u: "release_parent pid ?t = Some u" "core_ok u" "live_parents (ec_pool u) = live_parents (ec_pool ?t) - {pid}"
    "env_same s u" "ec_pos u = ec_pos s" "ec_reject_queue u = ec_reject_queue s"
    using release_parent_ok [OF c] by auto
  have "po_parent_id (the_parent pid ?t) = pid"
    using assms(1) by (simp add: core_focus_def focus_def linked_def the_parent_def)
  then have "kill_signal E pid sig reason s = Some (notify_reject_sig E sig reason u)"
    using u(1) by (auto simp: kill_signal_def release_parent_def Let_def elim!: bind_eq_SomeE)
  then show ?thesis using u notify_reject_sig_pushes [of u s sig reason E] by simp
qed

lemma router_call_ok:
  assumes "router_shape eng (ctx_states ctx) (ctx_active_exchanges ctx)" and "0 < ctx_target_lots ctx"
  shows "\<exists>res buf. (if style = MAKER then calculate_maker_placement eng ctx [] else calculate_optimal_split expf eng ctx []) = Some (res, buf) \<and>
    list_all (\<lambda>co. co_exchange_id co < length (ctx_states ctx)) buf"
  using router_returns [OF assms, of expf] maker_returns [OF assms] by (cases "style = MAKER") auto

lemma pushed_reject_from: "ec_reject_queue t = ec_reject_queue s \<Longrightarrow> pushed_reject i d st q r t u \<Longrightarrow> pushed_reject i d st q r s u"
  by (simp add: pushed_reject_def)

text \<open>How the handling of a signal ends for the parent allocated for it.\<close>

definition decided :: "StrategyOrderSignal \<Rightarrow> nat \<Rightarrow> qty_t \<Rightarrow> ExecutionCore \<Rightarrow> ExecutionCore \<Rightarrow> bool" where
  "decided sig pid q s s' \<longleftrightarrow> core_ok s' \<and> env_same s s' \<and> nets_same s s' \<and>
    (live_parents (ec_pool s') = live_parents (ec_pool s) - {pid} \<and>
       (\<exists>qty reason. pushed_reject (sig_instr_id sig) (sig_dir sig) (sig_strategy_id sig) qty reason s s' \<and>
         (reason \<noteq> CHILD_POOL_EXHAUSTED \<longrightarrow> ec_pos s' = ec_pos s \<and> qty = sig_qty_lots sig)) \<or>
     live_parents (ec_pool s') = live_parents (ec_pool s) \<and> ec_reject_queue s' = ec_reject_queue s \<and>
       (let p = the_parent pid s' in po_instr_id p = sig_instr_id sig \<and> po_dir p = sig_dir sig \<and>
         po_strategy_id p = sig_strategy_id sig \<and> po_total_qty_lots p = q \<and> po_cum_qty_lots p = 0 \<and> po_leaves_qty_lots p = q))"

lemma decided_from:
  assumes "decided sig pid q t s'" and "env_same s t" and "ec_pos t = ec_pos s" and "ec_reject_queue t = ec_reject_queue s"
    and "live_parents (ec_pool t) = live_parents (ec_pool s)"
  shows "decided sig pid q s s'"
  using assms env_same_trans [OF assms(2)] nets_same_trans [OF nets_same_pos [OF assms(3)]]
  by (simp add: decided_def pushed_reject_def)

lemma kill_signal_decided:
  assumes "core_focus pid s" and "child_ids (the_parent pid s) = []"
  shows "\<exists>s'. kill_signal E pid sig reason s = Some s' \<and> decided sig pid q s s'"
  using kill_signal_ok [OF assms, of E sig reason] nets_same_pos unfolding decided_def by blast

lemma routed_decided:
  assumes "routed pid CHILD_POOL_EXHAUSTED u s'" and "env_same s u" and "nets_same s u" and "ec_reject_queue u = ec_reject_queue s"
    and "live_parents (ec_pool u) = live_parents (ec_pool s)" and "po_instr_id (the_parent pid u) = sig_instr_id sig"
    and "po_dir (the_parent pid u) = sig_dir sig" and "po_strategy_id (the_parent pid u) = sig_strategy_id sig"
    and "po_total_qty_lots (the_parent pid u) = q" and "po_cum_qty_lots (the_parent pid u) = 0" and "po_leaves_qty_lots (the_parent pid u) = q"
  shows "decided sig pid q s s'"
proof -
  have b: "core_ok s'" "env_same s s'" "nets_same s s'"
    using assms(1) env_same_trans [OF assms(2)] nets_same_trans [OF assms(3)] by (auto simp: routed_def)
  from assms(1) consider
      "live_parents (ec_pool s') = live_parents (ec_pool u)" "ec_reject_queue s' = ec_reject_queue u" "order_same (the_parent pid u) (the_parent pid s')"
    | "live_parents (ec_pool s') = live_parents (ec_pool u) - {pid}"
      "pushed_reject (sig_instr_id sig) (sig_dir sig) (sig_strategy_id sig) q CHILD_POOL_EXHAUSTED u s'"
    using assms(6-) by (auto simp: routed_def Let_def)
  then show ?thesis
  proof cases
    case 1
    then show ?thesis using b assms(4-) by (simp add: decided_def order_same_def Let_def)
  next
    case 2
    then show ?thesis using b assms(5) pushed_reject_from [OF assms(4) 2(2)] unfolding decided_def by blast
  qed
qed

text \<open>The accepted quantity is reserved and the children go out.\<close>

lemma reserve_dispatch_ok:
  assumes "slots_used pid 0 s" and "sig_instr_id sig < 64" and "qty_ok (the_parent pid s)"
    and "ctx_states ctx \<noteq> []" and "length (ctx_states ctx) = length (ec_states s)"
    and "list_all (\<lambda>co. co_exchange_id co < length (ctx_states ctx)) buf"
    and "po_instr_id (the_parent pid s) = sig_instr_id sig" and "po_dir (the_parent pid s) = sig_dir sig"
    and "po_strategy_id (the_parent pid s) = sig_strategy_id sig" and "po_total_qty_lots (the_parent pid s) = q"
    and "po_cum_qty_lots (the_parent pid s) = 0" and "po_leaves_qty_lots (the_parent pid s) = q"
  shows "\<exists>s'. Option.bind (mod_instr (sig_instr_id sig) (reserve_open (sig_dir sig) q) (mod_parent pid (\<lambda>p. p\<lparr>po_state := PENDING_NEW\<rparr>) s))
    (dispatch_child_orders E pid buf ctx) = Some s' \<and> decided sig pid q s s'"
proof -
  let ?t = "mod_parent pid (\<lambda>p. p\<lparr>po_state := PENDING_NEW\<rparr>) s"
  have "core_focus pid s" using assms(1) by (simp add: slots_used_def)
  then have ct: "core_focus pid ?t" by (rule core_focus_parent) simp_all
  obtain u where u: "mod_instr (sig_instr_id sig) (reserve_open (sig_dir sig) q) ?t = Some u"
    "ec_pos u = upd_instr (sig_instr_id sig) (reserve_open (sig_dir sig) q) (ec_pos ?t)" "ec_pool u = ec_pool ?t"
    "ec_reject_queue u = ec_reject_queue ?t" "env_same ?t u" "core_focus pid u"
    using mod_instr_some [OF assms(2), of "reserve_open (sig_dir sig) q" ?t] ct by blast
  have pu: "the_parent pid u = (the_parent pid s)\<lparr>po_state := PENDING_NEW\<rparr>" using u(3) by (simp add: the_parent_def)
  have v: "slots_used pid 0 u" "qty_ok (the_parent pid u)"
    using assms u(6) pu by (simp_all add: slots_used_def has_child_def qty_ok_def)
  have eu: "env_same s u" "nets_same s u" using u(2,5) by (simp_all add: nets_same_def net_of_def)
  have "length (ctx_states ctx) = length (ec_states u)" using assms(5) eu(1) by (simp add: env_same_def)
  then obtain s' where s': "dispatch_child_orders E pid buf ctx u = Some s'" "routed pid CHILD_POOL_EXHAUSTED u s'"
    using dispatch_child_orders_ok [OF v assms(4), of buf E] assms(6) by auto
  have "live_parents (ec_pool u) = live_parents (ec_pool s)" "ec_reject_queue u = ec_reject_queue s" using u(3,4) by simp_all
  then have "decided sig pid q s s'" using routed_decided [OF s'(2) eu] assms(7-12) pu by auto
  then show ?thesis using u(1) s'(1) by simp
qed

text \<open>From the moment the parent is set up and the signal accepted.\<close>

text \<open>The router's answer to a signal, and what becomes of it.\<close>

lemma route_signal_run:
  assumes "config_ok s" and "0 < q"
  obtains ctx res buf where "(if sig_order_type sig = MAKER then calculate_maker_placement (ec_sor s) ctx []
      else calculate_optimal_split (env_exp E) (ec_sor s) ctx []) = Some (res, buf)"
    and "list_all (\<lambda>co. co_exchange_id co < length (ec_states s)) buf" and "ctx_states ctx = ec_states s" and "ctx_states ctx \<noteq> []"
    and "ctx_target_lots ctx = q" and "ctx_reference_lot_size ctx = lot_size (cfg_instruments (ec_cfg s)) (po_instr_id (the_parent pid s))"
    and "\<And>s0. s0 = s\<lparr>ec_clock_reads := ec_clock_reads s + 1\<rparr> \<Longrightarrow>
      route_signal E pid sig q s = (if buf = [] then kill_signal E pid sig NO_LIQUIDITY s0
        else Option.bind (mod_instr (sig_instr_id sig) (reserve_open (sig_dir sig) q) (mod_parent pid (\<lambda>p. p\<lparr>po_state := PENDING_NEW\<rparr>) s0))
          (dispatch_child_orders E pid buf ctx))"
proof -
  obtain ctx0 where ctx0: "build_routing_context (the_parent pid s) q s = Some ctx0" "ctx_states ctx0 = ec_states s" "ctx_target_lots ctx0 = q"
    "ctx_active_exchanges ctx0 = cfg_active_exchanges (ec_cfg s)"
    "ctx_reference_lot_size ctx0 = lot_size (cfg_instruments (ec_cfg s)) (po_instr_id (the_parent pid s))"
    using build_routing_context_ok [OF assms(1)] by blast
  define ctx where "ctx = ctx0\<lparr>ctx_short_vol_factor := sig_short_vol_factor sig, ctx_book_imbalance := sig_book_imbalance sig,
       ctx_decision_ns := env_clock E (ec_clock_reads s)\<rparr>"
  have sh: "router_shape (ec_sor s) (ctx_states ctx) (ctx_active_exchanges ctx)" "0 < ctx_target_lots ctx"
    using assms ctx0 by (simp_all add: ctx_def config_ok_def)
  obtain res buf where r: "(if sig_order_type sig = MAKER then calculate_maker_placement (ec_sor s) ctx []
      else calculate_optimal_split (env_exp E) (ec_sor s) ctx []) = Some (res, buf)"
    "list_all (\<lambda>co. co_exchange_id co < length (ctx_states ctx)) buf"
    using router_call_ok [OF sh] by blast
  show ?thesis
    by (rule that [OF r(1)]) (use ctx0 r sh(1) in \<open>simp_all add: ctx_def router_shape_def route_signal_def now_ns_pair Let_def cong: if_cong\<close>)
qed

lemma route_signal_ok:
  assumes "slots_used pid 0 s" and "sig_instr_id sig < 64" and "0 < q"
    and "po_instr_id (the_parent pid s) = sig_instr_id sig" and "po_dir (the_parent pid s) = sig_dir sig"
    and "po_strategy_id (the_parent pid s) = sig_strategy_id sig" and "po_total_qty_lots (the_parent pid s) = q"
    and "po_cum_qty_lots (the_parent pid s) = 0" and "po_leaves_qty_lots (the_parent pid s) = q"
  shows "\<exists>s'. route_signal E pid sig q s = Some s' \<and> decided sig pid q s s'"
proof -
  define s0 where "s0 = s\<lparr>ec_clock_reads := ec_clock_reads s + 1\<rparr>"
  have c0: "core_focus pid s0" "config_ok s" using assms(1) by (simp_all add: slots_used_def s0_def core_focus_def)
  obtain ctx res buf where r: "list_all (\<lambda>co. co_exchange_id co < length (ec_states s)) buf" "ctx_states ctx = ec_states s" "ctx_states ctx \<noteq> []"
    and run: "route_signal E pid sig q s = (if buf = [] then kill_signal E pid sig NO_LIQUIDITY s0
        else Option.bind (mod_instr (sig_instr_id sig) (reserve_open (sig_dir sig) q) (mod_parent pid (\<lambda>p. p\<lparr>po_state := PENDING_NEW\<rparr>) s0))
          (dispatch_child_orders E pid buf ctx))"
    using route_signal_run [OF c0(2) assms(3), of sig E pid] s0_def by metis
  have e0: "env_same s s0" "nets_same s s0" "ec_reject_queue s0 = ec_reject_queue s" "ec_pool s0 = ec_pool s" "ec_pos s0 = ec_pos s"
    "the_parent pid s0 = the_parent pid s"
    by (simp_all add: s0_def nets_same_pos)
  show ?thesis
  proof (cases "buf = []")
    case True
    then show ?thesis using run kill_signal_decided [OF c0(1), of E sig NO_LIQUIDITY q] slots_used_no_ids [OF assms(1)] e0 decided_from
      by fastforce
  next
    case False
    have v: "slots_used pid 0 s0" "qty_ok (the_parent pid s0)"
      using assms c0(1) e0(6) by (simp_all add: slots_used_def qty_ok_def)
    have "length (ctx_states ctx) = length (ec_states s0)" using r(2) e0(1) by (simp add: env_same_def)
    then show ?thesis using reserve_dispatch_ok [OF v(1) assms(2) v(2), of ctx buf q E] run False r e0 assms(4-9) decided_from
      by fastforce
  qed
qed

lemma clamp_sig_nonneg: "0 \<le> sig_qty_lots sig \<Longrightarrow> 0 \<le> clamp_reduce_only_sig pos sig"
  by (auto simp: clamp_reduce_only_sig_def clamp_reduce_only_impl_def Let_def)

lemma decide_signal_ok:
  assumes "slots_used pid 0 s" and "po_cum_qty_lots (the_parent pid s) = 0" and "0 \<le> q"
    and "po_instr_id (the_parent pid s) = sig_instr_id sig" and "po_dir (the_parent pid s) = sig_dir sig"
    and "po_strategy_id (the_parent pid s) = sig_strategy_id sig"
  shows "\<exists>s'. decide_signal E pid sig q s = Some s' \<and> decided sig pid q s s'"
proof -
  have c: "core_focus pid s" and ids: "child_ids (the_parent pid s) = []"
    using assms(1) slots_used_no_ids by (auto simp: slots_used_def)
  show ?thesis
  proof (cases "sig_instr_id sig < 64 \<and> q = 0")
    case True
    then show ?thesis using kill_signal_decided [OF c ids, of E sig REDUCE_ONLY_VIOLATION q] by (simp add: decide_signal_def)
  next
    case nz: False
    define st where "st = ec_states s ! 0"
    define limit where "limit = (if sig_limit_price_usd sig > 0 then to_ticks (sig_limit_price_usd sig) (nb_tick_size (es_book st)) else 0)"
    define t where "t = mod_parent pid (\<lambda>p. p\<lparr>po_total_qty_lots := q, po_leaves_qty_lots := q, po_limit_price := limit\<rparr>) s"
    define rr where "rr = validate (ec_risk s) (ec_pos s) (sig\<lparr>sig_qty_lots := q\<rparr>)"
    have st: "nth_opt (ec_states s) 0 = Some st"
      using c by (simp add: st_def core_focus_def config_ok_def router_shape_def)
    have run: "decide_signal E pid sig q s = (if rr \<noteq> RR_OK then kill_signal E pid sig (reject_reason_of rr) t else route_signal E pid sig q t)"
      using nz st unfolding decide_signal_def by (auto simp: Let_def limit_def t_def rr_def)
    have ct: "core_focus pid t" unfolding t_def by (rule core_focus_parent [OF c]) simp_all
    have idt: "child_ids (the_parent pid t) = []" using ids child_ids_cong [of "the_parent pid t" "the_parent pid s"] by (simp add: t_def)
    have "\<exists>s'. decide_signal E pid sig q s = Some s' \<and> decided sig pid q t s'"
    proof (cases "rr = RR_OK")
      case False
      then show ?thesis using run kill_signal_decided [OF ct idt] by simp
    next
      case True
      have i: "sig_instr_id sig < 64" using True by (auto simp: rr_def validate_def split: if_splits)
      moreover have "slots_used pid 0 t" using assms(1) ct by (simp add: slots_used_def t_def has_child_def)
      ultimately show ?thesis using run True nz assms(2-6) route_signal_ok [of pid t sig q E] by (simp add: t_def)
    qed
    then show ?thesis using decided_from [of sig pid q t] by (fastforce simp: t_def)
  qed
qed

lemma refused_answered:
  assumes "core_ok t" and "env_same s t" and "ec_pos t = ec_pos s" and "live_parents (ec_pool t) = live_parents (ec_pool s)"
    and "ec_reject_queue t = ec_reject_queue s"
  shows "answered sig s (notify_reject_sig E sig reason t)"
  using assms notify_reject_sig_pushes [OF assms(5), of sig reason E] by (auto simp: answered_def intro: nets_same_pos)

text \<open>The parent as the handler first writes it.\<close>

lemma allocated_slots:
  assumes "core_ok s" and "alloc_parent (ec_pool s) = (Some pid, P)" and "ec_pool t = P" and "ec_timer t = ec_timer s"
    and "env_same s t" and "po_parent_id (f (reset_parent\<lparr>po_parent_id := pid\<rparr>)) = pid"
    and "po_child_mask (f (reset_parent\<lparr>po_parent_id := pid\<rparr>)) = 0" and "po_child_count (f (reset_parent\<lparr>po_parent_id := pid\<rparr>)) = 0"
    and "po_children (f (reset_parent\<lparr>po_parent_id := pid\<rparr>)) = po_children (reset_parent\<lparr>po_parent_id := pid\<rparr>)"
  shows "slots_used pid 0 (mod_parent pid f t)" and "the_parent pid (mod_parent pid f t) = f (reset_parent\<lparr>po_parent_id := pid\<rparr>)"
    and "pid \<notin> live_parents (ec_pool s)" and "live_parents (ec_pool (mod_parent pid f t)) = insert pid (live_parents (ec_pool s))"
proof -
  have pool: "pool_ok (length (ec_states s)) (ec_pool s)" and tm: "timers_ok (ec_timer s) (ec_pool s)" and cf: "config_ok s"
    using assms(1) by (simp_all add: core_ok_def)
  note a = alloc_parent_focus [OF pool assms(2)]
  have p: "the_parent pid t = reset_parent\<lparr>po_parent_id := pid\<rparr>" using a(4) assms(3) by (simp add: the_parent_def)
  have m: "po_child_mask (reset_parent\<lparr>po_parent_id := pid\<rparr>) = 0" by (simp add: reset_parent_def zero_parent_def)
  have "core_focus pid t"
    using a(1) cf timers_ok_cong [OF tm a(5,6)] assms(3-5) by (simp add: core_focus_def config_ok_def env_same_def)
  then have "core_focus pid (mod_parent pid f t)" by (rule core_focus_parent) (simp_all add: p m assms(6-9))
  then show "slots_used pid 0 (mod_parent pid f t)" using p assms(7,8) by (simp add: slots_used_def has_child_def)
  show "the_parent pid (mod_parent pid f t) = f (reset_parent\<lparr>po_parent_id := pid\<rparr>)" using p by simp
  show "pid \<notin> live_parents (ec_pool s)" and "live_parents (ec_pool (mod_parent pid f t)) = insert pid (live_parents (ec_pool s))"
    using a(2,3) assms(3) by simp_all
qed

text \<open>An approved signal that found no free parent, and one that got parent \<^verbatim>\<open>pid\<close>.\<close>

lemma pool_full_answered:
  assumes "core_ok s" and "approve (ec_gate s) sig (ec_stdin s) = (True, inp)" and "alloc_parent (ec_pool s) = (None, P)"
  shows "\<exists>s'. on_strategy_order E sig s = Some s' \<and> answered sig s s'"
proof -
  let ?t = "s\<lparr>ec_stdin := inp, ec_pool := P\<rparr>"
  have "pool_ok (length (ec_states s)) (ec_pool s)" "timers_ok (ec_timer s) (ec_pool s)" using assms(1) by (simp_all add: core_ok_def)
  then have "core_ok ?t" "live_parents P = live_parents (ec_pool s)"
    using assms(1) alloc_parent_fail [OF _ assms(3), of "length (ec_states s)"] timers_ok_cong [of "ec_timer s" "ec_pool s" P]
    by (simp_all add: core_ok_def)
  then show ?thesis using assms(2,3) refused_answered [of ?t s sig E PARENT_POOL_EXHAUSTED]
    by (simp add: on_strategy_order_def env_same_def)
qed

text \<open>The state in which the signal is decided, once its parent is allocated and its identity written.\<close>

definition placed :: "StrategyOrderSignal \<Rightarrow> nat \<Rightarrow> ExecutionCore \<Rightarrow> ExecutionCore \<Rightarrow> bool" where
  "placed sig pid s u \<longleftrightarrow> slots_used pid 0 u \<and> env_same s u \<and> ec_pos u = ec_pos s \<and> ec_reject_queue u = ec_reject_queue s \<and>
     pid \<notin> live_parents (ec_pool s) \<and> live_parents (ec_pool u) = insert pid (live_parents (ec_pool s)) \<and>
     children (ec_pool u) = children (ec_pool s) \<and> live_children (ec_pool u) = live_children (ec_pool s) \<and>
     ec_gateways u = ec_gateways s \<and> (\<forall>q. q \<noteq> pid \<longrightarrow> the_parent q u = the_parent q s) \<and>
     (let p = the_parent pid u in po_cum_qty_lots p = 0 \<and> po_leaves_qty_lots p = 0 \<and> po_instr_id p = sig_instr_id sig \<and>
        po_dir p = sig_dir sig \<and> po_strategy_id p = sig_strategy_id sig)"

lemma placed_run:
  assumes "core_ok s" and "approve (ec_gate s) sig (ec_stdin s) = (True, inp)" and "alloc_parent (ec_pool s) = (Some pid, P)"
  shows "\<exists>u. on_strategy_order E sig s = decide_signal E pid sig (clamp_reduce_only_sig (ec_pos s) sig) u \<and> placed sig pid s u"
proof -
  define f where "f = (\<lambda>p. p\<lparr>po_instr_id := sig_instr_id sig, po_dir := sig_dir sig, po_order_type := sig_order_type sig,
    po_strategy_id := sig_strategy_id sig,
    po_create_ns := (if sig_signal_ns sig \<noteq> 0 then sig_signal_ns sig else env_clock E (ec_clock_reads s)), po_state := OS_NEW,
    po_reduce_only := sig_instr_id sig < 64 \<and> (sig_reduce_only sig \<or> unwind_only (instruments (ec_pos s) (sig_instr_id sig)))\<rparr> :: ParentOrder)"
  define t where "t = s\<lparr>ec_stdin := inp, ec_pool := P, ec_clock_reads := (if sig_signal_ns sig \<noteq> 0 then ec_clock_reads s else ec_clock_reads s + 1)\<rparr>"
  have run: "on_strategy_order E sig s = decide_signal E pid sig (clamp_reduce_only_sig (ec_pos s) sig) (mod_parent pid f t)"
    using assms(2,3) by (simp add: on_strategy_order_def f_def t_def now_ns_pair Let_def)
  have et: "env_same s t" "ec_pos t = ec_pos s" "ec_reject_queue t = ec_reject_queue s" by (simp_all add: t_def env_same_def)
  have f: "po_parent_id (f p) = po_parent_id p" "po_child_mask (f p) = po_child_mask p" "po_child_count (f p) = po_child_count p"
    "po_children (f p) = po_children p" "po_cum_qty_lots (f p) = po_cum_qty_lots p" "po_leaves_qty_lots (f p) = po_leaves_qty_lots p"
    "po_instr_id (f p) = sig_instr_id sig" "po_dir (f p) = sig_dir sig" "po_strategy_id (f p) = sig_strategy_id sig" for p
    by (simp_all add: f_def)
  have z: "po_child_mask (reset_parent\<lparr>po_parent_id := pid\<rparr>) = 0" "po_child_count (reset_parent\<lparr>po_parent_id := pid\<rparr>) = 0"
    "po_cum_qty_lots (reset_parent\<lparr>po_parent_id := pid\<rparr>) = 0" "po_leaves_qty_lots (reset_parent\<lparr>po_parent_id := pid\<rparr>) = 0"
    by (simp_all add: reset_parent_def zero_parent_def)
  note u = allocated_slots [OF assms(1,3), of t f, OF _ _ et(1)]
  have v: "slots_used pid 0 (mod_parent pid f t)" "the_parent pid (mod_parent pid f t) = f (reset_parent\<lparr>po_parent_id := pid\<rparr>)"
    "pid \<notin> live_parents (ec_pool s)" "live_parents (ec_pool (mod_parent pid f t)) = insert pid (live_parents (ec_pool s))"
    using u by (simp_all add: t_def f z)
  note fr = alloc_parent_frame [OF assms(3)]
  have o: "children (ec_pool (mod_parent pid f t)) = children (ec_pool s)" "live_children (ec_pool (mod_parent pid f t)) = live_children (ec_pool s)"
    "ec_gateways (mod_parent pid f t) = ec_gateways s" "q \<noteq> pid \<Longrightarrow> the_parent q (mod_parent pid f t) = the_parent q s" for q
    using fr(1,2,5) by (simp_all add: the_parent_def t_def mod_parent_def)
  have "placed sig pid s (mod_parent pid f t)"
    unfolding placed_def Let_def v(2) f z using v o et by simp
  then show ?thesis using run by blast
qed

lemma placed_answered:
  assumes "core_ok s" and "0 \<le> sig_qty_lots sig" and "approve (ec_gate s) sig (ec_stdin s) = (True, inp)"
    and "alloc_parent (ec_pool s) = (Some pid, P)"
  shows "\<exists>s'. on_strategy_order E sig s = Some s' \<and> answered sig s s'"
proof -
  let ?q = "clamp_reduce_only_sig (ec_pos s) sig"
  obtain u where run: "on_strategy_order E sig s = decide_signal E pid sig ?q u" and p: "placed sig pid s u"
    using placed_run [OF assms(1,3,4), of E] by blast
  have w: "slots_used pid 0 u" "po_cum_qty_lots (the_parent pid u) = 0" "po_instr_id (the_parent pid u) = sig_instr_id sig"
    "po_dir (the_parent pid u) = sig_dir sig" "po_strategy_id (the_parent pid u) = sig_strategy_id sig"
    "env_same s u" "ec_pos u = ec_pos s" "ec_reject_queue u = ec_reject_queue s"
    "pid \<notin> live_parents (ec_pool s)" "live_parents (ec_pool u) = insert pid (live_parents (ec_pool s))"
    using p by (simp_all add: placed_def Let_def)
  obtain s' where s': "on_strategy_order E sig s = Some s'" "decided sig pid ?q u s'"
    using decide_signal_ok [OF w(1,2) _ w(3-5), of ?q E] run clamp_sig_nonneg [OF assms(2)] by auto
  have "answered sig s s'"
    using s'(2) env_same_trans [OF w(6)] nets_same_trans [OF nets_same_pos [OF w(7)]] w(7-10)
    by (auto simp: decided_def answered_def pushed_reject_def Let_def)
  then show ?thesis using s'(1) by blast
qed

lemma on_strategy_order_ok:
  assumes "core_ok s" and "0 \<le> sig_qty_lots sig"
  shows "\<exists>s'. on_strategy_order E sig s = Some s' \<and> answered sig s s'"
proof -
  obtain ok inp where ap: "approve (ec_gate s) sig (ec_stdin s) = (ok, inp)" by fastforce
  obtain r P where al: "alloc_parent (ec_pool s) = (r, P)" by fastforce
  show ?thesis
  proof (cases ok)
    case False
    have "core_ok (s\<lparr>ec_stdin := inp\<rparr>)" "env_same s (s\<lparr>ec_stdin := inp\<rparr>)"
      using assms(1) by (simp_all add: env_same_def core_ok_def)
    then show ?thesis using ap False refused_answered by (simp add: on_strategy_order_def)
  next
    case True
    then show ?thesis using ap al pool_full_answered [OF assms(1)] placed_answered [OF assms] by (cases r) auto
  qed
qed

end
