(* ===== verification/Core_Run.thy ===== *)
theory Core_Run
  imports Core_Handlers
begin

text \<open>
  The loop of the execution core.  Its timeout callback meets the contract \<open>timer_client\<close> of the timer
  wheel, which gives the ticks; the two queues are drained through the contract \<open>bounded_fifo\<close> of the
  rings.  \<open>core_step\<close> is everything that can happen to the core, and the invariant holds in every state
  it reaches.  The last section sets up a small concrete core for the witnesses.
\<close>

subsection \<open>Timeouts\<close>

text \<open>What a sequence of timeouts leaves alone, the timer wheel's clock apart.\<close>

definition quiet :: "ExecutionCore \<Rightarrow> ExecutionCore \<Rightarrow> bool" where
  "quiet s t \<longleftrightarrow> nets_same s t \<and> ec_cfg t = ec_cfg s \<and> ec_sor t = ec_sor s \<and> ec_strategy_queue t = ec_strategy_queue s \<and>
     ec_exec_report_queue t = ec_exec_report_queue s \<and> ec_running t = ec_running s"

lemma quiet_trans: "quiet s t \<Longrightarrow> env_same t u \<Longrightarrow> nets_same t u \<Longrightarrow> quiet s u"
  unfolding quiet_def env_same_def using nets_same_trans by metis

lemma put_timer_frame [simp]:
  "ec_pool (put_timer w s) = ec_pool s" "ec_timer (put_timer w s) = w" "the_child c (put_timer w s) = the_child c s"
  "config_ok (put_timer w s) = config_ok s" "ec_cfg (put_timer w s) = ec_cfg s" "quiet s (put_timer w t) = quiet s t"
  by (simp_all add: put_timer_def the_child_def config_ok_def quiet_def nets_same_def net_of_def)

lemma on_timeout_ok:
  assumes "core_ok s" and "cid \<in> live_children (ec_pool s) \<or> \<not> working (ch_state (children (ec_pool s) cid))"
  shows "\<exists>s'. on_timeout E cid s = Some s' \<and> core_ok s' \<and> env_same s s' \<and> nets_same s s'"
proof (cases "cid < 32768 \<and> working (ch_state (the_child cid s))")
  case False
  then show ?thesis using assms(1) by (auto simp: on_timeout_def working_def Let_def)
next
  case True
  then have "report_ok (timeout_report cid (the_child cid s)) s"
    using assms(2) by (auto simp: report_ok_def timeout_report_def is_fill_def the_child_def)
  from on_execution_report_ok [OF assms(1) this, of E] show ?thesis
    using True by (auto simp: on_timeout_def working_def Let_def report_effect_def is_fill_def timeout_report_def)
qed

text \<open>An entry that fires: once it is deactivated the invariant holds and the child is live or at rest.\<close>

lemma fired_ok:
  assumes "core_ok s" and "te_active (wheel (ec_timer s) slot i)"
  shows "core_ok (put_timer (deactivate slot i (ec_timer s)) s)"
    and "te_child_id (wheel (ec_timer s) slot i) \<in> live_children (ec_pool s) \<or>
      \<not> working (ch_state (children (ec_pool s) (te_child_id (wheel (ec_timer s) slot i))))"
proof -
  have t: "timers_ok (ec_timer s) (ec_pool s)" using assms(1) by (simp add: core_ok_def)
  have "te_child_id (wheel (ec_timer s) slot i) \<in> armed (ec_timer s)" using assms(2) by (auto simp: armed_def)
  then show "te_child_id (wheel (ec_timer s) slot i) \<in> live_children (ec_pool s) \<or>
      \<not> working (ch_state (children (ec_pool s) (te_child_id (wheel (ec_timer s) slot i))))"
    using t by (simp add: timers_ok_def)
  have "timers_ok (deactivate slot i (ec_timer s)) (ec_pool s)"
    using t armed_deactivate [of slot i "ec_timer s"] by (auto simp: timers_ok_def)
  then show "core_ok (put_timer (deactivate slot i (ec_timer s)) s)" using assms(1) by (simp add: core_ok_def)
qed

text \<open>The execution core is a client of the timer wheel: its callback keeps the invariant.\<close>

interpretation core_timer: timer_client ec_timer put_timer "on_timeout E" "\<lambda>t. core_ok t \<and> quiet s0 t" for E s0
proof (unfold_locales, goal_cases)
  case (1 w s) then show ?case by simp
next
  case (2 s c) then show ?case by (simp add: core_ok_def timers_ok_def)
next
  case (3 s slot i)
  let ?cid = "te_child_id (wheel (ec_timer s) slot i)" and ?s = "put_timer (deactivate slot i (ec_timer s)) s"
  have k: "core_ok ?s" "?cid \<in> live_children (ec_pool ?s) \<or> \<not> working (ch_state (children (ec_pool ?s) ?cid))"
    using fired_ok [of s slot i] 3 by simp_all
  obtain s' where s': "on_timeout E ?cid ?s = Some s'" "core_ok s'" "env_same ?s s'" "nets_same ?s s'"
    using on_timeout_ok [OF k] by blast
  have "quiet s0 ?s" using 3(1) by simp
  then have "quiet s0 s'" using s'(3,4) by (rule quiet_trans)
  then show ?case using s' by (simp add: env_same_def)
qed

lemma tick_timers_ok:
  assumes "core_ok s" and "0 < unat (tw_tick_ns (ec_timer s))" and "unat now + unat (tw_tick_ns (ec_timer s)) < 2 ^ 64"
    and "tw_now_ns (ec_timer s) \<le> now"
  shows "\<exists>s'. tw_tick ec_timer put_timer (on_timeout E) now s = Some s' \<and> core_ok s' \<and> quiet s s' \<and>
    tw_tick_ns (ec_timer s') = tw_tick_ns (ec_timer s) \<and> tw_now_ns (ec_timer s') \<le> now \<and>
    unat now < unat (tw_now_ns (ec_timer s')) + unat (tw_tick_ns (ec_timer s))"
proof -
  have "quiet s s" by (simp add: quiet_def)
  with core_timer.tick_returns [where s0 = s and E = E, OF _ assms(2-4)] assms(1) show ?thesis by blast
qed

subsection \<open>Draining the queues\<close>

text \<open>The first \<open>n\<close> reports waiting in the queue are each acceptable when their turn comes.\<close>

fun reports_ok :: "Env \<Rightarrow> nat \<Rightarrow> ExecutionCore \<Rightarrow> bool" where
  "reports_ok E 0 s = True"
| "reports_ok E (Suc n) s =
     (case spsc_pop InboundQueueN (ec_exec_report_queue s) of
        (None, q) \<Rightarrow> True
      | (Some rep, q) \<Rightarrow> report_ok rep (s\<lparr>ec_exec_report_queue := q\<rparr>) \<and>
          (case on_execution_report E rep (s\<lparr>ec_exec_report_queue := q\<rparr>) of
             None \<Rightarrow> True | Some s' \<Rightarrow> reports_ok E n s'))"

lemma pop_cases:
  assumes "spsc_inv InboundQueueN q"
  shows "spsc_contents InboundQueueN q = [] \<Longrightarrow> fst (spsc_pop InboundQueueN q) = None"
    and "spsc_contents InboundQueueN q = x # xs \<Longrightarrow> \<exists>q'. spsc_pop InboundQueueN q = (Some x, q') \<and>
      spsc_inv InboundQueueN q' \<and> spsc_contents InboundQueueN q' = xs"
  using inbound_q.pop_result [OF assms] inbound_q.pop_contents [OF assms] inbound_q.invar_pop [OF assms]
  by (simp, cases "spsc_pop InboundQueueN q") simp

lemma core_ok_queues [simp]:
  "core_ok (s\<lparr>ec_strategy_queue := q\<rparr>) = core_ok s" "core_ok (s\<lparr>ec_exec_report_queue := r\<rparr>) = core_ok s"
  by (simp_all add: core_ok_def config_ok_def)

lemma drain_strategy_ok:
  assumes "core_ok s" and "spsc_inv InboundQueueN (ec_strategy_queue s)"
    and "list_all (\<lambda>sig. 0 \<le> sig_qty_lots sig) (spsc_contents InboundQueueN (ec_strategy_queue s))"
  shows "\<exists>s'. drain_strategy E s = Some s' \<and> core_ok s' \<and> nets_same s s' \<and>
    spsc_contents InboundQueueN (ec_strategy_queue s') = [] \<and> spsc_inv InboundQueueN (ec_strategy_queue s') \<and>
    ec_exec_report_queue s' = ec_exec_report_queue s \<and>
    tw_now_ns (ec_timer s') = tw_now_ns (ec_timer s) \<and> tw_tick_ns (ec_timer s') = tw_tick_ns (ec_timer s)"
  using assms
proof (induction "spsc_contents InboundQueueN (ec_strategy_queue s)" arbitrary: s)
  case Nil
  then have "fst (spsc_pop InboundQueueN (ec_strategy_queue s)) = None" using pop_cases(1) by metis
  then show ?case using Nil by (subst drain_strategy.simps) (auto split: prod.splits option.splits)
next
  case (Cons sig sigs)
  obtain q where q: "spsc_pop InboundQueueN (ec_strategy_queue s) = (Some sig, q)" "spsc_inv InboundQueueN q"
    "spsc_contents InboundQueueN q = sigs"
    using pop_cases(2) [OF Cons.prems(2) Cons.hyps(2) [symmetric]] by blast
  let ?s = "s\<lparr>ec_strategy_queue := q\<rparr>"
  have "0 \<le> sig_qty_lots sig" "list_all (\<lambda>sig. 0 \<le> sig_qty_lots sig) sigs"
    using Cons.prems(3) by (simp_all add: Cons.hyps(2) [symmetric])
  then obtain s1 where s1: "on_strategy_order E sig ?s = Some s1" "answered sig ?s s1"
    using on_strategy_order_ok [of ?s sig E] Cons.prems(1) by auto
  then have a: "core_ok s1" "env_same ?s s1" "nets_same ?s s1" by (simp_all add: answered_def)
  then have e: "ec_strategy_queue s1 = q" "ec_exec_report_queue s1 = ec_exec_report_queue s"
    "tw_now_ns (ec_timer s1) = tw_now_ns (ec_timer s)" "tw_tick_ns (ec_timer s1) = tw_tick_ns (ec_timer s)"
    by (simp_all add: env_same_def)
  have n: "nets_same s s1" using a(3) by (simp add: nets_same_def net_of_def)
  from Cons.hyps(1) [of s1] q a(1) e(1) \<open>list_all _ sigs\<close>
  obtain s' where "drain_strategy E s1 = Some s'" "core_ok s'" "nets_same s1 s'"
    "spsc_contents InboundQueueN (ec_strategy_queue s') = []" "spsc_inv InboundQueueN (ec_strategy_queue s')"
    "ec_exec_report_queue s' = ec_exec_report_queue s1"
    "tw_now_ns (ec_timer s') = tw_now_ns (ec_timer s1)" "tw_tick_ns (ec_timer s') = tw_tick_ns (ec_timer s1)"
    by auto
  then show ?case using q(1) s1(1) e nets_same_trans [OF n] by (subst drain_strategy.simps) simp
qed

lemma drain_reports_ok:
  assumes "core_ok s" and "spsc_inv InboundQueueN (ec_exec_report_queue s)"
    and "reports_ok E (length (spsc_contents InboundQueueN (ec_exec_report_queue s))) s"
  shows "\<exists>s'. drain_reports E s = Some s' \<and> core_ok s' \<and>
    spsc_contents InboundQueueN (ec_exec_report_queue s') = [] \<and> ec_strategy_queue s' = ec_strategy_queue s \<and>
    tw_now_ns (ec_timer s') = tw_now_ns (ec_timer s) \<and> tw_tick_ns (ec_timer s') = tw_tick_ns (ec_timer s)"
  using assms
proof (induction "spsc_contents InboundQueueN (ec_exec_report_queue s)" arbitrary: s)
  case Nil
  then have "fst (spsc_pop InboundQueueN (ec_exec_report_queue s)) = None" using pop_cases(1) by metis
  then show ?case using Nil by (subst drain_reports.simps) (auto split: prod.splits option.splits)
next
  case (Cons rep reps)
  obtain q where q: "spsc_pop InboundQueueN (ec_exec_report_queue s) = (Some rep, q)" "spsc_inv InboundQueueN q"
    "spsc_contents InboundQueueN q = reps"
    using pop_cases(2) [OF Cons.prems(2) Cons.hyps(2) [symmetric]] by blast
  let ?s = "s\<lparr>ec_exec_report_queue := q\<rparr>"
  have r: "report_ok rep ?s" using Cons.prems(3) q(1) by (simp add: Cons.hyps(2) [symmetric])
  then obtain s1 where s1: "on_execution_report E rep ?s = Some s1" "core_ok s1" "env_same ?s s1"
    using on_execution_report_ok [of ?s rep E] Cons.prems(1) by auto
  then have e: "ec_exec_report_queue s1 = q" "ec_strategy_queue s1 = ec_strategy_queue s"
    "tw_now_ns (ec_timer s1) = tw_now_ns (ec_timer s)" "tw_tick_ns (ec_timer s1) = tw_tick_ns (ec_timer s)"
    by (simp_all add: env_same_def)
  have "reports_ok E (length reps) s1" using Cons.prems(3) q(1) s1(1) by (simp add: Cons.hyps(2) [symmetric])
  with Cons.hyps(1) [of s1] q s1(2) e(1)
  obtain s' where "drain_reports E s1 = Some s'" "core_ok s'"
    "spsc_contents InboundQueueN (ec_exec_report_queue s') = []" "ec_strategy_queue s' = ec_strategy_queue s1"
    "tw_now_ns (ec_timer s') = tw_now_ns (ec_timer s1)" "tw_tick_ns (ec_timer s') = tw_tick_ns (ec_timer s1)"
    by auto
  then show ?case using q(1) s1(1) e by (subst drain_reports.simps) simp
qed

subsection \<open>Start and steps\<close>

lemma core_init_ok:
  assumes "router_shape \<lparr>eng_fees = cfg_fees cfg\<rparr> (cfg_exchange_states cfg) (cfg_active_exchanges cfg)"
  shows "core_ok (core_init E cfg wired inp)"
proof -
  have "armed (reset_clock now (tw_init k)) = {}" for now k
    by (auto simp: armed_def reset_clock_def tw_init_def empty_entry_def)
  then show ?thesis using assms pool_ok_init
    by (simp add: core_init_def margin_monitor_init_def now_ns_def core_ok_def config_ok_def timers_ok_def)
qed

text \<open>Everything that can happen to the core: an order or an acceptable report is handled, the wheel
  advances to a later time, the feed replaces the books, and the calls from other threads.\<close>

inductive core_step :: "Env \<Rightarrow> ExecutionCore \<Rightarrow> ExecutionCore \<Rightarrow> bool" for E where
  order: "0 \<le> sig_qty_lots sig \<Longrightarrow> on_strategy_order E sig s = Some s' \<Longrightarrow> core_step E s s'"
| report: "report_ok rep s \<Longrightarrow> on_execution_report E rep s = Some s' \<Longrightarrow> core_step E s s'"
| timers: "0 < unat (tw_tick_ns (ec_timer s)) \<Longrightarrow> unat now + unat (tw_tick_ns (ec_timer s)) < 2 ^ 64 \<Longrightarrow>
    tw_now_ns (ec_timer s) \<le> now \<Longrightarrow> tw_tick ec_timer put_timer (on_timeout E) now s = Some s' \<Longrightarrow> core_step E s s'"
| feed: "router_shape (ec_sor s) sts (cfg_active_exchanges (ec_cfg s)) \<Longrightarrow> length sts = length (ec_states s) \<Longrightarrow>
    core_step E s (s\<lparr>ec_cfg := (ec_cfg s)\<lparr>cfg_exchange_states := sts\<rparr>\<rparr>)"
| mark: "core_on_mark_price price lot i s = Some s' \<Longrightarrow> core_step E s s'"
| rest: "core_step E s (on_rest_margin equity used ts s)"
| snapshot: "core_step E s (on_book_snapshot ex vol imb mid ts s)"
| unwind: "core_step E s (set_unwind_mode i enabled s)"
| stop: "core_step E s (core_stop s)"

inductive_cases core_stepE: "core_step E s s'"

lemma core_step_ok:
  assumes "core_step E s s'" and "core_ok s"
  shows "core_ok s'"
  using assms
proof (cases rule: core_step.cases)
  case (order sig)
  then show ?thesis using on_strategy_order_ok [OF assms(2), of sig E] by (auto simp: answered_def)
next
  case (report rep)
  then show ?thesis using on_execution_report_ok [OF assms(2), of rep E] by auto
next
  case (timers now)
  then show ?thesis using tick_timers_ok [OF assms(2), of now E] by auto
next
  case (feed sts)
  then show ?thesis using assms(2) by (simp add: core_ok_def config_ok_def)
next
  case (mark price lot i)
  then show ?thesis using assms(2)
    by (auto simp: core_on_mark_price_def core_ok_def config_ok_def elim!: bind_eq_SomeE)
qed (use assms(2) in \<open>simp_all add: core_ok_def config_ok_def on_rest_margin_def core_margin_def on_book_snapshot_def
  set_unwind_mode_def core_stop_def split: prod.splits\<close>)

lemma core_reach_ok:
  assumes "(core_step E)\<^sup>*\<^sup>* s s'" and "core_ok s"
  shows "core_ok s'"
  using assms by (induction rule: rtranclp_induct) (auto intro: core_step_ok)

subsection \<open>A concrete core\<close>

text \<open>Two exchanges of unit lots, one live buy order of ten lots with one working child.\<close>

definition demo_cfg :: ExecCoreConfig where
  "demo_cfg = \<lparr>cfg_fees = eng_fees demo_engine, cfg_risk_limits = \<lparr>max_order_lots = (\<lambda>_. 0), max_net_lots = (\<lambda>_. 0),
       max_notional_usd = 0, min_margin_required = 0\<rparr>, cfg_instruments = \<lparr>inst_lot_size = (\<lambda>_. Fin 1)\<rparr>,
     cfg_notional_gate = default_gate_config, cfg_margin = \<lparr>initial_margin_rate = 0, maintenance_margin_rate = 0,
       equity_usd = 0, warn_threshold_fraction = 0\<rparr>,
     cfg_child_timeout_ns = 2000000000, cfg_maker_timeout_ns = 5000000000,
     cfg_exchange_states = ctx_states demo_ctx, cfg_active_exchanges = 2\<rparr>"

definition demo_env :: Env where
  "demo_env = \<lparr>env_exp = demo_exp, env_clock = (\<lambda>k. of_nat (5000000 + k))\<rparr>"

definition demo_start :: ExecutionCore where
  "demo_start = core_init demo_env demo_cfg (\<lambda>_. True) []"

definition demo_child :: "ChildOrderState \<Rightarrow> ChildOrderState" where
  "demo_child c = c\<lparr>ch_parent_id := 0, ch_price := 201, ch_qty_lots := 10, ch_leaves_qty_lots := 10, ch_state := PENDING_NEW\<rparr>"

definition demo_pool :: OMSOrderPool where
  "demo_pool = (let P1 = upd_parent 0 (\<lambda>p. p\<lparr>po_total_qty_lots := 10, po_leaves_qty_lots := 10\<rparr>) (snd (alloc_parent pool_init))
     in upd_parent 0 (add_child 0 0) (upd_child 0 demo_child (snd (alloc_child P1))))"

definition demo_core :: ExecutionCore where
  "demo_core = demo_start\<lparr>ec_pool := demo_pool\<rparr>"

definition demo_fill :: ExecutionReport where
  "demo_fill = \<lparr>rep_child_id = 0, rep_fill_price_ticks = 201, rep_fill_qty_lots = 10, rep_exec_type = ET_FILL,
     rep_exchange_id = 0, rep_exchange_ns = 0, rep_recv_ns = 0\<rparr>"

lemma demo_router_shape:
  "router_shape \<lparr>eng_fees = cfg_fees demo_cfg\<rparr> (cfg_exchange_states demo_cfg) (cfg_active_exchanges demo_cfg)"
  by (simp add: router_shape_def state_shape_def demo_cfg_def demo_engine_def demo_ctx_def demo_state_def wf_side_def demo_side_def)

lemma demo_start_ok: "core_ok demo_start"
  unfolding demo_start_def by (rule core_init_ok [OF demo_router_shape])

lemma demo_pool_ok:
  assumes "0 < n"
  shows "pool_ok n demo_pool" and "live_children demo_pool = {0}" and "live_parents demo_pool = {0}"
    and "child_ids (parents demo_pool 0) = [0]"
proof -
  define P0 where "P0 = snd (alloc_parent pool_init)"
  have a: "alloc_parent pool_init = (Some 0, P0)" by (simp add: P0_def alloc_parent_def pool_init_def Let_def)
  note f = alloc_parent_focus [OF pool_ok_init [of n] a]
  define P1 where "P1 = upd_parent 0 (\<lambda>p. p\<lparr>po_total_qty_lots := 10, po_leaves_qty_lots := 10\<rparr>) P0"
  have f1: "focus n P1 0" unfolding P1_def by (rule focus_upd_parent [OF f(1)]) simp_all
  define P2 where "P2 = snd (alloc_child P1)"
  have c: "alloc_child P1 = (Some 0, P2)"
    by (simp add: P2_def P1_def P0_def alloc_child_def alloc_parent_def pool_init_def upd_parent_def Let_def)
  have h: "has_child (parents P1 0) slot \<longleftrightarrow> slot < 0" for slot
    using f(4) by (simp add: P1_def has_child_def reset_parent_def zero_parent_def)
  have d: "demo_pool = upd_parent 0 (add_child 0 0) (upd_child 0 demo_child P2)"
    by (simp add: demo_pool_def P2_def P1_def P0_def Let_def)
  note g = focus_new_child [OF f1 c _ h, of demo_child, folded d]
  have k: "focus n demo_pool 0" "has_working demo_pool 0" "live_children demo_pool = insert 0 (live_children P1)"
    "live_parents demo_pool = live_parents P1" "\<And>s. has_child (parents demo_pool 0) s \<longleftrightarrow> s < Suc 0"
    using g assms by (simp_all add: demo_child_def zero_child_def working_def)
  have p: "parents demo_pool 0 = add_child 0 0 (parents P1 0)" unfolding d using alloc_child_frame(1) [OF c] by simp
  show "live_children demo_pool = {0}" and "live_parents demo_pool = {0}"
    using k(3,4) f(3,5) by (simp_all add: P1_def pool_init_live)
  show "child_ids (parents demo_pool 0) = [0]" using child_ids_prefix [OF _ k(5)] p by simp
  have "qty_ok (parents demo_pool 0)" using p f(4) by (simp add: qty_ok_def add_child_def P1_def reset_parent_def zero_parent_def)
  then show "pool_ok n demo_pool" using pool_okI [OF k(1)] k(2) by simp
qed

lemma demo_core_ok: "core_ok demo_core"
proof -
  have "armed (ec_timer demo_start) = {}"
    by (auto simp: demo_start_def core_init_def margin_monitor_init_def now_ns_def armed_def reset_clock_def tw_init_def empty_entry_def)
  moreover have "0 < length (ec_states demo_start)" using demo_start_ok by (auto simp: core_ok_def config_ok_def router_shape_def)
  ultimately show ?thesis using demo_start_ok demo_pool_ok by (simp add: core_ok_def demo_core_def timers_ok_def)
qed

lemma demo_records:
  "the_child 0 demo_core = demo_child (zero_child\<lparr>ch_child_id := 0\<rparr>)"
  "po_leaves_qty_lots (the_parent 0 demo_core) = 10" "po_instr_id (the_parent 0 demo_core) = 0" "po_dir (the_parent 0 demo_core) = BUY"
  "child_ids (the_parent 0 demo_core) = [0]" "live_children (ec_pool demo_core) = {0}" "live_parents (ec_pool demo_core) = {0}"
  "net_of 0 demo_core = 0" "ec_cfg demo_core = demo_cfg"
  using demo_pool_ok [of 1]
  by (simp_all add: demo_core_def the_child_def the_parent_def net_of_def demo_start_def core_init_def margin_monitor_init_def
      now_ns_def init_positions_def flat_position_def)
    (simp_all add: demo_pool_def alloc_child_def alloc_parent_def pool_init_def upd_parent_def upd_child_def Let_def
      add_child_def reset_parent_def zero_parent_def)

lemma demo_canonical: "canonical_fill demo_fill demo_core = 10"
proof -
  have "to_i64 (std_round (of_i64 10 * Fin 1 / Fin 1)) = 10" by (rule scale_unscale_round) (simp_all add: power_int_minus)
  then show ?thesis
    using demo_records
    by (simp add: canonical_fill_def to_canonical_lots_def demo_fill_def demo_child_def zero_child_def demo_cfg_def demo_ctx_def
        demo_state_def lot_size_def Let_def one_double_def)
qed

lemma demo_report_ok: "report_ok demo_fill demo_core"
  using demo_records demo_canonical
  by (simp add: report_ok_def fill_ok_def Let_def demo_fill_def demo_child_def zero_child_def)

end
