(* ===== verification/Dashboard.thy ===== *)
theory Dashboard
  imports Order_Pool Position_Tracker
begin

text \<open>
  \<^verbatim>\<open>src/oms/dashboard.hpp\<close>: the thread that polls the pool and the positions and prints one line.  The
  record \<open>DashLine\<close> has the values handed to \<^verbatim>\<open>fprintf\<close>, and \<open>dash_text\<close> is the line it lays out.  A
  turn of the loop prints if the thread is still meant to run; the sleep between two lines is left out.

  The lemmas give the width of the line: while the values fit their columns every line has the same
  length, so that a line that starts with a carriage return covers the one before.
\<close>

record DashboardConfig =
  dc_lot_size :: double
  dc_tick_size :: double
  dc_instrument_name :: string
  dc_refresh_ms :: nat
  dc_instr_id :: nat
  dc_enabled :: bool

record Dashboard =
  db_cfg :: DashboardConfig
  db_running :: bool

record DashLine =
  dl_name :: string
  dl_net_qty :: double
  dl_avg_px :: double
  dl_parents :: nat
  dl_children :: nat
  dl_margin :: double

definition dash_init :: "DashboardConfig \<Rightarrow> Dashboard" where
  "dash_init cfg = \<lparr>db_cfg = cfg, db_running = False\<rparr>"

definition dash_start :: "Dashboard \<Rightarrow> Dashboard" where
  "dash_start d = (if \<not> dc_enabled (db_cfg d) \<or> db_running d then d else d\<lparr>db_running := True\<rparr>)"

definition dash_stop :: "Dashboard \<Rightarrow> Dashboard" where
  "dash_stop d = d\<lparr>db_running := False\<rparr>"

definition print_snapshot :: "DashboardConfig \<Rightarrow> OMSOrderPool \<Rightarrow> PositionTable \<Rightarrow> DashLine option" where
  "print_snapshot cfg pool pos =
     (if dc_instr_id cfg \<ge> kMaxInstruments then None
      else let p = instruments pos (dc_instr_id cfg)
        in Some \<lparr>dl_name = dc_instrument_name cfg, dl_net_qty = of_i64 (net_qty_lots p) * dc_lot_size cfg,
             dl_avg_px = avg_entry_price p, dl_parents = parents_in_use pool, dl_children = children_in_use pool,
             dl_margin = available (margin pos)\<rparr>)"

definition dash_turn :: "Dashboard \<Rightarrow> OMSOrderPool \<Rightarrow> PositionTable \<Rightarrow> DashLine option" where
  "dash_turn d pool pos = (if db_running d then print_snapshot (db_cfg d) pool pos else None)"

subsection \<open>The printed line\<close>

text \<open>The conversions of \<^verbatim>\<open>fprintf\<close> that the line uses: \<^verbatim>\<open>%u\<close>, \<^verbatim>\<open>%s\<close> and \<^verbatim>\<open>%f\<close> with their widths.  The exact
  value of a double is rounded to the printed decimals, ties to even.  The signs of a NaN and of a zero are
  not part of the model: the text of a NaN is left open, and a zero prints as a positive one.\<close>

fun decimal :: "nat \<Rightarrow> string" where
  "decimal n = (if n < 10 then [char_of (48 + n)] else decimal (n div 10) @ [char_of (48 + n mod 10)])"

declare decimal.simps [simp del]

fun digits :: "nat \<Rightarrow> nat \<Rightarrow> string" where
  "digits 0 n = []"
| "digits (Suc k) n = digits k (n div 10) @ [char_of (48 + n mod 10)]"

definition pad_left :: "nat \<Rightarrow> string \<Rightarrow> string" where
  "pad_left w t = replicate (w - length t) (CHR '' '') @ t"

definition pad_right :: "nat \<Rightarrow> string \<Rightarrow> string" where
  "pad_right w t = t @ replicate (w - length t) (CHR '' '')"

fun printf_f :: "bool \<Rightarrow> nat \<Rightarrow> nat \<Rightarrow> double \<Rightarrow> string option" where
  "printf_f sign w p (Fin x) = (let m = nat (rne (\<bar>x\<bar> * 10 ^ p))
     in Some (pad_left w ((if x < 0 then ''-'' else if sign then ''+'' else []) @ decimal (m div 10 ^ p) @ ''.'' @ digits p (m mod 10 ^ p))))"
| "printf_f sign w p PInf = Some (pad_left w ((if sign then ''+'' else []) @ ''inf''))"
| "printf_f sign w p NInf = Some (pad_left w ''-inf'')"
| "printf_f sign w p NaN = None"

definition dash_text :: "DashLine \<Rightarrow> string option" where
  "dash_text l = do {
     net \<leftarrow> printf_f True 9 4 (dl_net_qty l);
     px \<leftarrow> printf_f False 10 2 (dl_avg_px l);
     mg \<leftarrow> printf_f False 12 2 (dl_margin l);
     Some (CHR 0x0D # ''  [DASH] '' @ pad_right 10 (dl_name l) @ ''  net='' @ net @ ''  avg_px='' @ px @
       ''  parents='' @ pad_left 4 (decimal (dl_parents l)) @ ''  children='' @ pad_left 5 (decimal (dl_children l)) @
       ''  margin='' @ mg @ '' USD  '') }"

subsection \<open>Its width\<close>

lemma decimal_length: "n < 10 ^ Suc k \<Longrightarrow> length (decimal n) \<le> Suc k"
proof (induction k arbitrary: n)
  case 0
  then show ?case by (subst decimal.simps) simp
next
  case (Suc k)
  have "n div 10 < 10 ^ Suc k" using Suc.prems by (simp add: less_mult_imp_div_less mult.commute)
  then show ?case using Suc.IH [of "n div 10"] by (subst decimal.simps) simp
qed

lemma digits_length [simp]: "length (digits k n) = k"
  by (induction k arbitrary: n) simp_all

lemma pad_length: "length t \<le> w \<Longrightarrow> length (pad_left w t) = w" "length t \<le> w \<Longrightarrow> length (pad_right w t) = w"
  by (simp_all add: pad_left_def pad_right_def)

lemma printf_f_width:
  assumes "\<bar>x\<bar> \<le> 10 ^ Suc k - 1" and "(if x < 0 \<or> sign then 1 else 0) + Suc k + 1 + p \<le> w"
  shows "\<exists>t. printf_f sign w p (Fin x) = Some t \<and> length t = w"
proof -
  define m where "m = nat (rne (\<bar>x\<bar> * 10 ^ p))"
  have "\<bar>x\<bar> * 10 ^ p \<le> (10 ^ Suc k - 1) * 10 ^ p" using assms(1) by (intro mult_right_mono) simp_all
  also have "\<dots> = of_int ((10 ^ Suc k - 1) * 10 ^ p)" by simp
  finally have "rne (\<bar>x\<bar> * 10 ^ p) \<le> rne (of_int ((10 ^ Suc k - 1) * 10 ^ p))" by (rule rne_mono)
  also have "\<dots> = (10 ^ Suc k - 1) * 10 ^ p" by (rule rne_of_int)
  also have "\<dots> < 10 ^ Suc k * 10 ^ p" by simp
  finally have "rne (\<bar>x\<bar> * 10 ^ p) < int (10 ^ Suc k * 10 ^ p)" by simp
  moreover have "(0::nat) < 10 ^ Suc k * 10 ^ p" by simp
  ultimately have "m < 10 ^ Suc k * 10 ^ p" unfolding m_def by linarith
  then have "m div 10 ^ p < 10 ^ Suc k" by (rule less_mult_imp_div_less)
  from decimal_length [OF this] assms(2) have "length ((if x < 0 then ''-'' else if sign then ''+'' else []) @
      decimal (m div 10 ^ p) @ ''.'' @ digits p (m mod 10 ^ p)) \<le> w" by (simp split: if_splits)
  from pad_length(1) [OF this] show ?thesis by (simp add: m_def [symmetric] Let_def)
qed

text \<open>The values of a line that fit their columns: a name of ten characters, a position below a thousand, an
  average price below ten million and a margin below a hundred million.  Such a line is the carriage
  return and 110 characters.\<close>

fun column_fits :: "rat \<Rightarrow> rat \<Rightarrow> double \<Rightarrow> bool" where
  "column_fits lo hi (Fin x) = (lo \<le> x \<and> x \<le> hi)"
| "column_fits lo hi _ = False"

definition line_fits :: "DashLine \<Rightarrow> bool" where
  "line_fits l \<longleftrightarrow> length (dl_name l) \<le> 10 \<and> column_fits (- 999) 999 (dl_net_qty l) \<and> column_fits 0 9999999 (dl_avg_px l) \<and>
     column_fits (- 99999999) 99999999 (dl_margin l)"

lemma column_fitsE: "column_fits lo hi d \<Longrightarrow> (\<And>x. d = Fin x \<Longrightarrow> lo \<le> x \<Longrightarrow> x \<le> hi \<Longrightarrow> thesis) \<Longrightarrow> thesis"
  by (cases d) simp_all

lemma dash_text_width:
  assumes "line_fits l" and "dl_parents l < 10000" and "dl_children l < 100000"
  shows "\<exists>t. dash_text l = Some t \<and> length t = 111"
proof -
  obtain x y z where v: "dl_net_qty l = Fin x" "\<bar>x\<bar> \<le> 999" "dl_avg_px l = Fin y" "0 \<le> y" "y \<le> 9999999" "dl_margin l = Fin z" "\<bar>z\<bar> \<le> 99999999"
    and name: "length (dl_name l) \<le> 10"
    using assms(1) by (auto simp: line_fits_def abs_le_iff elim!: column_fitsE)
  obtain a where a: "printf_f True 9 4 (Fin x) = Some a" "length a = 9" using printf_f_width [of x 2 True 4 9] v(2) by (auto simp del: printf_f.simps)
  obtain b where b: "printf_f False 10 2 (Fin y) = Some b" "length b = 10" using printf_f_width [of y 6 False 2 10] v(4,5) by (auto simp del: printf_f.simps)
  obtain c where c: "printf_f False 12 2 (Fin z) = Some c" "length c = 12" using printf_f_width [of z 7 False 2 12] v(7)
    by (cases "z < 0") (auto simp del: printf_f.simps)
  have p: "length (pad_left 4 (decimal (dl_parents l))) = 4" "length (pad_left 5 (decimal (dl_children l))) = 5"
    using decimal_length [of "dl_parents l" 3] decimal_length [of "dl_children l" 4] assms(2,3) by (simp_all add: pad_length)
  show ?thesis using a b c p pad_length(2) [OF name] v(1,3,6) unfolding dash_text_def
    by (simp del: printf_f.simps)
qed

end
