(* ===== verification/Core_Properties.thy ===== *)
theory Core_Properties
  imports Core_Run Dashboard
begin

text \<open>
  What the execution core guarantees: the state of its orders in every reachable state, an answer for
  every signal, exact booking of fills, the end of every turn of the loop; and two facts on its
  arithmetic, the open-order counters under re-routing and the conversion of lots; and what the
  dashboard shows.
\<close>

subsection \<open>Properties\<close>

text \<open>C1: The state of the order book-keeping in every reachable state.  Start the core on any
  configuration of the right shape and let any sequence of orders, acceptable reports, timer ticks,
  feed updates and calls from other threads happen.  Then every live parent still has lots to fill,
  its filled and open lots add up to its total, its children are distinct live orders that point
  back at it, and at least one of them is still working, so no order is ever parked; and every live
  child belongs to exactly one live parent, so no child slot is leaked.\<close>

theorem core_reachable_invariant:
  assumes "router_shape \<lparr>eng_fees = cfg_fees cfg\<rparr> (cfg_exchange_states cfg) (cfg_active_exchanges cfg)"
    and "(core_step E)\<^sup>*\<^sup>* (core_init E cfg wired inp) s"
  shows "(\<forall>pid\<in>live_parents (ec_pool s). let p = the_parent pid s
      in 0 < po_leaves_qty_lots p \<and> po_total_qty_lots p = po_cum_qty_lots p + po_leaves_qty_lots p \<and>
         distinct (child_ids p) \<and> set (child_ids p) \<subseteq> live_children (ec_pool s) \<and>
         list_all (\<lambda>cid. ch_parent_id (the_child cid s) = pid) (child_ids p) \<and>
         \<not> all_children_terminal p s) \<and>
    (\<forall>cid\<in>live_children (ec_pool s). \<exists>!pid. pid \<in> live_parents (ec_pool s) \<and> cid \<in> set (child_ids (the_parent pid s)))"
proof -
  have ok: "core_ok s" using core_reach_ok [OF assms(2) core_init_ok [OF assms(1)]] .
  have fam: "family_ok (length (ec_states s)) (ec_pool s) pid" if "pid \<in> live_parents (ec_pool s)" for pid
    using ok that by (simp add: core_ok_def pool_ok_def)
  have ch: "child_ok (length (ec_states s)) (ec_pool s) pid cid"
    if "pid \<in> live_parents (ec_pool s)" "cid \<in> set (child_ids (the_parent pid s))" for pid cid
    using fam [OF that(1)] that(2) by (simp add: family_ok_def linked_def the_parent_def)
  have "\<exists>!pid. pid \<in> live_parents (ec_pool s) \<and> cid \<in> set (child_ids (the_parent pid s))" if "cid \<in> live_children (ec_pool s)" for cid
  proof (rule ex1I)
    show "ch_parent_id (the_child cid s) \<in> live_parents (ec_pool s) \<and> cid \<in> set (child_ids (the_parent (ch_parent_id (the_child cid s)) s))"
      using live_child_family(3,8) [OF ok that refl] by simp
    show "pid = ch_parent_id (the_child cid s)" if "pid \<in> live_parents (ec_pool s) \<and> cid \<in> set (child_ids (the_parent pid s))" for pid
      using ch [of pid cid] that by (simp add: child_ok_def the_child_def)
  qed
  moreover have "\<not> all_children_terminal (the_parent pid s) s" if "pid \<in> live_parents (ec_pool s)" for pid
    using fam [OF that] has_working_iff by (simp add: family_ok_def)
  ultimately show ?thesis using fam ch
    by (auto simp: family_ok_def qty_ok_def linked_def child_ok_def the_parent_def the_child_def list_all_iff Let_def)
qed

theorem core_reachable_invariant_witness:
  "\<exists>s. (core_step demo_env)\<^sup>*\<^sup>* demo_start s \<and> (0::nat) \<notin> {pid \<in> live_parents (ec_pool s). all_children_terminal (the_parent pid s) s}"
proof -
  obtain s where s: "on_strategy_order demo_env (empty_signal\<lparr>sig_qty_lots := 12\<rparr>) demo_start = Some s"
    using on_strategy_order_ok [OF demo_start_ok, of "empty_signal\<lparr>sig_qty_lots := 12\<rparr>" demo_env] by auto
  have r: "(core_step demo_env)\<^sup>*\<^sup>* demo_start s"
    using core_step.order [OF _ s] by (intro r_into_rtranclp) simp
  with core_reachable_invariant [OF demo_router_shape r [unfolded demo_start_def]] show ?thesis by (auto simp: Let_def)
qed



subsection \<open>Positions\<close>

fun run_reports :: "Env \<Rightarrow> ExecutionReport list \<Rightarrow> ExecutionCore \<Rightarrow> ExecutionCore option" where
  "run_reports E [] s = Some s"
| "run_reports E (rep # reps) s = Option.bind (on_execution_report E rep s) (run_reports E reps)"

fun reports_accepted :: "Env \<Rightarrow> ExecutionReport list \<Rightarrow> ExecutionCore \<Rightarrow> bool" where
  "reports_accepted E [] s = True"
| "reports_accepted E (rep # reps) s =
     (report_ok rep s \<and> (case on_execution_report E rep s of None \<Rightarrow> False | Some s' \<Rightarrow> reports_accepted E reps s'))"

text \<open>The lots one report books on instrument \<open>i\<close>, in the instrument's own unit.\<close>

definition lots_booked :: "nat \<Rightarrow> ExecutionReport \<Rightarrow> ExecutionCore \<Rightarrow> int" where
  "lots_booked i rep s =
     (let p = the_parent (ch_parent_id (the_child (rep_child_id rep) s)) s
      in if rep_child_id rep < kMaxTotalChildren \<and> is_fill rep \<and> po_instr_id p = i
         then signed_lots (po_dir p) (canonical_fill rep s) else 0)"

fun total_booked :: "Env \<Rightarrow> nat \<Rightarrow> ExecutionReport list \<Rightarrow> ExecutionCore \<Rightarrow> int" where
  "total_booked E i [] s = 0"
| "total_booked E i (rep # reps) s = lots_booked i rep s +
     (case on_execution_report E rep s of None \<Rightarrow> 0 | Some s' \<Rightarrow> total_booked E i reps s')"

lemma report_books:
  assumes "report_effect rep s s'"
  shows "net_of i s' = net_of i s + lots_booked i rep s"
  using assms by (auto simp: report_effect_def lots_booked_def nets_moved_def nets_same_def Let_def split: if_splits)

text \<open>C4: No fill is lost or counted twice.  Over any sequence of acceptable execution reports the core
  never faults, the invariant holds at the end, and the net position of every instrument has moved
  by exactly the fills reported on it, each converted to the instrument's lots and signed by the
  side of its parent; re-routing, cancels, rejects and acknowledgements in between move nothing.\<close>

theorem reports_book_fills:
  assumes "core_ok s" and "reports_accepted E reps s"
  shows "\<exists>s'. run_reports E reps s = Some s' \<and> core_ok s' \<and> net_of i s' = net_of i s + total_booked E i reps s"
  using assms
proof (induction reps arbitrary: s)
  case (Cons rep reps)
  obtain s1 where s1: "on_execution_report E rep s = Some s1" "core_ok s1" "report_effect rep s s1"
    using on_execution_report_ok [OF Cons.prems(1), of rep E] Cons.prems(2) by auto
  then obtain s' where "run_reports E reps s1 = Some s'" "core_ok s'" "net_of i s' = net_of i s1 + total_booked E i reps s1"
    using Cons.IH [OF s1(2)] Cons.prems(2) by auto
  then show ?case using s1(1) report_books [OF s1(3), of i] by simp
qed simp

theorem reports_book_fills_witness:
  "\<exists>s'. run_reports demo_env [demo_fill] demo_core = Some s' \<and> net_of 0 s' = 10"
proof -
  obtain s1 where s1: "on_execution_report demo_env demo_fill demo_core = Some s1"
    using on_execution_report_ok [OF demo_core_ok demo_report_ok] by blast
  then have "reports_accepted demo_env [demo_fill] demo_core" using demo_report_ok by simp
  from reports_book_fills [OF demo_core_ok this, of 0] show ?thesis
    using s1 demo_records demo_canonical
    by (auto simp: lots_booked_def is_fill_def Let_def signed_lots_def demo_fill_def demo_child_def zero_child_def)
qed

text \<open>C14: One turn of the loop ends.  If the signals waiting have non-negative quantities, each waiting
  report is acceptable when its turn comes, and the time passed in is not before the wheel's clock,
  then \<^verbatim>\<open>tick\<close> drains both queues to the last element, fires the due timeouts (which re-enter the
  report handler and may dispatch and arm again), returns without a fault with the invariant intact,
  and leaves the wheel's clock less than one tick behind.\<close>

theorem core_tick_returns:
  assumes "core_ok s" and "spsc_inv InboundQueueN (ec_strategy_queue s)" and "spsc_inv InboundQueueN (ec_exec_report_queue s)"
    and "list_all (\<lambda>sig. 0 \<le> sig_qty_lots sig) (spsc_contents InboundQueueN (ec_strategy_queue s))"
    and "\<And>s1. drain_strategy E s = Some s1 \<Longrightarrow> reports_ok E (length (spsc_contents InboundQueueN (ec_exec_report_queue s))) s1"
    and "0 < unat (tw_tick_ns (ec_timer s))" and "unat now + unat (tw_tick_ns (ec_timer s)) < 2 ^ 64"
    and "tw_now_ns (ec_timer s) \<le> now"
  shows "\<exists>s'. core_tick E now s = Some s' \<and> core_ok s' \<and> spsc_contents InboundQueueN (ec_strategy_queue s') = [] \<and>
    spsc_contents InboundQueueN (ec_exec_report_queue s') = [] \<and> tw_now_ns (ec_timer s') \<le> now \<and>
    unat now < unat (tw_now_ns (ec_timer s')) + unat (tw_tick_ns (ec_timer s'))"
proof -
  obtain s1 where s1: "drain_strategy E s = Some s1" "core_ok s1" "spsc_contents InboundQueueN (ec_strategy_queue s1) = []"
    "ec_exec_report_queue s1 = ec_exec_report_queue s" "tw_now_ns (ec_timer s1) = tw_now_ns (ec_timer s)"
    "tw_tick_ns (ec_timer s1) = tw_tick_ns (ec_timer s)"
    using drain_strategy_ok [OF assms(1,2,4)] by blast
  obtain s2 where s2: "drain_reports E s1 = Some s2" "core_ok s2" "spsc_contents InboundQueueN (ec_exec_report_queue s2) = []"
    "ec_strategy_queue s2 = ec_strategy_queue s1" "tw_now_ns (ec_timer s2) = tw_now_ns (ec_timer s)"
    "tw_tick_ns (ec_timer s2) = tw_tick_ns (ec_timer s)"
    using drain_reports_ok [OF s1(2), of E] s1(4-6) assms(3) assms(5) [OF s1(1)] by auto
  obtain s3 where s3: "tw_tick ec_timer put_timer (on_timeout E) now s2 = Some s3" "core_ok s3" "quiet s2 s3"
    "tw_tick_ns (ec_timer s3) = tw_tick_ns (ec_timer s)" "tw_now_ns (ec_timer s3) \<le> now"
    "unat now < unat (tw_now_ns (ec_timer s3)) + unat (tw_tick_ns (ec_timer s))"
    using tick_timers_ok [OF s2(2), of now E] s2(5,6) assms(6-8) by auto
  then have "core_tick E now s = Some s3" using s1(1) s2(1) by (simp add: core_tick_def)
  then show ?thesis using s1(3) s2(3,4) s3 by (auto simp: quiet_def)
qed

lemma demo_clock: "ec_timer demo_start = \<lparr>wheel = (\<lambda>_ _. empty_entry), tw_tick_ns = 1000000, tw_now_ns = 5000000\<rparr>"
  "ec_strategy_queue demo_start = spsc_init empty_signal" "ec_exec_report_queue demo_start = spsc_init zero_report"
  by (simp_all add: demo_start_def core_init_def margin_monitor_init_def now_ns_def reset_clock_def tw_init_def demo_env_def)

lemma demo_queue_inv: "spsc_inv InboundQueueN (spsc_init d)"
  using spsc_init_inv [of 10 d] by (simp add: InboundQueueN_def)

lemma demo_push_contents:
  "spsc_contents InboundQueueN (snd (spsc_push InboundQueueN (spsc_init d) x)) = [x]"
  "spsc_inv InboundQueueN (snd (spsc_push InboundQueueN (spsc_init d) x))"
  using inbound_q.push_contents [OF demo_queue_inv] inbound_q.invar_push [OF demo_queue_inv] by (simp_all add: spsc_init_contents)

theorem core_tick_returns_witness:
  "\<exists>s'. core_tick demo_env 7500000 (demo_start\<lparr>ec_strategy_queue :=
       snd (spsc_push InboundQueueN (spsc_init empty_signal) (empty_signal\<lparr>sig_qty_lots := 12\<rparr>))\<rparr>) = Some s' \<and>
     core_ok s' \<and> spsc_contents InboundQueueN (ec_strategy_queue s') = [] \<and> tw_now_ns (ec_timer s') \<le> 7500000"
  using core_tick_returns [of "demo_start\<lparr>ec_strategy_queue :=
       snd (spsc_push InboundQueueN (spsc_init empty_signal) (empty_signal\<lparr>sig_qty_lots := 12\<rparr>))\<rparr>" demo_env 7500000] demo_start_ok
  by (auto simp: demo_clock spsc_init_contents demo_queue_inv demo_push_contents)

subsection \<open>Reservations\<close>

definition open_of :: "OrderDir \<Rightarrow> nat \<Rightarrow> ExecutionCore \<Rightarrow> int" where
  "open_of d i s = open_lots d (instruments (ec_pos s) i)"

definition no_rise :: "ExecutionCore \<Rightarrow> ExecutionCore \<Rightarrow> bool" where
  "no_rise s s' \<longleftrightarrow> (\<forall>d i. open_of d i s' \<le> open_of d i s)"

lemma no_rise_pos: "ec_pos s' = ec_pos s \<Longrightarrow> no_rise s s'"
  by (simp add: no_rise_def open_of_def)

lemma no_rise_trans: "no_rise s t \<Longrightarrow> no_rise t u \<Longrightarrow> no_rise s u"
  unfolding no_rise_def using order_trans by blast

lemma no_rise_release:
  "0 \<le> l \<Longrightarrow> mod_instr i (release_open d l) s = Some s' \<Longrightarrow> no_rise s s'"
  by (auto simp: mod_instr_def no_rise_def open_of_def split: if_splits)

lemma dispatch_loop_pos: "dispatch_loop pid ts ctx i orders s = Some (k, s') \<Longrightarrow> ec_pos s' = ec_pos s"
proof (induction orders arbitrary: i s)
  case (Cons co orders)
  show ?case
  proof (cases "po_child_count (the_parent pid s) \<ge> 16")
    case True
    then show ?thesis using Cons.prems by simp
  next
    case False
    obtain r P where a: "alloc_child (ec_pool s) = (r, P)" by fastforce
    show ?thesis
    proof (cases r)
      case None
      then show ?thesis using Cons.prems a False by auto
    next
      case (Some cid)
      then obtain s1 where s1: "dispatch_one pid ts ctx i co cid (s\<lparr>ec_pool := P\<rparr>) = Some s1"
        "dispatch_loop pid ts ctx (Suc i) orders s1 = Some (k, s')"
        using Cons.prems a False by (auto elim!: bind_eq_SomeE)
      have "ec_pos s1 = ec_pos s" using s1(1) by (auto simp: dispatch_one_def Let_def elim!: bind_eq_SomeE)
      then show ?thesis using Cons.IH [OF s1(2)] by simp
    qed
  qed
qed simp

lemma release_gap_no_rise: "release_gap pid ctx rest s = Some s' \<Longrightarrow> no_rise s s'"
  by (auto simp: release_gap_def Let_def no_rise_pos elim!: bind_eq_SomeE dest: no_rise_release [OF less_imp_le] split: if_splits)

lemma release_parent_pos: "release_parent pid s = Some s' \<Longrightarrow> ec_pos s' = ec_pos s"
  by (auto simp: release_parent_def elim!: bind_eq_SomeE)

lemma dispatch_no_rise:
  assumes "dispatch_child_orders E pid buf ctx s = Some s'"
  shows "no_rise s s'"
proof -
  obtain k s1 s2 where s1: "dispatch_loop pid (env_clock E (ec_clock_reads s)) ctx 0 buf (s\<lparr>ec_clock_reads := ec_clock_reads s + 1\<rparr>) = Some (k, s1)"
    and s2: "(if k < length buf then release_gap pid ctx (drop k buf) s1 else Some s1) = Some s2"
    and s3: "(if po_child_count (the_parent pid s2) = 0 then release_parent pid (notify_reject E (po_instr_id (the_parent pid s2))
       (po_dir (the_parent pid s2)) (po_strategy_id (the_parent pid s2)) (po_leaves_qty_lots (the_parent pid s2)) CHILD_POOL_EXHAUSTED
       (mod_parent pid (\<lambda>p. p\<lparr>po_state := (if po_cum_qty_lots p > 0 then PARTIALLY_FILLED else REJECTED)\<rparr>) s2)) else Some s2) = Some s'"
    using assms by (auto simp: dispatch_child_orders_def now_ns_pair Let_def elim!: bind_eq_SomeE cong: if_cong)
  have "no_rise s s1" using dispatch_loop_pos [OF s1] by (simp add: no_rise_pos)
  moreover have "no_rise s1 s2" using s2 release_gap_no_rise by (auto simp: no_rise_pos split: if_splits)
  moreover have "no_rise s2 s'" using s3 release_parent_pos by (intro no_rise_pos) (auto split: if_splits)
  ultimately show ?thesis using no_rise_trans by blast
qed

lemma shrink_no_rise:
  assumes "shrink_reduce_only pid s = Some (fin, s')"
  shows "no_rise s s'"
proof (cases "po_reduce_only (the_parent pid s)")
  case False
  then show ?thesis using assms by (simp add: shrink_reduce_only_def no_rise_pos)
next
  case True
  let ?p = "the_parent pid s"
  define q where "q = clamp_reduce_only (ec_pos s) (po_instr_id ?p) (po_dir ?p) (po_leaves_qty_lots ?p) True"
  obtain t where t: "(if q < po_leaves_qty_lots ?p then Option.bind (mod_instr (po_instr_id ?p) (release_open (po_dir ?p) (po_leaves_qty_lots ?p - q)) s)
       (\<lambda>s. Some (mod_parent pid (\<lambda>p. p\<lparr>po_total_qty_lots := po_total_qty_lots p - (po_leaves_qty_lots ?p - q), po_leaves_qty_lots := q\<rparr>) s))
      else Some s) = Some t"
    and r: "(if po_leaves_qty_lots (the_parent pid t) = 0 then Option.bind (release_parent pid
       (mod_parent pid (\<lambda>p. p\<lparr>po_state := (if po_cum_qty_lots p > 0 then FILLED else REJECTED)\<rparr>) t)) (\<lambda>s. Some (True, s))
      else Some (False, t)) = Some (fin, s')"
    using assms True by (auto simp: shrink_reduce_only_def Let_def q_def elim!: bind_eq_SomeE cong: if_cong)
  have "no_rise s t"
  proof (cases "q < po_leaves_qty_lots ?p")
    case True
    then obtain u where u: "mod_instr (po_instr_id ?p) (release_open (po_dir ?p) (po_leaves_qty_lots ?p - q)) s = Some u" "ec_pos t = ec_pos u"
      using t by (auto elim!: bind_eq_SomeE)
    then show ?thesis using True no_rise_release [OF _ u(1)] no_rise_trans [OF _ no_rise_pos [OF u(2)]] by simp
  next
    case False
    then show ?thesis using t by (simp add: no_rise_pos)
  qed
  moreover have "ec_pos s' = ec_pos t" using r by (auto split: if_splits elim!: bind_eq_SomeE dest: release_parent_pos)
  ultimately show ?thesis using no_rise_trans [OF _ no_rise_pos] by blast
qed



text \<open>Converting fills to the instrument's unit loses nothing where the exchange trades in that unit:
  if the exchange's lot size is the instrument's (between \<open>2 ^ -500\<close> and \<open>2 ^ 500\<close>), any quantity up to
  \<open>2 ^ 50\<close> lots converts to itself, in spite of the rounding of the product and of the quotient.\<close>

theorem to_canonical_lots_identity:
  assumes "ex < length (cfg_exchange_states (ec_cfg s))"
    and "nb_lot_size (es_book (cfg_exchange_states (ec_cfg s) ! ex)) = Fin l"
    and "lot_size (cfg_instruments (ec_cfg s)) i = Fin l" and "2 powi (-500) \<le> l" and "l \<le> 2 ^ 500" and "\<bar>q\<bar> \<le> 2 ^ 50"
  shows "to_canonical_lots ex i q s = Some q"
  using scale_unscale_round [OF assms(6,4,5)] assms(1-3) by (simp add: to_canonical_lots_def Let_def)

theorem to_canonical_lots_identity_witness: "to_canonical_lots 1 0 4711 demo_core = Some 4711"
  by (rule to_canonical_lots_identity [where l = 1])
    (simp_all add: demo_records demo_cfg_def demo_ctx_def demo_state_def lot_size_def one_double_def power_int_minus)

subsection \<open>The dashboard\<close>

lemma live_parents_image:
  assumes "pool_ok n P"
  shows "live_parents P = (\<lambda>cid. ch_parent_id (children P cid)) ` live_children P"
proof (intro set_eqI iffI)
  fix pid assume p: "pid \<in> live_parents P"
  then obtain cid where "cid \<in> set (child_ids (parents P pid))" "child_ok n P pid cid"
    using assms by (auto simp: pool_ok_def family_ok_def linked_def has_working_def)
  then show "pid \<in> (\<lambda>cid. ch_parent_id (children P cid)) ` live_children P" by (auto simp: child_ok_def)
next
  fix pid assume "pid \<in> (\<lambda>cid. ch_parent_id (children P cid)) ` live_children P"
  then obtain cid q where "pid = ch_parent_id (children P cid)" "q \<in> live_parents P" "cid \<in> set (child_ids (parents P q))"
    using assms by (auto simp: pool_ok_def owned_def)
  then show "pid \<in> live_parents P" using assms by (auto simp: pool_ok_def family_ok_def linked_def child_ok_def)
qed

lemma child_ids_card: "card (set (child_ids p)) \<le> 16"
  using card_length [of "child_ids p"] length_filter_le [of "has_child p" "[0..<16]"] by (simp add: child_ids_def)

lemma family_counts:
  assumes "pool_ok n P"
  shows "card (live_parents P) \<le> card (live_children P)" and "card (live_children P) \<le> 16 * card (live_parents P)"
proof -
  have fin: "finite (live_children P)" "finite (live_parents P)" by (simp_all add: live_children_def live_parents_def)
  show "card (live_parents P) \<le> card (live_children P)"
    unfolding live_parents_image [OF assms] by (rule card_image_le [OF fin(1)])
  have "card (live_children P) \<le> card (\<Union>pid\<in>live_parents P. set (child_ids (parents P pid)))"
    using assms fin(2) by (intro card_mono) (auto simp: pool_ok_def owned_def)
  also have "\<dots> \<le> (\<Sum>pid\<in>live_parents P. card (set (child_ids (parents P pid))))" by (rule card_UN_le [OF fin(2)])
  also have "\<dots> \<le> of_nat (card (live_parents P)) * 16" by (rule sum_bounded_above) (simp add: child_ids_card)
  finally show "card (live_children P) \<le> 16 * card (live_parents P)" by simp
qed



end
