(* ===== verification/Order_Exposure.thy ===== *)
theory Order_Exposure
  imports Core_Run
begin

text \<open>
  What is out at the exchanges.  Where all books and instruments share one lot size (\<open>uniform_lots\<close>),
  the lots that the working children of a parent still have open (\<open>exposure\<close>) never exceed the
  parent's own leaves.  This theory has the parts of the argument below the handlers: the lots that
  survive the conversions through doubles, the budget of the router's orders, the frame of a handler
  (\<open>untouched\<close>: no other family changes) and the dispatch loop.
\<close>

subsection \<open>Lots through the double conversions\<close>

definition lot_unit :: "rat \<Rightarrow> bool" where
  "lot_unit l \<longleftrightarrow> rnd l = Fin l \<and> 2 powi (-500) \<le> l \<and> l \<le> 2 ^ 500"

lemma lot_unit_pos: "lot_unit l \<Longrightarrow> 0 < l"
  using powi2_pos [of "-500"] unfolding lot_unit_def by linarith

lemma trunc_near:
  assumes "\<bar>z - of_int n\<bar> < 1" and "2 \<le> n"
  shows "n - 1 \<le> trunc_rat z" and "trunc_rat z \<le> n"
proof -
  have z: "of_int (n - 1) < z" "z < of_int (n + 1)" "0 \<le> z" using assms by (auto simp: abs_less_iff)
  then show "n - 1 \<le> trunc_rat z" "trunc_rat z \<le> n" by (simp_all add: trunc_rat_def le_floor_iff floor_le_iff)
qed

text \<open>A child of \<open>f\<close> lots is sent out with at least one lot and at most \<open>f\<close>.\<close>

lemma native_lots:
  assumes "lot_unit l" and "0 < f" and "f \<le> 2 ^ 50"
  shows "1 \<le> to_lots (of_i64 f * Fin l) (Fin l)" and "to_lots (of_i64 f * Fin l) (Fin l) \<le> f"
proof -
  have "1 \<le> to_lots (of_i64 f * Fin l) (Fin l) \<and> to_lots (of_i64 f * Fin l) (Fin l) \<le> f"
  proof (cases "f = 1")
    case True
    have "of_i64 1 * Fin l / Fin l = Fin 1"
      using assms(1) lot_unit_pos [OF assms(1)] by (simp add: of_i64_def lot_unit_def)
    then show ?thesis using True by (simp add: to_lots_def)
  next
    case False
    have u: "2 powi (-500) \<le> l" "l \<le> 2 ^ 500" using assms(1) by (simp_all add: lot_unit_def)
    have a: "\<bar>f\<bar> \<le> 2 ^ 50" "f \<noteq> 0" using assms by simp_all
    obtain z where z: "of_i64 f * Fin l / Fin l = Fin z" and e: "\<bar>z - of_int f\<bar> \<le> 3 * \<bar>of_int f\<bar> / 2 ^ 53"
      using a u by (rule scale_unscale_err)
    have "\<bar>of_int f :: rat\<bar> \<le> 2 ^ 50" using a(1) by (metis of_int_abs of_int_le_iff of_int_numeral of_int_power)
    then have "\<bar>z - of_int f\<bar> < 1" using e by simp
    note t = trunc_near [OF this]
    have "to_lots (of_i64 f * Fin l) (Fin l) = trunc_rat z" using z t assms(2,3) False by (simp add: to_lots_def)
    then show ?thesis using t assms(2) False by simp
  qed
  then show "1 \<le> to_lots (of_i64 f * Fin l) (Fin l)" and "to_lots (of_i64 f * Fin l) (Fin l) \<le> f" by simp_all
qed

subsection \<open>What the router asks for\<close>

text \<open>The quantities of the child orders are positive lots that add up to at most a budget.\<close>

definition budgeted :: "rat \<Rightarrow> int \<Rightarrow> ChildOrder list \<Rightarrow> bool" where
  "budgeted l budget orders \<longleftrightarrow> (\<exists>fills. map co_qty orders = map (\<lambda>f. of_i64 f * Fin l) fills \<and>
     list_all (\<lambda>f. 0 < f) fills \<and> sum_list fills \<le> budget)"

lemma budgeted_Nil [simp]: "budgeted l b [] \<longleftrightarrow> 0 \<le> b"
  by (simp add: budgeted_def)

lemma budgeted_ConsE:
  assumes "budgeted l b (co # orders)"
  obtains f where "0 < f" and "co_qty co = of_i64 f * Fin l" and "budgeted l (b - f) orders" and "f \<le> b"
proof -
  obtain fills where m: "map co_qty (co # orders) = map (\<lambda>f. of_i64 f * Fin l) fills"
    and p: "list_all (\<lambda>f. 0 < f) fills" "sum_list fills \<le> b"
    using assms unfolding budgeted_def by blast
  then obtain f fs where c: "fills = f # fs" by (cases fills) auto
  have "0 \<le> sum_list fs" using p c by (intro sum_list_nonneg) (auto simp: list_all_iff)
  moreover have "budgeted l (b - f) orders" unfolding budgeted_def using m p c by (intro exI [of _ fs]) simp
  ultimately show ?thesis using that [of f] m p c by simp
qed

lemma budgeted_snoc:
  assumes "budgeted l b orders" and "co_qty co = of_i64 f * Fin l" and "0 < f"
  shows "budgeted l (b + f) (orders @ [co])"
proof -
  obtain fills where "map co_qty orders = map (\<lambda>f. of_i64 f * Fin l) fills" "list_all (\<lambda>f. 0 < f) fills" "sum_list fills \<le> b"
    using assms(1) by (auto simp: budgeted_def)
  then show ?thesis unfolding budgeted_def using assms(2,3) by (intro exI [of _ "fills @ [f]"]) simp
qed

lemma greedy_budgeted:
  assumes "greedy_loop ctx (Fin l) slices fs = Some fs'" and "list_all (\<lambda>st. 1 \<le> canonical_min_lots st (Fin l)) (ctx_states ctx)"
    and "budgeted l (t - fs_remaining_lots fs) (fs_out fs)" and "0 \<le> fs_remaining_lots fs"
  shows "budgeted l (t - fs_remaining_lots fs') (fs_out fs') \<and> 0 \<le> fs_remaining_lots fs'"
  using assms
proof (induction slices arbitrary: fs)
  case (Cons s slices)
  define f where "f = (if fs_remaining_lots fs < available_lots s then fs_remaining_lots fs else available_lots s)"
  show ?case
  proof (cases "fs_remaining_lots fs = 0")
    case True
    then show ?thesis using Cons.prems by simp
  next
    case nz: False
    obtain st where st: "nth_opt (ctx_states ctx) (cs_exchange_id s) = Some st" "1 \<le> canonical_min_lots st (Fin l)"
      using Cons.prems(1,2) nz by (auto simp: nth_opt_def list_all_length elim!: bind_eq_SomeE split: if_splits)
    show ?thesis
    proof (cases "f < canonical_min_lots st (Fin l)")
      case True
      then show ?thesis using Cons.IH [of fs] Cons.prems nz st(1) by (simp add: Let_def f_def)
    next
      case False
      let ?fs = "take_slice ctx (Fin l) st s f fs"
      have g: "greedy_loop ctx (Fin l) slices ?fs = Some fs'"
        using Cons.prems(1) nz st(1) False by (auto simp: Let_def f_def elim!: bind_eq_SomeE split: if_splits)
      have p: "0 < f" "f \<le> fs_remaining_lots fs" using False st(2) by (linarith, simp add: f_def)
      have "budgeted l (t - (fs_remaining_lots fs - f)) (fs_out ?fs)"
        using budgeted_snoc [OF Cons.prems(3) _ p(1)] by (simp add: take_slice_def Let_def diff_diff_eq2 diff_add_eq)
      moreover have "fs_remaining_lots ?fs = fs_remaining_lots fs - f" by (simp add: take_slice_def Let_def)
      ultimately show ?thesis using p(2) by (intro Cons.IH [OF g Cons.prems(2)]) simp_all
    qed
  qed
qed simp

lemma split_budgeted:
  assumes "calculate_optimal_split expf eng ctx [] = Some (res, orders)" and "resolve_reference_lot_size ctx = Some (Fin l)"
    and "list_all (\<lambda>st. 1 \<le> canonical_min_lots st (Fin l)) (ctx_states ctx)"
  shows "budgeted l (ctx_target_lots ctx) orders"
proof -
  have t: "0 < ctx_target_lots ctx" using assms(1) by (auto simp: calculate_optimal_split_def assert_opt_def split: if_splits)
  obtain slices where "greedy_fill slices ctx [] = Some (res, orders)"
    using assms(1) by (auto simp: calculate_optimal_split_def elim!: bind_eq_SomeE)
  then consider "orders = []" | fs where "greedy_loop ctx (Fin l) slices \<lparr>fs_remaining_lots = ctx_target_lots ctx, fs_best_raw_ticks = 0,
      fs_worst_raw_ticks = 0, fs_adverse = 0, fs_result = empty_result, fs_out = []\<rparr> = Some fs" "orders = fs_out fs"
    using assms(2) by (auto simp: greedy_fill_def Let_def elim!: bind_eq_SomeE split: if_splits)
  then show ?thesis
  proof cases
    case 2
    have "budgeted l (ctx_target_lots ctx - fs_remaining_lots fs) (fs_out fs) \<and> 0 \<le> fs_remaining_lots fs"
      using t by (intro greedy_budgeted [OF 2(1) assms(3)]) simp_all
    then show ?thesis using 2(2) unfolding budgeted_def by force
  qed (use t in simp)
qed

lemma maker_budgeted:
  assumes "calculate_maker_placement eng ctx [] = Some (res, orders)" and "resolve_reference_lot_size ctx = Some (Fin l)"
  shows "budgeted l (ctx_target_lots ctx) orders"
proof -
  have t: "0 < ctx_target_lots ctx" using assms(1) by (auto simp: calculate_maker_placement_def assert_opt_def split: if_splits)
  have "orders = [] \<or> (\<exists>co. orders = [co] \<and> co_qty co = of_i64 (ctx_target_lots ctx) * Fin l)"
    using assms by (auto simp: calculate_maker_placement_def Let_def elim!: bind_eq_SomeE split: option.splits if_splits)
  then show ?thesis using t budgeted_snoc [of l 0 "[]"] by auto
qed

subsection \<open>Other families\<close>

text \<open>A handler that works on one parent touches no other live family.\<close>

definition untouched :: "nat \<Rightarrow> OMSOrderPool \<Rightarrow> OMSOrderPool \<Rightarrow> bool" where
  "untouched pid P Q \<longleftrightarrow> live_parents Q - {pid} = live_parents P - {pid} \<and>
     (\<forall>q\<in>live_parents P - {pid}. parents Q q = parents P q \<and>
       (\<forall>cid\<in>set (child_ids (parents P q)). children Q cid = children P cid))"

lemma untouched_refl [simp]: "untouched pid P P"
  by (simp add: untouched_def)

lemma untouched_trans [trans]: "untouched pid P Q \<Longrightarrow> untouched pid Q R \<Longrightarrow> untouched pid P R"
  by (simp add: untouched_def)

lemma untouched_parent [simp]: "untouched pid P (upd_parent pid f Q) = untouched pid P Q" "untouched pid (upd_parent pid f P) Q = untouched pid P Q"
  by (auto simp: untouched_def)

lemma untouched_same:
  "parents Q = parents P \<Longrightarrow> children Q = children P \<Longrightarrow> live_parents Q - {pid} = live_parents P - {pid} \<Longrightarrow> untouched pid P Q"
  by (simp add: untouched_def)

text \<open>The children of another family are not those of the focused parent, and they are live.\<close>

lemma focus_apart:
  assumes "focus n P pid" and "q \<in> live_parents P - {pid}" and "cid \<in> set (child_ids (parents P q))"
  shows "cid \<notin> set (child_ids (parents P pid))" and "cid \<in> live_children P"
proof -
  have "child_ok n P q cid" using focusD(5) [OF assms(1,2)] assms(3) by (simp add: family_ok_def linked_def)
  then show "cid \<notin> set (child_ids (parents P pid))" and "cid \<in> live_children P"
    using assms(1,2) by (auto simp: focus_def linked_def child_ok_def)
qed

lemma untouched_child:
  assumes "focus n P pid" and "cid \<in> set (child_ids (parents P pid)) \<or> cid \<notin> live_children P"
  shows "untouched pid P (upd_child cid g P)"
  using focus_apart [OF assms(1)] assms(2) by (fastforce simp: untouched_def)

subsection \<open>Open lots of a family\<close>

definition open_part :: "ChildOrderState \<Rightarrow> qty_t" where
  "open_part c = (if working (ch_state c) then ch_leaves_qty_lots c else 0)"

definition child_qty_ok :: "ChildOrderState \<Rightarrow> bool" where
  "child_qty_ok c \<longleftrightarrow> (working (ch_state c) \<longrightarrow> 0 < ch_leaves_qty_lots c \<and> ch_leaves_qty_lots c = ch_qty_lots c - ch_cum_qty_lots c)"

definition exposure :: "nat \<Rightarrow> OMSOrderPool \<Rightarrow> qty_t" where
  "exposure pid P = (\<Sum>cid\<leftarrow>child_ids (parents P pid). open_part (children P cid))"

definition children_qty :: "nat \<Rightarrow> OMSOrderPool \<Rightarrow> bool" where
  "children_qty pid P \<longleftrightarrow> (\<forall>cid\<in>set (child_ids (parents P pid)). child_qty_ok (children P cid))"

definition exposed_ok :: "nat \<Rightarrow> OMSOrderPool \<Rightarrow> bool" where
  "exposed_ok pid P \<longleftrightarrow> children_qty pid P \<and> exposure pid P \<le> po_leaves_qty_lots (parents P pid) \<and>
     po_leaves_qty_lots (parents P pid) \<le> 2 ^ 50"

definition all_exposed :: "OMSOrderPool \<Rightarrow> bool" where
  "all_exposed P \<longleftrightarrow> (\<forall>pid\<in>live_parents P. exposed_ok pid P)"

lemma family_open_cong:
  assumes "child_ids (parents Q pid) = child_ids (parents P pid)" and "\<And>cid. cid \<in> set (child_ids (parents P pid)) \<Longrightarrow> children Q cid = children P cid"
  shows "exposure pid Q = exposure pid P" and "children_qty pid Q = children_qty pid P"
  using assms by (auto simp: exposure_def children_qty_def cong: map_cong)

lemma all_exposed_untouched:
  assumes "all_exposed P" and "untouched pid P Q" and "pid \<in> live_parents Q \<Longrightarrow> exposed_ok pid Q"
  shows "all_exposed Q"
  unfolding all_exposed_def
proof
  fix q assume q: "q \<in> live_parents Q"
  show "exposed_ok q Q"
  proof (cases "q = pid")
    case False
    then have "q \<in> live_parents P - {pid}" using assms(2) q by (auto simp: untouched_def)
    then show ?thesis using assms(1,2) family_open_cong [of Q q P] by (auto simp: untouched_def all_exposed_def exposed_ok_def)
  qed (use assms(3) q in simp)
qed

lemma open_part_nonneg: "child_qty_ok c \<Longrightarrow> 0 \<le> open_part c"
  by (auto simp: child_qty_ok_def open_part_def)

lemma exposure_remove:
  assumes "cid \<in> set (child_ids (parents P pid))" and "distinct (child_ids (parents P pid))"
  shows "exposure pid P = open_part (children P cid) + (\<Sum>x\<leftarrow>remove1 cid (child_ids (parents P pid)). open_part (children P x))"
  unfolding exposure_def using assms(1) by (rule sum_list_map_remove1)

subsection \<open>Dispatch\<close>

text \<open>One lot size everywhere, and a minimum of at least one lot on every exchange.\<close>

definition uniform_lots :: "rat \<Rightarrow> ExecutionCore \<Rightarrow> bool" where
  "uniform_lots l s \<longleftrightarrow> lot_unit l \<and> (\<forall>i<kMaxInstruments. lot_size (cfg_instruments (ec_cfg s)) i = Fin l) \<and>
     list_all (\<lambda>st. nb_lot_size (es_book st) = Fin l \<and> 1 \<le> canonical_min_lots st (Fin l)) (ec_states s)"

lemma uniform_lots_cong: "ec_cfg t = ec_cfg s \<Longrightarrow> uniform_lots l t = uniform_lots l s"
  by (simp add: uniform_lots_def)

lemma add_child_ids:
  assumes "\<And>slot. has_child p slot \<longleftrightarrow> slot < i" and "i < 16"
  shows "child_ids (add_child i cid p) = child_ids p @ [cid]"
proof -
  have h: "has_child (add_child i cid p) s \<longleftrightarrow> s < Suc i" for s
    by (auto simp only: has_child_add_child [OF assms(2)] assms(1) less_Suc_eq)
  show ?thesis
    using child_ids_prefix [of "Suc i", OF _ h] child_ids_prefix [of i, OF _ assms(1)] assms(2) by (simp add: add_child_def)
qed

lemma dispatch_one_family:
  assumes "slots_used pid i s" and "i < 16" and "alloc_child (ec_pool s) = (Some cid, P)"
    and "dispatch_one pid ts ctx i co cid (s\<lparr>ec_pool := P\<rparr>) = Some s'"
  shows "untouched pid (ec_pool s) (ec_pool s')"
    and "child_ids (parents (ec_pool s') pid) = child_ids (parents (ec_pool s) pid) @ [cid]"
    and "children (ec_pool s') = (children (ec_pool s))(cid :=
      new_child (po_parent_id (the_parent pid s)) ts (ctx_dir ctx) (ec_states s ! co_exchange_id co) co (zero_child\<lparr>ch_child_id := cid\<rparr>))"
    and "cid \<notin> set (child_ids (parents (ec_pool s) pid))"
proof -
  let ?n = "length (ec_states s)" and ?st = "ec_states s ! co_exchange_id co"
  let ?Q = "upd_parent pid (add_child i cid) (upd_child cid (new_child (po_parent_id (parents P pid)) ts (ctx_dir ctx) ?st co) P)"
  have f: "focus ?n (ec_pool s) pid" and h: "\<And>slot. has_child (parents (ec_pool s) pid) slot \<longleftrightarrow> slot < i"
    using assms(1) by (auto simp: slots_used_def core_focus_def the_parent_def)
  note fr = alloc_child_frame [OF assms(3)]
  have inv: "children_inv (ec_pool s)" using f by (simp add: focus_def pool_inv_def)
  have new: "cid \<notin> live_children (ec_pool s)" using child_pool.alloc_fresh [OF inv assms(3)] by simp
  show c: "cid \<notin> set (child_ids (parents (ec_pool s) pid))" using f new by (auto simp: focus_def linked_def child_ok_def)
  have Q: "ec_pool s' = ?Q"
    using assms(4) by (auto simp: dispatch_one_def Let_def mod_child_def mod_parent_def the_parent_def nth_opt_def assert_opt_def
        elim!: bind_eq_SomeE split: if_splits)
  show ch: "children (ec_pool s') = (children (ec_pool s))(cid :=
      new_child (po_parent_id (the_parent pid s)) ts (ctx_dir ctx) ?st co (zero_child\<lparr>ch_child_id := cid\<rparr>))"
    unfolding Q using fr by (auto simp: fun_eq_iff the_parent_def)
  show "child_ids (parents (ec_pool s') pid) = child_ids (parents (ec_pool s) pid) @ [cid]"
    unfolding Q using fr add_child_ids [OF h assms(2)] by simp
  have "live_parents (ec_pool s') = live_parents (ec_pool s)" "\<And>q. q \<noteq> pid \<Longrightarrow> parents (ec_pool s') q = parents (ec_pool s) q"
    unfolding Q using fr by simp_all
  then show "untouched pid (ec_pool s) (ec_pool s')"
    using focus_apart(2) [OF f] new ch by (fastforce simp: untouched_def)
qed

text \<open>The dispatch loop adds at most the budget of its orders.\<close>

text \<open>One order of \<open>f\<close> lots adds one working child, with at most \<open>f\<close> lots open.\<close>

lemma dispatch_one_exposure:
  assumes "slots_used pid i s" and "i < 16" and "alloc_child (ec_pool s) = (Some cid, P)" and "co_exchange_id co < length (ec_states s)"
    and "uniform_lots l s" and "co_qty co = of_i64 f * Fin l" and "0 < f" and "f \<le> 2 ^ 50" and "children_qty pid (ec_pool s)"
    and "dispatch_one pid ts ctx i co cid (s\<lparr>ec_pool := P\<rparr>) = Some s1"
  shows "untouched pid (ec_pool s) (ec_pool s1)" and "children_qty pid (ec_pool s1)"
    and "exposure pid (ec_pool s1) \<le> exposure pid (ec_pool s) + f"
proof -
  note fam = dispatch_one_family [OF assms(1-3,10)]
  let ?c = "children (ec_pool s1) cid"
  have "nb_lot_size (es_book (ec_states s ! co_exchange_id co)) = Fin l"
    using assms(4,5) by (auto simp: uniform_lots_def list_all_length)
  then have "ch_leaves_qty_lots ?c = to_lots (of_i64 f * Fin l) (Fin l)" "ch_qty_lots ?c = ch_leaves_qty_lots ?c" "ch_cum_qty_lots ?c = 0"
    "working (ch_state ?c)"
    using assms(6) fam(3) by (simp_all add: new_child_def Let_def working_def)
  moreover have "lot_unit l" using assms(5) by (simp add: uniform_lots_def)
  ultimately have c: "child_qty_ok ?c" "open_part ?c \<le> f"
    using native_lots [of l f] assms(7,8) by (auto simp: child_qty_ok_def open_part_def)
  have old: "children (ec_pool s1) x = children (ec_pool s) x" if "x \<in> set (child_ids (parents (ec_pool s) pid))" for x
    using fam(3,4) that by auto
  show "untouched pid (ec_pool s) (ec_pool s1)" by (rule fam(1))
  show "children_qty pid (ec_pool s1)" using assms(9) c(1) old fam(2) by (auto simp: children_qty_def)
  have "exposure pid (ec_pool s1) = exposure pid (ec_pool s) + open_part ?c"
    using fam(2) old by (simp add: exposure_def cong: map_cong)
  then show "exposure pid (ec_pool s1) \<le> exposure pid (ec_pool s) + f" using c(2) by simp
qed

lemma dispatch_loop_exposure:
  assumes "slots_used pid i s" and "list_all (\<lambda>co. co_exchange_id co < length (ec_states s)) orders"
    and "dispatch_loop pid ts ctx i orders s = Some (k, s')" and "uniform_lots l s"
    and "budgeted l b orders" and "b \<le> 2 ^ 50" and "children_qty pid (ec_pool s)"
  shows "untouched pid (ec_pool s) (ec_pool s') \<and> children_qty pid (ec_pool s') \<and>
    exposure pid (ec_pool s') \<le> exposure pid (ec_pool s) + b"
  using assms
proof (induction orders arbitrary: i s b)
  case Nil
  then show ?case by simp
next
  case (Cons co orders)
  obtain f where f: "0 < f" "co_qty co = of_i64 f * Fin l" "budgeted l (b - f) orders" "f \<le> b" using budgeted_ConsE [OF Cons.prems(5)] .
  have b: "0 \<le> b" using f(1,4) by simp
  show ?case
  proof (cases "po_child_count (the_parent pid s) \<ge> 16")
    case True
    then show ?thesis using Cons.prems(3,7) b by simp
  next
    case False
    then have i: "i < 16" using Cons.prems(1) by (simp add: slots_used_def)
    obtain r P where a: "alloc_child (ec_pool s) = (r, P)" by fastforce
    show ?thesis
    proof (cases r)
      case None
      then have s': "s' = s\<lparr>ec_pool := P\<rparr>" using Cons.prems(3) a False by auto
      note fr = alloc_child_frame [OF a]
      have "untouched pid (ec_pool s) P" using fr None by (intro untouched_same) simp_all
      then show ?thesis using s' fr None b Cons.prems(7) by (simp add: exposure_def children_qty_def)
    next
      case (Some cid)
      obtain s1 where s1: "dispatch_one pid ts ctx i co cid (s\<lparr>ec_pool := P\<rparr>) = Some s1" "slots_used pid (Suc i) s1" "dispatched pid s s1"
        using dispatch_one_ok [OF Cons.prems(1) i a [unfolded Some], of co ts ctx] Cons.prems(2) by auto
      have cfg: "ec_cfg s1 = ec_cfg s" using s1(3) by (simp add: dispatched_def env_same_def)
      have co: "co_exchange_id co < length (ec_states s)" "f \<le> 2 ^ 50" using Cons.prems(2,6) f(4) by simp_all
      note one = dispatch_one_exposure [OF Cons.prems(1) i a [unfolded Some] co(1) Cons.prems(4) f(2,1) co(2) Cons.prems(7) s1(1)]
      have "untouched pid (ec_pool s1) (ec_pool s') \<and> children_qty pid (ec_pool s') \<and>
          exposure pid (ec_pool s') \<le> exposure pid (ec_pool s1) + (b - f)"
        using Cons.prems a Some False s1(1) cfg f one(2)
        by (intro Cons.IH [OF s1(2)]) (auto simp: uniform_lots_cong [OF cfg] elim!: bind_eq_SomeE)
      then show ?thesis using untouched_trans [OF one(1)] one(3) by auto
    qed
  qed
qed

lemma release_parent_records:
  "release_parent pid s = Some s' \<Longrightarrow> parents (ec_pool s') = parents (ec_pool s) \<and> children (ec_pool s') = children (ec_pool s)"
  by (auto simp: release_parent_def elim!: bind_eq_SomeE dest: free_parent_frame)

lemma release_gap_pool: "release_gap pid ctx rest s = Some s' \<Longrightarrow> ec_pool s' = ec_pool s"
  by (auto simp: release_gap_def mod_instr_def Let_def elim!: bind_eq_SomeE split: if_splits)

text \<open>A new state label changes nothing that counts here.\<close>

lemma exposed_relabel [simp]:
  "exposed_ok pid (upd_parent pid (\<lambda>p. p\<lparr>po_state := f p\<rparr>) P) = exposed_ok pid P"
proof -
  let ?Q = "upd_parent pid (\<lambda>p. p\<lparr>po_state := f p\<rparr>) P"
  have "child_ids (parents ?Q pid) = child_ids (parents P pid)" by (rule child_ids_cong) simp_all
  from family_open_cong [OF this] show ?thesis by (simp add: exposed_ok_def)
qed

lemma exposed_records: "parents Q = parents P \<Longrightarrow> children Q = children P \<Longrightarrow> exposed_ok pid Q = exposed_ok pid P"
  by (simp add: exposed_ok_def exposure_def children_qty_def)

text \<open>How a handler that works on \<open>pid\<close> leaves the pool.\<close>

definition contained :: "nat \<Rightarrow> ExecutionCore \<Rightarrow> ExecutionCore \<Rightarrow> bool" where
  "contained pid s s' \<longleftrightarrow> untouched pid (ec_pool s) (ec_pool s') \<and> exposed_ok pid (ec_pool s')"

lemma contained_trans: "untouched pid (ec_pool s) (ec_pool t) \<Longrightarrow> contained pid t s' \<Longrightarrow> contained pid s s'"
  unfolding contained_def using untouched_trans by blast

lemma all_exposed_contained: "all_exposed (ec_pool s) \<Longrightarrow> contained pid s s' \<Longrightarrow> all_exposed (ec_pool s')"
  using all_exposed_untouched [of "ec_pool s" pid "ec_pool s'"] by (simp add: contained_def)

lemma contained_closed:
  assumes "release_parent pid u = Some s'" and "ec_pool u = upd_parent pid (\<lambda>p. p\<lparr>po_state := f p\<rparr>) (ec_pool t)"
    and "exposed_ok pid (ec_pool t)" and "live_parents (ec_pool s') - {pid} = live_parents (ec_pool t) - {pid}"
  shows "contained pid t s'"
proof -
  have r: "parents (ec_pool s') = parents (ec_pool u)" "children (ec_pool s') = children (ec_pool u)"
    using release_parent_records [OF assms(1)] by simp_all
  have "untouched pid (ec_pool u) (ec_pool s')" using assms(2,4) by (intro untouched_same [OF r]) simp
  then show ?thesis using exposed_records [OF r] assms(2,3) by (simp add: contained_def)
qed

lemma dispatch_contained:
  assumes "slots_used pid 0 s" and "qty_ok (the_parent pid s)" and "ctx_states ctx \<noteq> []"
    and "list_all (\<lambda>co. co_exchange_id co < length (ec_states s)) buf" and "dispatch_child_orders E pid buf ctx s = Some s'"
    and "uniform_lots l s" and "budgeted l (po_leaves_qty_lots (the_parent pid s)) buf" and "po_leaves_qty_lots (the_parent pid s) \<le> 2 ^ 50"
  shows "contained pid s s'"
proof -
  let ?s0 = "s\<lparr>ec_clock_reads := ec_clock_reads s + 1\<rparr>" and ?ts = "env_clock E (ec_clock_reads s)"
  have s0: "slots_used pid 0 ?s0" "list_all (\<lambda>co. co_exchange_id co < length (ec_states ?s0)) buf" "uniform_lots l ?s0"
    using assms(1,4,6) by (simp_all add: slots_used_def uniform_lots_def)
  have none: "child_ids (parents (ec_pool s) pid) = []" using slots_used_no_ids [OF assms(1)] by (simp add: the_parent_def)
  obtain k s1 where s1: "dispatch_loop pid ?ts ctx 0 buf ?s0 = Some (k, s1)" "dispatched pid ?s0 s1"
    using dispatch_loop_ok [OF s0(1,2)] by blast
  have e1: "untouched pid (ec_pool s) (ec_pool s1) \<and> children_qty pid (ec_pool s1) \<and>
      exposure pid (ec_pool s1) \<le> po_leaves_qty_lots (the_parent pid s)"
    using dispatch_loop_exposure [OF s0(1,2) s1(1) s0(3) assms(7,8)] none by (simp add: children_qty_def exposure_def)
  have "po_leaves_qty_lots (the_parent pid s1) = po_leaves_qty_lots (the_parent pid s)" using s1(2) by (simp add: dispatched_def order_same_def)
  then have x1: "exposed_ok pid (ec_pool s1)" using e1 assms(8) by (simp add: exposed_ok_def the_parent_def)
  obtain s2 where s2: "(if k < length buf then release_gap pid ctx (drop k buf) s1 else Some s1) = Some s2"
    and r: "(if po_child_count (the_parent pid s2) = 0 then release_parent pid (notify_reject E (po_instr_id (the_parent pid s2))
       (po_dir (the_parent pid s2)) (po_strategy_id (the_parent pid s2)) (po_leaves_qty_lots (the_parent pid s2)) CHILD_POOL_EXHAUSTED
       (mod_parent pid (\<lambda>p. p\<lparr>po_state := (if po_cum_qty_lots p > 0 then PARTIALLY_FILLED else REJECTED)\<rparr>) s2)) else Some s2) = Some s'"
    using assms(5) s1(1) by (auto simp: dispatch_child_orders_def now_ns_pair Let_def elim!: bind_eq_SomeE cong: if_cong)
  have p2: "ec_pool s2 = ec_pool s1" using s2 release_gap_pool by (auto split: if_splits)
  have "contained pid s2 s'"
  proof (cases "po_child_count (the_parent pid s2) = 0")
    case False
    then show ?thesis using r x1 p2 by (simp add: contained_def)
  next
    case True
    have "routed pid CHILD_POOL_EXHAUSTED s s'" using dispatch_child_orders_ok [OF assms(1-4), of E] assms(5) by auto
    then have lp: "live_parents (ec_pool s') - {pid} = live_parents (ec_pool s2) - {pid}"
      using p2 s1(2) by (auto simp: routed_def dispatched_def Let_def)
    show ?thesis
      using r True x1 p2 by (intro contained_closed [OF _ _ _ lp, where f = "\<lambda>p. if po_cum_qty_lots p > 0 then PARTIALLY_FILLED else REJECTED"]) auto
  qed
  then show ?thesis using e1 p2 contained_trans [of pid s s2] by simp
qed

end
