(* ===== verification/Core_Exposure.thy ===== *)
theory Core_Exposure
  imports Order_Exposure
begin

text \<open>
  Every handler of the execution core keeps the exposure of each parent within its leaves, provided
  the exchanges keep to their side (\<open>protocol_report\<close>): a report names a live order and a fill is at most
  what that order has open.  Then each report is also one that the accounting can absorb.
\<close>

subsection \<open>Routing again\<close>

lemma mod_instr_pool: "mod_instr i f s = Some s' \<Longrightarrow> ec_pool s' = ec_pool s"
  by (auto simp: mod_instr_def split: if_splits)

text \<open>The clamp of a reduce-only parent touches its own quantities only, and never raises them.\<close>

lemma shrink_records:
  assumes "shrink_reduce_only pid s = Some (fin, u)"
  shows "children (ec_pool u) = children (ec_pool s)" and "q \<noteq> pid \<Longrightarrow> parents (ec_pool u) q = parents (ec_pool s) q"
    and "child_ids (the_parent pid u) = child_ids (the_parent pid s)"
    and "po_leaves_qty_lots (the_parent pid u) \<le> po_leaves_qty_lots (the_parent pid s)"
    and "fin \<Longrightarrow> po_leaves_qty_lots (the_parent pid u) = 0"
proof -
  define q where "q = clamp_reduce_only (ec_pos s) (po_instr_id (the_parent pid s)) (po_dir (the_parent pid s)) (po_leaves_qty_lots (the_parent pid s)) True"
  let ?same = "\<lambda>t u. children (ec_pool u) = children (ec_pool t) \<and> (\<forall>q. q \<noteq> pid \<longrightarrow> parents (ec_pool u) q = parents (ec_pool t) q) \<and>
    child_ids (the_parent pid u) = child_ids (the_parent pid t) \<and> po_leaves_qty_lots (the_parent pid u) \<le> po_leaves_qty_lots (the_parent pid t)"
  have "?same s u \<and> (fin \<longrightarrow> po_leaves_qty_lots (the_parent pid u) = 0)"
  proof (cases "po_reduce_only (the_parent pid s)")
    case False
    then show ?thesis using assms by (simp add: shrink_reduce_only_def)
  next
    case True
    then obtain t where t: "(if q < po_leaves_qty_lots (the_parent pid s) then Option.bind (mod_instr (po_instr_id (the_parent pid s))
        (release_open (po_dir (the_parent pid s)) (po_leaves_qty_lots (the_parent pid s) - q)) s)
       (\<lambda>s'. Some (mod_parent pid (\<lambda>p. p\<lparr>po_total_qty_lots := po_total_qty_lots p - (po_leaves_qty_lots (the_parent pid s) - q), po_leaves_qty_lots := q\<rparr>) s'))
        else Some s) = Some t"
      and r: "(if po_leaves_qty_lots (the_parent pid t) = 0 then Option.bind (release_parent pid
         (mod_parent pid (\<lambda>p. p\<lparr>po_state := (if po_cum_qty_lots p > 0 then FILLED else REJECTED)\<rparr>) t)) (\<lambda>s. Some (True, s))
        else Some (False, t)) = Some (fin, u)"
      using assms by (auto simp: shrink_reduce_only_def Let_def q_def elim!: bind_eq_SomeE cong: if_cong)
    have "?same s t" using t
      by (auto simp: the_parent_def elim!: bind_eq_SomeE dest!: mod_instr_pool split: if_splits intro: child_ids_cong)
    moreover have "?same t u \<and> (fin \<longrightarrow> po_leaves_qty_lots (the_parent pid u) = 0)" using r
      by (auto simp: the_parent_def elim!: bind_eq_SomeE dest!: release_parent_records split: if_splits intro: child_ids_cong)
    ultimately show ?thesis by auto
  qed
  then show "children (ec_pool u) = children (ec_pool s)" and "q \<noteq> pid \<Longrightarrow> parents (ec_pool u) q = parents (ec_pool s) q"
    and "child_ids (the_parent pid u) = child_ids (the_parent pid s)"
    and "po_leaves_qty_lots (the_parent pid u) \<le> po_leaves_qty_lots (the_parent pid s)"
    and "fin \<Longrightarrow> po_leaves_qty_lots (the_parent pid u) = 0" for q by simp_all
qed

lemma uniform_reference:
  assumes "uniform_lots l s" and "i < 64" and "ctx_reference_lot_size c = lot_size (cfg_instruments (ec_cfg s)) i"
  shows "resolve_reference_lot_size c = Some (Fin l)"
  using assms lot_unit_pos [of l] by (simp add: resolve_reference_lot_size_def uniform_lots_def zero_double_def)

lemma route_rest_contained:
  assumes "slots_used pid 0 s" and "qty_ok (the_parent pid s)" and "route_rest E pid ctx s = Some s'"
    and "ctx_states ctx = ec_states s" and "ctx_active_exchanges ctx = cfg_active_exchanges (ec_cfg s)"
    and "ctx_target_lots ctx = po_leaves_qty_lots (the_parent pid s)" and "resolve_reference_lot_size ctx = Some (Fin l)"
    and "uniform_lots l s" and "po_leaves_qty_lots (the_parent pid s) \<le> 2 ^ 50"
  shows "contained pid s s'"
proof -
  have pos: "0 < ctx_target_lots ctx" using assms(2,6) by (simp add: qty_ok_def)
  have sh: "router_shape (ec_sor s) (ctx_states ctx) (ctx_active_exchanges ctx)"
    using assms(1,4,5) by (simp add: slots_used_def core_focus_def config_ok_def)
  obtain res buf where r: "calculate_optimal_split (env_exp E) (ec_sor s) ctx [] = Some (res, buf)"
    "list_all (\<lambda>co. co_exchange_id co < length (ec_states s)) buf"
    using router_returns [OF sh pos] assms(4) by metis
  have b: "budgeted l (po_leaves_qty_lots (the_parent pid s)) buf"
    using split_budgeted [OF r(1) assms(7)] assms(4,6,8) by (simp add: uniform_lots_def list_all_iff)
  show ?thesis
  proof (cases "buf = []")
    case True
    have "rerouted pid s s'" using route_rest_ok [OF assms(1,2,4,5) pos, of E] assms(3) by auto
    then have lp: "live_parents (ec_pool s') - {pid} = live_parents (ec_pool s) - {pid}" by (auto simp: rerouted_def Let_def)
    have "exposed_ok pid (ec_pool s)"
      using slots_used_no_ids [OF assms(1)] assms(2,9) by (simp add: exposed_ok_def exposure_def children_qty_def the_parent_def qty_ok_def)
    then show ?thesis using assms(3) r(1) True
      by (intro contained_closed [OF _ _ _ lp, where f = "\<lambda>p. if po_cum_qty_lots p > 0 then PARTIALLY_FILLED else REJECTED"])
        (auto simp: route_rest_def Let_def)
  next
    case False
    let ?t = "mod_parent pid (\<lambda>p. p\<lparr>po_state := PENDING_NEW\<rparr>) s"
    have "core_focus pid ?t" using assms(1) by (intro core_focus_parent) (simp_all add: slots_used_def)
    then have t: "slots_used pid 0 ?t" "qty_ok (the_parent pid ?t)"
      using assms(1,2) by (simp_all add: slots_used_def has_child_def qty_ok_def)
    have "ctx_states ctx \<noteq> []" using sh by (simp add: router_shape_def)
    then have "contained pid ?t s'"
      using r b assms(3,8,9) False by (intro dispatch_contained [OF t, of ctx buf E s' l]) (auto simp: route_rest_def uniform_lots_def)
    then show ?thesis by (simp add: contained_def)
  qed
qed

lemma reroute_contained:
  assumes "core_focus pid s" and "qty_ok (the_parent pid s)" and "all_children_terminal (the_parent pid s) s"
    and "reroute_leaves E pid s = Some s'" and "uniform_lots l s" and "po_leaves_qty_lots (the_parent pid s) \<le> 2 ^ 50"
  shows "contained pid s s'"
proof -
  let ?p = "the_parent pid s" and ?clear = "\<lambda>p. p\<lparr>po_child_count := 0, po_child_mask := 0\<rparr>"
  obtain t fin u where t: "release_children (filter (\<lambda>cid. terminal_state (ch_state (the_child cid s))) (child_ids ?p))
      (s\<lparr>ec_clock_reads := ec_clock_reads s + 1\<rparr>) = Some t"
    and sh: "shrink_reduce_only pid (mod_parent pid ?clear t) = Some (fin, u)"
    and u: "env_same s u" "if fin then core_ok u \<and> live_parents (ec_pool u) = live_parents (ec_pool s) - {pid} \<and> po_reduce_only ?p
       else slots_used pid 0 u \<and> qty_ok (the_parent pid u) \<and> live_parents (ec_pool u) = live_parents (ec_pool s) \<and>
         same_identity ?p (the_parent pid u)"
    using reroute_prepared [OF assms(1-3)] by blast
  obtain c where c: "reroute_leaves E pid s = (if fin then Some u else route_rest E pid c u)"
    "ctx_states c = ec_states s" "ctx_active_exchanges c = cfg_active_exchanges (ec_cfg s)"
    "ctx_reference_lot_size c = lot_size (cfg_instruments (ec_cfg s)) (po_instr_id ?p)"
    "ctx_target_lots c = po_leaves_qty_lots (the_parent pid (if po_reduce_only (the_parent pid u) then u else s))"
    using reroute_leaves_run [OF assms(1-3) t sh, of E] by blast
  have pt: "parents (ec_pool t) = parents (ec_pool s)" "children (ec_pool t) = children (ec_pool s)" "live_parents (ec_pool t) = live_parents (ec_pool s)"
    using t by (auto simp: release_children_def elim!: bind_eq_SomeE dest: free_all_child_frame)
  note rec = shrink_records [OF sh]
  have ids: "child_ids (the_parent pid u) = []" using rec(3) by simp
  have le: "po_leaves_qty_lots (the_parent pid u) \<le> po_leaves_qty_lots ?p" using rec(4) pt(1) by (simp add: the_parent_def)
  have un: "untouched pid (ec_pool s) (ec_pool u)"
    using rec(1,2) pt u(2) by (cases fin) (auto simp: untouched_def)
  show ?thesis
  proof (cases fin)
    case True
    then show ?thesis using True rec(5) c(1) assms(4) un ids by (simp add: contained_def exposed_ok_def exposure_def children_qty_def the_parent_def)
  next
    case False
    have v: "slots_used pid 0 u" "qty_ok (the_parent pid u)" "same_identity ?p (the_parent pid u)" using u(2) False by simp_all
    have i: "po_instr_id ?p < 64" using assms(2) by (simp add: qty_ok_def)
    have "ctx_target_lots c = po_leaves_qty_lots (the_parent pid u)"
      using c(5) sh pt(1) v(3) by (auto simp: shrink_reduce_only_def same_identity_def the_parent_def)
    moreover have "ec_cfg u = ec_cfg s" using u(1) by (simp add: env_same_def)
    ultimately have "contained pid u s'"
      using c False assms(4,6) le uniform_reference [OF assms(5) i c(4)] uniform_lots_cong [of u s l] assms(5)
      by (intro route_rest_contained [OF v(1,2), of E c s' l]) simp_all
    then show ?thesis using contained_trans [OF un] by blast
  qed
qed

subsection \<open>Reports\<close>

text \<open>What an exchange guarantees of its reports: they name a live order; a fill is positive and at most
  what the order still has open there; an acknowledgement is for an order that is still open.\<close>

definition protocol_report :: "ExecutionReport \<Rightarrow> ExecutionCore \<Rightarrow> bool" where
  "protocol_report rep s \<longleftrightarrow> kMaxTotalChildren \<le> rep_child_id rep \<or>
     (let c = the_child (rep_child_id rep) s
      in rep_child_id rep \<in> live_children (ec_pool s) \<and>
         (is_fill rep \<longrightarrow> working (ch_state c) \<and> 0 < rep_fill_qty_lots rep \<and> rep_fill_qty_lots rep \<le> ch_leaves_qty_lots c) \<and>
         (rep_exec_type rep = ET_NEW \<longrightarrow> working (ch_state c)))"

text \<open>One child of a family is rewritten; its open lots shrink by \<open>d\<close>.\<close>

lemma exposure_rewrite:
  assumes "cid \<in> set (child_ids (parents P pid))" and "distinct (child_ids (parents P pid))"
    and "child_ids (parents Q pid) = child_ids (parents P pid)"
    and "\<And>x. x \<noteq> cid \<Longrightarrow> children Q x = children P x" and "open_part (children Q cid) = open_part (children P cid) - d"
  shows "exposure pid Q = exposure pid P - d"
proof -
  have "(\<Sum>x\<leftarrow>remove1 cid (child_ids (parents P pid)). open_part (children Q x)) =
      (\<Sum>x\<leftarrow>remove1 cid (child_ids (parents P pid)). open_part (children P x))"
    using assms(2,4) by (intro arg_cong [of _ _ sum_list] map_cong) auto
  then show ?thesis using exposure_remove [OF assms(1,2)] exposure_remove [of cid Q pid] assms(1,2,3,5) by simp
qed

lemma child_below_exposure:
  assumes "children_qty pid P" and "cid \<in> set (child_ids (parents P pid))" and "distinct (child_ids (parents P pid))"
  shows "open_part (children P cid) \<le> exposure pid P"
    and "exposure pid P \<le> open_part (children P cid) \<Longrightarrow> x \<in> set (child_ids (parents P pid)) \<Longrightarrow> x \<noteq> cid \<Longrightarrow> \<not> working (ch_state (children P x))"
proof -
  let ?rest = "map (\<lambda>x. open_part (children P x)) (remove1 cid (child_ids (parents P pid)))"
  have nn: "0 \<le> y" if "y \<in> set ?rest" for y
    using that assms(1,3) open_part_nonneg by (auto simp: children_qty_def)
  note e = exposure_remove [OF assms(2,3)]
  show "open_part (children P cid) \<le> exposure pid P" using e sum_list_nonneg [of ?rest] nn by auto
  assume "exposure pid P \<le> open_part (children P cid)" and x: "x \<in> set (child_ids (parents P pid))" "x \<noteq> cid"
  then have "sum_list ?rest \<le> 0" using e by simp
  then have "sum_list ?rest = 0" using sum_list_nonneg [of ?rest] nn by auto
  then have "\<forall>y\<in>set ?rest. y = 0" using sum_list_nonneg_eq_0_iff [of ?rest] nn by blast
  then have "open_part (children P x) = 0" using x assms(3) by auto
  then show "\<not> working (ch_state (children P x))" using assms(1) x(1) by (auto simp: children_qty_def child_qty_ok_def open_part_def)
qed

text \<open>The state the exposure lemmas start from.\<close>

definition exposed_core :: "rat \<Rightarrow> ExecutionCore \<Rightarrow> bool" where
  "exposed_core l s \<longleftrightarrow> core_ok s \<and> uniform_lots l s \<and> all_exposed (ec_pool s)"

lemma exposed_coreD:
  assumes "exposed_core l s" and "cid \<in> live_children (ec_pool s)" and "pid = ch_parent_id (the_child cid s)"
  shows "exposed_ok pid (ec_pool s)" and "cid \<in> set (child_ids (parents (ec_pool s) pid))" and "distinct (child_ids (parents (ec_pool s) pid))"
    and "ch_exchange_id (the_child cid s) < length (ec_states s)" and "po_instr_id (the_parent pid s) < 64"
proof -
  have ok: "core_ok s" using assms(1) by (simp add: exposed_core_def)
  note fam = live_child_family [OF ok assms(2,3)]
  show "exposed_ok pid (ec_pool s)" using assms(1) fam(8) by (simp add: exposed_core_def all_exposed_def)
  show "cid \<in> set (child_ids (parents (ec_pool s) pid))" using fam(3) by (simp add: the_parent_def)
  show "distinct (child_ids (parents (ec_pool s) pid))" using fam(1) by (simp add: core_focus_def focus_def linked_def)
  show "ch_exchange_id (the_child cid s) < length (ec_states s)" by (rule fam(5))
  show "po_instr_id (the_parent pid s) < 64" using fam(2) by (simp add: qty_ok_def)
qed

lemma uniform_canonical:
  assumes "uniform_lots l s" and "ex < length (ec_states s)" and "i < 64" and "\<bar>q\<bar> \<le> 2 ^ 50"
  shows "to_canonical_lots ex i q s = Some q"
proof -
  have "nb_lot_size (es_book (ec_states s ! ex)) = Fin l" "lot_size (cfg_instruments (ec_cfg s)) i = Fin l" "2 powi (-500) \<le> l" "l \<le> 2 ^ 500"
    using assms(1-3) by (auto simp: uniform_lots_def lot_unit_def list_all_length)
  then show ?thesis using scale_unscale_round [OF assms(4)] assms(2) by (simp add: to_canonical_lots_def Let_def)
qed

text \<open>A fill that an exchange may report is one that the accounting can absorb.\<close>

lemma protocol_fill:
  assumes "exposed_core l s" and "protocol_report rep s" and "is_fill rep" and "rep_child_id rep < 32768"
  shows "canonical_fill rep s = rep_fill_qty_lots rep" and "fill_ok rep s"
proof -
  define cid where "cid = rep_child_id rep"
  define pid where "pid = ch_parent_id (the_child cid s)"
  let ?c = "the_child cid s" and ?p = "the_parent pid s" and ?f = "rep_fill_qty_lots rep"
  have r: "cid \<in> live_children (ec_pool s)" "working (ch_state ?c)" "0 < ?f" "?f \<le> ch_leaves_qty_lots ?c"
    using assms(2-4) by (auto simp: protocol_report_def Let_def cid_def)
  note d = exposed_coreD [OF assms(1) r(1) pid_def]
  have x: "children_qty pid (ec_pool s)" "exposure pid (ec_pool s) \<le> po_leaves_qty_lots ?p" "po_leaves_qty_lots ?p \<le> 2 ^ 50"
    using d(1) by (simp_all add: exposed_ok_def the_parent_def)
  have o: "open_part (children (ec_pool s) cid) = ch_leaves_qty_lots ?c" using r(2) by (simp add: open_part_def the_child_def)
  have q: "child_qty_ok ?c" using x(1) d(2) by (simp add: children_qty_def the_child_def)
  note b = child_below_exposure [OF x(1) d(2,3), unfolded o]
  have le: "?f \<le> po_leaves_qty_lots ?p" using r(4) b(1) x(2) by simp
  have u: "uniform_lots l s" using assms(1) by (simp add: exposed_core_def)
  show can: "canonical_fill rep s = ?f"
    using uniform_canonical [OF u d(4,5), of ?f] le x(3) r(3) by (simp add: canonical_fill_def cid_def [symmetric] pid_def [symmetric] Let_def)
  have "ch_qty_lots ?c = ch_cum_qty_lots ?c + ?f \<and> (\<forall>x\<in>set (child_ids ?p). x \<noteq> cid \<longrightarrow> \<not> working (ch_state (the_child x s)))"
    if "?f = po_leaves_qty_lots ?p"
  proof -
    have "exposure pid (ec_pool s) \<le> ch_leaves_qty_lots ?c" "ch_leaves_qty_lots ?c = ?f" using that r(4) b(1) x(2) by simp_all
    then show ?thesis using b(2) q r(2) by (auto simp: child_qty_ok_def the_parent_def the_child_def)
  qed
  then show "fill_ok rep s" using can le by (simp add: fill_ok_def cid_def [symmetric] pid_def [symmetric] Let_def)
qed

lemma protocol_report_ok: "exposed_core l s \<Longrightarrow> protocol_report rep s \<Longrightarrow> report_ok rep s"
  using protocol_fill(2) [of l s rep] by (auto simp: report_ok_def protocol_report_def Let_def not_le)

text \<open>Waiting or routing again, and closing, both keep the exposure.\<close>

lemma continue_contained:
  assumes "core_focus pid t" and "qty_ok (the_parent pid t)" and "uniform_lots l t" and "exposed_ok pid (ec_pool t)"
    and "(if all_children_terminal (the_parent pid t) t then reroute_leaves E pid t else Some t) = Some s'"
  shows "contained pid t s'"
proof (cases "all_children_terminal (the_parent pid t) t")
  case True
  have "po_leaves_qty_lots (the_parent pid t) \<le> 2 ^ 50" using assms(4) by (simp add: exposed_ok_def the_parent_def)
  then show ?thesis using reroute_contained [OF assms(1,2) True _ assms(3)] assms(5) True by simp
qed (use assms(4,5) in \<open>simp add: contained_def\<close>)

lemma close_contained:
  assumes "Option.bind (release_children (child_ids (the_parent pid t)) (mod_parent pid (\<lambda>p. p\<lparr>po_state := FILLED\<rparr>) t)) (release_parent pid) = Some s'"
    and "exposed_ok pid (ec_pool t)" and "live_parents (ec_pool s') - {pid} = live_parents (ec_pool t) - {pid}"
  shows "contained pid t s'"
proof -
  let ?t = "mod_parent pid (\<lambda>p. p\<lparr>po_state := FILLED\<rparr>) t"
  have r: "parents (ec_pool s') = parents (ec_pool ?t)" "children (ec_pool s') = children (ec_pool ?t)"
    using assms(1) by (auto simp: release_children_def elim!: bind_eq_SomeE dest!: release_parent_records free_all_child_frame)
  have "untouched pid (ec_pool ?t) (ec_pool s')" using assms(3) by (intro untouched_same [OF r]) simp
  then show ?thesis using exposed_records [OF r] assms(2) by (simp add: contained_def)
qed

text \<open>Booking a fill of at most the child's open lots takes it from the child and from the parent.\<close>

lemma fill_booked_exposed:
  assumes "core_ok s" and "cid \<in> live_children (ec_pool s)" and "pid = ch_parent_id (the_child cid s)" and "fill_booked cid pid rep s t"
    and "canonical_fill rep s = rep_fill_qty_lots rep" and "exposed_ok pid (ec_pool s)" and "working (ch_state (the_child cid s))"
    and "0 < rep_fill_qty_lots rep" and "rep_fill_qty_lots rep \<le> ch_leaves_qty_lots (the_child cid s)"
  shows "untouched pid (ec_pool s) (ec_pool t)" and "exposed_ok pid (ec_pool t)"
    and "po_leaves_qty_lots (the_parent pid t) = po_leaves_qty_lots (the_parent pid s) - rep_fill_qty_lots rep"
proof -
  let ?c = "the_child cid s" and ?p = "the_parent pid s" and ?f = "rep_fill_qty_lots rep"
  note fam = live_child_family [OF assms(1-3)]
  have ids: "cid \<in> set (child_ids (parents (ec_pool s) pid))" "distinct (child_ids (parents (ec_pool s) pid))"
    using fam(1,3) by (simp_all add: the_parent_def core_focus_def focus_def linked_def)
  obtain px ref where pt: "the_parent pid t = fill_parent ?f px ref (rep_recv_ns rep) ?p" using assms(4,5) by (auto simp: fill_booked_def)
  have ct: "\<And>x. the_child x t = (if x = cid then fill_child ?f ?c else the_child x s)"
    and lp: "live_parents (ec_pool t) = live_parents (ec_pool s)" and ot: "\<And>q. q \<noteq> pid \<Longrightarrow> the_parent q t = the_parent q s"
    using assms(4) by (auto simp: fill_booked_def)
  show "untouched pid (ec_pool s) (ec_pool t)"
    using focus_apart(1) [of "length (ec_states s)" "ec_pool s" pid] fam(1,3) lp ot ct
    by (fastforce simp: untouched_def core_focus_def the_parent_def the_child_def)
  have q: "child_qty_ok ?c" using assms(6) ids(1) by (simp add: exposed_ok_def children_qty_def the_child_def)
  have ex: "exposure pid (ec_pool t) = exposure pid (ec_pool s) - ?f"
    using ids pt ct q assms(7)
    by (intro exposure_rewrite [of cid]) (auto simp: the_parent_def the_child_def open_part_def fill_child_def child_qty_ok_def working_def Let_def)
  have "child_qty_ok (fill_child ?f ?c)" using q assms(7-9) by (auto simp: child_qty_ok_def fill_child_def working_def Let_def)
  then have "children_qty pid (ec_pool t)"
    using assms(6) pt ct by (auto simp: exposed_ok_def children_qty_def the_parent_def the_child_def)
  moreover show "po_leaves_qty_lots (the_parent pid t) = po_leaves_qty_lots ?p - ?f" using fam(2) pt by (simp add: qty_ok_def)
  ultimately show "exposed_ok pid (ec_pool t)" using assms(6,8) ex by (simp add: exposed_ok_def the_parent_def)
qed

lemma handle_fill_contained:
  assumes "exposed_core l s" and "protocol_report rep s" and "is_fill rep" and "rep_child_id rep = cid" and "cid < 32768"
    and "pid = ch_parent_id (the_child cid s)" and "handle_fill E cid pid rep s = Some s'"
  shows "contained pid s s'"
proof -
  let ?c = "the_child cid s" and ?p = "the_parent pid s" and ?f = "rep_fill_qty_lots rep"
  have ok: "core_ok s" "uniform_lots l s" using assms(1) by (simp_all add: exposed_core_def)
  have r: "cid \<in> live_children (ec_pool s)" "working (ch_state ?c)" "0 < ?f" "?f \<le> ch_leaves_qty_lots ?c"
    using assms(2-5) by (auto simp: protocol_report_def Let_def)
  have cf: "canonical_fill rep s = ?f" "fill_ok rep s" using protocol_fill [OF assms(1-3)] assms(4,5) by simp_all
  note fam = live_child_family [OF ok(1) r(1) assms(6)]
  obtain t where run: "handle_fill E cid pid rep s = fill_decision E pid t" and bk: "fill_booked cid pid rep s t"
    using handle_fill_books [OF ok(1) r(1) assms(6,4), of E] by blast
  have bt: "core_focus pid t" "env_same s t" "live_parents (ec_pool t) = live_parents (ec_pool s)"
    "\<exists>px ref. the_parent pid t = fill_parent ?f px ref (rep_recv_ns rep) ?p"
    using bk cf(1) by (auto simp: fill_booked_def)
  note x = fill_booked_exposed [OF ok(1) r(1) assms(6) bk cf(1) exposed_coreD(1) [OF assms(1) r(1) assms(6)] r(2-4)]
  have rp: "reported pid s s'" using handle_fill_ok [OF ok(1) r(1) assms(6,4) cf(2), of E] assms(7) by auto
  have "contained pid t s'"
  proof (cases "po_leaves_qty_lots (the_parent pid t) = 0")
    case True
    then show ?thesis using assms(7) run rp bt(3) by (intro close_contained [OF _ x(2)]) (auto simp: fill_decision_def reported_def)
  next
    case False
    let ?t = "mod_parent pid (\<lambda>p. p\<lparr>po_state := PARTIALLY_FILLED\<rparr>) t"
    have "core_focus pid ?t" by (rule core_focus_parent [OF bt(1)]) simp_all
    moreover have "?f \<le> po_leaves_qty_lots ?p" using cf assms(4,6) by (simp add: fill_ok_def Let_def)
    then have "qty_ok (the_parent pid ?t)" using fam(2) bt(4) x(3) False by (auto simp: qty_ok_def)
    moreover have "uniform_lots l ?t" using ok(2) bt(2) by (simp add: uniform_lots_def env_same_def)
    ultimately have "contained pid ?t s'"
      using assms(7) run False x(2) by (intro continue_contained [of pid ?t l E]) (auto simp: fill_decision_def Let_def)
    then show ?thesis by (simp add: contained_def)
  qed
  then show ?thesis using contained_trans [OF x(1)] by blast
qed

lemma handle_cancel_contained:
  assumes "exposed_core l s" and "cid \<in> live_children (ec_pool s)" and "pid = ch_parent_id (the_child cid s)"
    and "handle_cancel_reject E cid pid rep s = Some s'"
  shows "contained pid s s'"
proof -
  let ?c = "the_child cid s" and ?p = "the_parent pid s"
  have ok: "core_ok s" "uniform_lots l s" using assms(1) by (simp_all add: exposed_core_def)
  note d = exposed_coreD [OF assms(1-3)]
  note fam = live_child_family [OF ok(1) assms(2,3)]
  obtain t where run: "handle_cancel_reject E cid pid rep s = (if all_children_terminal (the_parent pid t) t then reroute_leaves E pid t else Some t)"
    and c: "core_focus pid t" and e: "env_same s t" and lp: "live_parents (ec_pool t) = live_parents (ec_pool s)"
    and pt: "the_parent pid t = ?p\<lparr>po_last_update_ns := rep_recv_ns rep\<rparr>" and ot: "\<And>q. q \<noteq> pid \<Longrightarrow> the_parent q t = the_parent q s"
    and ct: "\<And>x. the_child x t = (if x = cid then lost_child rep ?c else the_child x s)"
    using handle_cancel_reject_books [OF ok(1) assms(2,3), of E rep] by (auto simp: loss_booked_def)
  have ids: "child_ids (the_parent pid t) = child_ids ?p" unfolding pt by (rule child_ids_cong) simp_all
  have un: "untouched pid (ec_pool s) (ec_pool t)"
    using focus_apart(1) [of "length (ec_states s)" "ec_pool s" pid] fam(1,3) lp ot ct
    by (fastforce simp: untouched_def core_focus_def the_parent_def the_child_def)
  have lc: "\<not> working (ch_state (lost_child rep ?c))" by (simp add: lost_child_def working_def)
  have ex: "exposure pid (ec_pool t) = exposure pid (ec_pool s) - open_part ?c"
    using d(2,3) ids ct lc by (intro exposure_rewrite [of cid]) (auto simp: the_parent_def the_child_def open_part_def)
  have "child_qty_ok (lost_child rep ?c)" using lc by (simp add: child_qty_ok_def)
  then have "children_qty pid (ec_pool t)"
    using d(1) ids ct by (auto simp: exposed_ok_def children_qty_def the_parent_def the_child_def)
  moreover have "0 \<le> open_part ?c" using d(1,2) open_part_nonneg by (simp add: exposed_ok_def children_qty_def the_child_def)
  moreover have "po_leaves_qty_lots (parents (ec_pool t) pid) = po_leaves_qty_lots (parents (ec_pool s) pid)" using pt by (simp add: the_parent_def)
  ultimately have x: "exposed_ok pid (ec_pool t)" using d(1) ex by (simp add: exposed_ok_def)
  have "qty_ok (the_parent pid t)" "uniform_lots l t" using fam(2) pt ok(2) e by (simp_all add: qty_ok_def uniform_lots_def env_same_def)
  then have "contained pid t s'" using continue_contained [OF c _ _ x, of l E s'] assms(4) run by simp
  then show ?thesis using contained_trans [OF un] by blast
qed

lemma ack_contained:
  assumes "exposed_core l s" and "cid \<in> live_children (ec_pool s)" and "pid = ch_parent_id (the_child cid s)" and "working (ch_state (the_child cid s))"
  shows "contained pid s (mod_child cid (\<lambda>c. c\<lparr>ch_state := PENDING_NEW\<rparr>) s)"
proof -
  let ?g = "\<lambda>c :: ChildOrderState. c\<lparr>ch_state := PENDING_NEW\<rparr>" and ?P = "ec_pool s"
  note d = exposed_coreD [OF assms(1-3)]
  have f: "focus (length (ec_states s)) ?P pid"
    using live_child_family(1) [OF _ assms(2,3)] assms(1) by (simp add: exposed_core_def core_focus_def)
  have w: "working (ch_state (children ?P cid))" using assms(4) by (simp add: the_child_def)
  have "exposure pid (upd_child cid ?g ?P) = exposure pid ?P - 0"
    using d(2,3) w by (intro exposure_rewrite [of cid]) (simp_all add: open_part_def working_def)
  moreover have "children_qty pid (upd_child cid ?g ?P)"
    using d(1) w by (auto simp: exposed_ok_def children_qty_def child_qty_ok_def)
  ultimately have "exposed_ok pid (upd_child cid ?g ?P)" using d(1) by (simp add: exposed_ok_def)
  then show ?thesis using untouched_child [OF f, of cid ?g] d(2) by (simp add: contained_def)
qed

lemma on_execution_report_exposed:
  assumes "exposed_core l s" and "protocol_report rep s" and "on_execution_report E rep s = Some s'"
  shows "exposed_core l s'"
proof -
  have ok: "core_ok s" using assms(1) by (simp add: exposed_core_def)
  have r: "core_ok s'" "env_same s s'"
    using on_execution_report_ok [OF ok protocol_report_ok [OF assms(1,2)], of E] assms(3) by auto
  define cid where "cid = rep_child_id rep"
  define pid where "pid = ch_parent_id (the_child cid s)"
  have "s' = s \<or> contained pid s s'"
  proof (cases "cid < 32768 \<and> pid < 4096")
    case False
    then show ?thesis using assms(3) by (auto simp: on_execution_report_def Let_def cid_def pid_def split: if_splits)
  next
    case True
    then have live: "cid \<in> live_children (ec_pool s)" using assms(2) by (auto simp: protocol_report_def cid_def Let_def)
    have run: "on_execution_report E rep s = (case rep_exec_type rep of
        ET_PARTIAL \<Rightarrow> handle_fill E cid pid rep s | ET_FILL \<Rightarrow> handle_fill E cid pid rep s
      | ET_CANCELED \<Rightarrow> handle_cancel_reject E cid pid rep s | ET_REJECTED \<Rightarrow> handle_cancel_reject E cid pid rep s
      | ET_NEW \<Rightarrow> Some (mod_child cid (\<lambda>c. c\<lparr>ch_state := PENDING_NEW\<rparr>) s) | ET_REPLACED \<Rightarrow> Some s)"
      using True by (simp add: on_execution_report_def Let_def cid_def pid_def split: ExecType.split)
    note fl = handle_fill_contained [OF assms(1,2) _ cid_def [symmetric] _ pid_def, of E s']
    note ca = handle_cancel_contained [OF assms(1) live pid_def, of E rep s']
    have ack: "rep_exec_type rep = ET_NEW \<Longrightarrow> contained pid s (mod_child cid (\<lambda>c. c\<lparr>ch_state := PENDING_NEW\<rparr>) s)"
      using ack_contained [OF assms(1) live pid_def] assms(2) True by (simp add: protocol_report_def cid_def [symmetric] Let_def)
    show ?thesis using run assms(3) True fl ca ack by (cases "rep_exec_type rep") (auto simp: is_fill_def)
  qed
  then show ?thesis using assms(1) r all_exposed_contained uniform_lots_cong [of s' s l] by (auto simp: exposed_core_def env_same_def)
qed

subsection \<open>New orders\<close>

lemma kill_signal_records:
  assumes "kill_signal E pid sig reason s = Some s'"
  shows "parents (ec_pool s') = (parents (ec_pool s))(pid := (the_parent pid s)\<lparr>po_state := REJECTED\<rparr>) \<and> children (ec_pool s') = children (ec_pool s)"
proof -
  obtain P where P: "free_parent pid (upd_parent pid (\<lambda>p. p\<lparr>po_state := REJECTED\<rparr>) (ec_pool s)) = Some P" "ec_pool s' = P"
    using assms by (auto simp: kill_signal_def notify_reject_sig_def elim!: bind_eq_SomeE)
  then show ?thesis using free_parent_frame(1,2) [OF P(1)] by (auto simp: fun_eq_iff the_parent_def)
qed

lemma kill_signal_contained:
  assumes "slots_used pid 0 s" and "kill_signal E pid sig reason s = Some s'" and "0 \<le> po_leaves_qty_lots (the_parent pid s)"
    and "po_leaves_qty_lots (the_parent pid s) \<le> 2 ^ 50"
  shows "contained pid s s'"
proof -
  have c: "core_focus pid s" and none: "child_ids (the_parent pid s) = []" using assms(1) slots_used_no_ids by (auto simp: slots_used_def)
  have "decided sig pid 0 s s'" using kill_signal_decided [OF c none, of E sig reason 0] assms(2) by auto
  then have "live_parents (ec_pool s') - {pid} = live_parents (ec_pool s) - {pid}" by (auto simp: decided_def)
  then have "untouched pid (ec_pool s) (ec_pool s')" using kill_signal_records [OF assms(2)] by (auto simp: untouched_def)
  moreover have "child_ids (parents (ec_pool s') pid) = []"
    using kill_signal_records [OF assms(2)] none child_ids_cong [of "(the_parent pid s)\<lparr>po_state := REJECTED\<rparr>" "the_parent pid s"] by simp
  ultimately show ?thesis using kill_signal_records [OF assms(2)] assms(3,4)
    by (simp add: contained_def exposed_ok_def exposure_def children_qty_def)
qed

lemma route_signal_contained:
  assumes "slots_used pid 0 s" and "sig_instr_id sig < 64" and "0 < q" and "q \<le> 2 ^ 50" and "uniform_lots l s"
    and "po_instr_id (the_parent pid s) = sig_instr_id sig" and "po_total_qty_lots (the_parent pid s) = q"
    and "po_cum_qty_lots (the_parent pid s) = 0" and "po_leaves_qty_lots (the_parent pid s) = q"
    and "route_signal E pid sig q s = Some s'"
  shows "contained pid s s'"
proof -
  define s0 where "s0 = s\<lparr>ec_clock_reads := ec_clock_reads s + 1\<rparr>"
  have c0: "core_focus pid s0" "config_ok s" using assms(1) by (simp_all add: slots_used_def s0_def core_focus_def)
  let ?t = "mod_parent pid (\<lambda>p. p\<lparr>po_state := PENDING_NEW\<rparr>) s0"
  obtain ctx res buf where r: "(if sig_order_type sig = MAKER then calculate_maker_placement (ec_sor s) ctx []
      else calculate_optimal_split (env_exp E) (ec_sor s) ctx []) = Some (res, buf)"
    "list_all (\<lambda>co. co_exchange_id co < length (ec_states s)) buf"
    and c: "ctx_states ctx = ec_states s" "ctx_states ctx \<noteq> []" "ctx_target_lots ctx = q"
      "ctx_reference_lot_size ctx = lot_size (cfg_instruments (ec_cfg s)) (po_instr_id (the_parent pid s))"
    and run: "route_signal E pid sig q s = (if buf = [] then kill_signal E pid sig NO_LIQUIDITY s0
      else Option.bind (mod_instr (sig_instr_id sig) (reserve_open (sig_dir sig) q) ?t) (dispatch_child_orders E pid buf ctx))"
    using route_signal_run [OF c0(2) assms(3), of sig E pid] s0_def by metis
  have ref: "resolve_reference_lot_size ctx = Some (Fin l)" using uniform_reference [OF assms(5,2), of ctx] c(4) assms(6) by simp
  have mins: "list_all (\<lambda>st. 1 \<le> canonical_min_lots st (Fin l)) (ctx_states ctx)"
    using assms(5) c(1) by (simp add: uniform_lots_def list_all_iff)
  have b: "budgeted l q buf"
    using r(1) split_budgeted [OF _ ref mins, of "env_exp E" "ec_sor s" res buf] maker_budgeted [OF _ ref, of "ec_sor s" res buf] c(3)
    by (auto split: if_splits)
  have u0: "slots_used pid 0 s0" "uniform_lots l s0" using assms(1,5) c0(1) by (simp_all add: slots_used_def s0_def uniform_lots_def)
  have "contained pid s0 s'"
  proof (cases "buf = []")
    case True
    then show ?thesis using run assms(3,4,9,10) by (intro kill_signal_contained [OF u0(1), of E sig NO_LIQUIDITY]) (simp_all add: s0_def)
  next
    case False
    have ct: "core_focus pid ?t" by (rule core_focus_parent [OF c0(1)]) simp_all
    obtain v where v: "mod_instr (sig_instr_id sig) (reserve_open (sig_dir sig) q) ?t = Some v"
      "ec_pool v = ec_pool ?t" "ec_cfg v = ec_cfg ?t" "core_focus pid v"
      using mod_instr_some [OF assms(2), of "reserve_open (sig_dir sig) q" ?t] ct by blast
    have pv: "the_parent pid v = (the_parent pid s)\<lparr>po_state := PENDING_NEW\<rparr>" using v(2) by (simp add: the_parent_def s0_def)
    have w: "slots_used pid 0 v" "qty_ok (the_parent pid v)"
      using assms v(4) pv by (simp_all add: slots_used_def has_child_def qty_ok_def)
    have "ctx_states ctx = ec_states v" using c(1) v(3) by (simp add: s0_def)
    then have "contained pid v s'"
      using run False v(1,3) assms(4,9,10) r(2) b c pv uniform_lots_cong [of v s0 l] u0(2)
      by (intro dispatch_contained [OF w, of ctx buf E s' l]) auto
    then show ?thesis using v(2) by (simp add: contained_def)
  qed
  then show ?thesis by (simp add: contained_def s0_def)
qed

lemma decide_signal_contained:
  assumes "slots_used pid 0 s" and "uniform_lots l s" and "0 \<le> q" and "q \<le> 2 ^ 50" and "po_leaves_qty_lots (the_parent pid s) = 0"
    and "po_cum_qty_lots (the_parent pid s) = 0" and "po_instr_id (the_parent pid s) = sig_instr_id sig"
    and "decide_signal E pid sig q s = Some s'"
  shows "contained pid s s'"
proof (cases "sig_instr_id sig < 64 \<and> q = 0")
  case True
  then show ?thesis using assms(5,8) by (intro kill_signal_contained [OF assms(1), of E sig REDUCE_ONLY_VIOLATION]) (simp_all add: decide_signal_def)
next
  case nz: False
  define rr where rr: "rr = validate (ec_risk s) (ec_pos s) (sig\<lparr>sig_qty_lots := q\<rparr>)"
  obtain limit t where t: "t = mod_parent pid (\<lambda>p. p\<lparr>po_total_qty_lots := q, po_leaves_qty_lots := q, po_limit_price := limit\<rparr>) s"
    and run: "(if rr \<noteq> RR_OK then kill_signal E pid sig (reject_reason_of rr) t else route_signal E pid sig q t) = Some s'"
    using assms(8) nz by (auto simp: decide_signal_def rr Let_def elim!: bind_eq_SomeE split del: if_split cong: if_cong)
  have "core_focus pid t" unfolding t using assms(1) by (intro core_focus_parent) (simp_all add: slots_used_def)
  then have ut: "slots_used pid 0 t" "uniform_lots l t" using assms(1,2) by (simp_all add: slots_used_def t has_child_def uniform_lots_def)
  have "contained pid t s'"
  proof (cases "rr = RR_OK")
    case False
    then show ?thesis using run assms(3,4) by (intro kill_signal_contained [OF ut(1), of E sig "reject_reason_of rr"]) (simp_all add: t)
  next
    case True
    then have i: "sig_instr_id sig < 64" using rr by (auto simp: validate_def split: if_splits)
    then have "0 < q" using nz assms(3) by simp
    then show ?thesis
      using run True assms(4,6,7) i by (intro route_signal_contained [OF ut(1), of sig q l E]) (simp_all add: t uniform_lots_cong [of _ s] assms(2))
  qed
  then show ?thesis by (simp add: contained_def t)
qed

lemma clamp_sig_le: "0 \<le> sig_qty_lots sig \<Longrightarrow> clamp_reduce_only_sig pos sig \<le> sig_qty_lots sig"
  by (auto simp: clamp_reduce_only_sig_def clamp_reduce_only_impl_def Let_def)

lemma on_strategy_order_exposed:
  assumes "exposed_core l s" and "0 \<le> sig_qty_lots sig" and "sig_qty_lots sig \<le> 2 ^ 50" and "on_strategy_order E sig s = Some s'"
  shows "exposed_core l s'"
proof -
  have ok: "core_ok s" "uniform_lots l s" "all_exposed (ec_pool s)" using assms(1) by (simp_all add: exposed_core_def)
  obtain a inp where ap: "approve (ec_gate s) sig (ec_stdin s) = (a, inp)" by fastforce
  obtain r P where al: "alloc_parent (ec_pool s) = (r, P)" by fastforce
  have "all_exposed (ec_pool s')"
  proof (cases "a \<and> r \<noteq> None")
    case False
    have lp: "live_parents P = live_parents (ec_pool s)" if "r = None"
      using alloc_parent_fail(2) [of "length (ec_states s)" "ec_pool s" P] ok(1) al that by (simp add: core_ok_def)
    have "all_exposed P" if "r = None"
      using alloc_parent_frame(1,4) [OF al] ok(3) that exposed_records [of P "ec_pool s"] lp by (simp add: all_exposed_def)
    then show ?thesis using False assms(4) ap al ok(3) by (cases a; cases r) (auto simp: on_strategy_order_def notify_reject_sig_def)
  next
    case True
    then obtain pid where p: "r = Some pid" by auto
    obtain u where run: "on_strategy_order E sig s = decide_signal E pid sig (clamp_reduce_only_sig (ec_pos s) sig) u" and pl: "placed sig pid s u"
      using placed_run [OF ok(1), of sig inp pid P E] ap al p True by auto
    have w: "slots_used pid 0 u" "po_leaves_qty_lots (the_parent pid u) = 0" "po_cum_qty_lots (the_parent pid u) = 0"
      "po_instr_id (the_parent pid u) = sig_instr_id sig" "env_same s u"
      using pl by (simp_all add: placed_def Let_def)
    have un: "untouched pid (ec_pool s) (ec_pool u)" using pl by (auto simp: untouched_def placed_def the_parent_def)
    have "uniform_lots l u" using ok(2) w(5) by (simp add: uniform_lots_def env_same_def)
    then have "contained pid u s'"
      using run assms(2,3,4) clamp_sig_nonneg clamp_sig_le [OF assms(2), of "ec_pos s"] w
      by (intro decide_signal_contained [of pid u l "clamp_reduce_only_sig (ec_pos s) sig" sig E]) simp_all
    then show ?thesis using contained_trans [OF un] all_exposed_contained [OF ok(3)] by blast
  qed
  moreover have "answered sig s s'" using on_strategy_order_ok [OF ok(1) assms(2), of E] assms(4) by auto
  ultimately show ?thesis using ok(2) uniform_lots_cong [of s' s l] by (simp add: exposed_core_def answered_def env_same_def)
qed

end
