(* ===== verification/Core_Market.thy ===== *)
theory Core_Market
  imports Core_Exposure
begin

text \<open>
  The core against exchanges that follow the protocol.  \<open>market_step\<close> is what can happen then; every
  such step is a step of \<open>core_step\<close>, and the exposure bound is an invariant.
\<close>

subsection \<open>Timeouts and reachable states\<close>

lemma on_timeout_exposed:
  assumes "exposed_core l s" and "cid \<in> live_children (ec_pool s) \<or> \<not> working (ch_state (children (ec_pool s) cid))"
    and "on_timeout E cid s = Some s'"
  shows "exposed_core l s'"
proof (cases "cid < 32768 \<and> working (ch_state (the_child cid s))")
  case False
  then show ?thesis using assms(1,3) by (auto simp: on_timeout_def working_def Let_def split: if_splits)
next
  case True
  then have "protocol_report (timeout_report cid (the_child cid s)) s"
    using assms(2) by (auto simp: protocol_report_def timeout_report_def is_fill_def the_child_def Let_def)
  from on_execution_report_exposed [OF assms(1) this, of E s'] show ?thesis
    using True assms(3) by (auto simp: on_timeout_def working_def Let_def)
qed

lemma uniform_put_timer [simp]: "uniform_lots l (put_timer w s) = uniform_lots l s"
  by (simp add: uniform_lots_def)

interpretation exposed_timer: timer_client ec_timer put_timer "on_timeout E" "exposed_core l" for E l
proof (unfold_locales, goal_cases)
  case (1 w s) then show ?case by simp
next
  case (2 s c) then show ?case by (simp add: exposed_core_def core_ok_def timers_ok_def)
next
  case (3 s slot i)
  let ?cid = "te_child_id (wheel (ec_timer s) slot i)" and ?s = "put_timer (deactivate slot i (ec_timer s)) s"
  have k: "core_ok ?s" "?cid \<in> live_children (ec_pool ?s) \<or> \<not> working (ch_state (children (ec_pool ?s) ?cid))"
    using fired_ok [of s slot i] 3 by (simp_all add: exposed_core_def)
  have x: "exposed_core l ?s" using 3(1) k(1) by (simp add: exposed_core_def)
  obtain s' where s': "on_timeout E ?cid ?s = Some s'" "env_same ?s s'" using on_timeout_ok [OF k] by blast
  then show ?case using on_timeout_exposed [OF x k(2) s'(1)] by (simp add: env_same_def)
qed

text \<open>Everything that can happen to the core when the exchanges keep to their side: orders of up to
  \<open>2 ^ 50\<close> lots, protocol reports, ticks, new books of the same lot size, and calls from other threads.\<close>

inductive market_step :: "Env \<Rightarrow> rat \<Rightarrow> ExecutionCore \<Rightarrow> ExecutionCore \<Rightarrow> bool" for E l where
  order: "0 \<le> sig_qty_lots sig \<Longrightarrow> sig_qty_lots sig \<le> 2 ^ 50 \<Longrightarrow> on_strategy_order E sig s = Some s' \<Longrightarrow> market_step E l s s'"
| report: "protocol_report rep s \<Longrightarrow> on_execution_report E rep s = Some s' \<Longrightarrow> market_step E l s s'"
| timers: "0 < unat (tw_tick_ns (ec_timer s)) \<Longrightarrow> unat now + unat (tw_tick_ns (ec_timer s)) < 2 ^ 64 \<Longrightarrow>
    tw_now_ns (ec_timer s) \<le> now \<Longrightarrow> tw_tick ec_timer put_timer (on_timeout E) now s = Some s' \<Longrightarrow> market_step E l s s'"
| feed: "router_shape (ec_sor s) sts (cfg_active_exchanges (ec_cfg s)) \<Longrightarrow> length sts = length (ec_states s) \<Longrightarrow>
    list_all (\<lambda>st. nb_lot_size (es_book st) = Fin l \<and> 1 \<le> canonical_min_lots st (Fin l)) sts \<Longrightarrow>
    market_step E l s (s\<lparr>ec_cfg := (ec_cfg s)\<lparr>cfg_exchange_states := sts\<rparr>\<rparr>)"
| mark: "core_on_mark_price price lot i s = Some s' \<Longrightarrow> market_step E l s s'"
| rest: "market_step E l s (on_rest_margin equity used ts s)"
| snapshot: "market_step E l s (on_book_snapshot ex vol imb mid ts s)"
| unwind: "market_step E l s (set_unwind_mode i enabled s)"
| stop: "market_step E l s (core_stop s)"

inductive_cases market_stepE: "market_step E l s s'"

lemma market_step_core:
  assumes "market_step E l s s'" and "exposed_core l s"
  shows "core_step E s s'"
  using assms(1)
proof cases
  case (report rep)
  then show ?thesis using core_step.report [OF protocol_report_ok [OF assms(2)]] by blast
qed (auto intro: core_step.intros)

lemma market_step_exposed:
  assumes "market_step E l s s'" and "exposed_core l s"
  shows "exposed_core l s'"
proof -
  have ok: "core_ok s'" using core_step_ok [OF market_step_core [OF assms]] assms(2) by (simp add: exposed_core_def)
  show ?thesis
    using assms(1)
  proof cases
    case (order sig)
    then show ?thesis using on_strategy_order_exposed [OF assms(2)] by blast
  next
    case (report rep)
    then show ?thesis using on_execution_report_exposed [OF assms(2)] by blast
  next
    case (timers now)
    then show ?thesis using exposed_timer.tick_returns [OF assms(2), of now E] by auto
  next
    case (feed sts)
    then show ?thesis using assms(2) ok by (simp add: exposed_core_def uniform_lots_def)
  next
    case (mark price lot i)
    then show ?thesis using assms(2) ok
      by (auto simp: core_on_mark_price_def exposed_core_def uniform_lots_def elim!: bind_eq_SomeE)
  qed (use assms(2) ok in \<open>auto simp: exposed_core_def uniform_lots_def on_rest_margin_def core_margin_def on_book_snapshot_def
    set_unwind_mode_def core_stop_def split: prod.splits\<close>)
qed

lemma market_reach_exposed:
  assumes "(market_step E l)\<^sup>*\<^sup>* s s'" and "exposed_core l s"
  shows "exposed_core l s'" and "(core_step E)\<^sup>*\<^sup>* s s'"
  using assms
proof (induction rule: rtranclp_induct)
  case (step t u)
  { case 1 then show ?case using step market_step_exposed by blast }
  { case 2 then show ?case using step market_step_core by (meson rtranclp.rtrancl_into_rtrancl) }
qed simp_all

lemma core_init_exposed:
  assumes "router_shape \<lparr>eng_fees = cfg_fees cfg\<rparr> (cfg_exchange_states cfg) (cfg_active_exchanges cfg)"
    and "uniform_lots l (core_init E cfg wired inp)"
  shows "exposed_core l (core_init E cfg wired inp)"
  using core_init_ok [OF assms(1)] assms(2)
  by (simp add: exposed_core_def all_exposed_def core_init_def margin_monitor_init_def now_ns_def pool_init_live)

end
