(* ===== verification/Core_Dispatch.thy ===== *)
theory Core_Dispatch
  imports Core_Market
begin

text \<open>
  From an accepted signal to the messages for the exchanges.  When the pool, the sixteen child slots
  and the queues of the gateways have room, every order of the router becomes one working child and
  one message in the queue of its exchange, with the same identity, price and quantity.
\<close>

subsection \<open>The gateways\<close>

definition gw_orders :: "nat \<Rightarrow> ExecutionCore \<Rightarrow> OutboundOrder list" where
  "gw_orders ex s = (case ec_gateways s ex of None \<Rightarrow> [] | Some q \<Rightarrow> spsc_contents GatewayQueueN q)"

definition gw_room :: "nat \<Rightarrow> ExecutionCore \<Rightarrow> bool" where
  "gw_room n s \<longleftrightarrow> (\<forall>ex<kMaxExchanges. \<exists>q. ec_gateways s ex = Some q \<and> spsc_inv GatewayQueueN q \<and>
     length (spsc_contents GatewayQueueN q) + n \<le> 511)"

text \<open>The message that announces a child.\<close>

definition order_of :: "nat \<Rightarrow> ChildOrderState \<Rightarrow> OutboundOrder" where
  "order_of instr c = \<lparr>out_child_id = ch_child_id c, out_price = ch_price c, out_qty_lots = ch_qty_lots c, out_dir = ch_dir c,
     out_order_type = ch_order_type c, out_exchange_id = ch_exchange_id c, out_instr_id = instr\<rparr>"

lemma gw_cong: "ec_gateways t = ec_gateways s \<Longrightarrow> gw_orders ex t = gw_orders ex s" "ec_gateways t = ec_gateways s \<Longrightarrow> gw_room n t = gw_room n s"
  by (simp_all add: gw_orders_def gw_room_def)

lemma push_gateway_orders:
  assumes "gw_room (Suc n) s" and "ex < 5"
  shows "gw_room n (push_gateway ex out s)"
    and "gw_orders ex' (push_gateway ex out s) = gw_orders ex' s @ (if ex' = ex then [out] else [])"
proof -
  obtain q where q: "ec_gateways s ex = Some q" "spsc_inv GatewayQueueN q" "length (spsc_contents GatewayQueueN q) + Suc n \<le> 511"
    using assms by (auto simp: gw_room_def)
  let ?q = "snd (spsc_push GatewayQueueN q out)"
  have p: "spsc_inv GatewayQueueN ?q" "spsc_contents GatewayQueueN ?q = spsc_contents GatewayQueueN q @ [out]"
    using gateway_q.invar_push [OF q(2)] gateway_q.push_contents [OF q(2)] q(3) by simp_all
  have n: "length (spsc_contents GatewayQueueN ?q) = Suc (length (spsc_contents GatewayQueueN q))" unfolding p(2) by simp
  have g: "ec_gateways (push_gateway ex out s) = (ec_gateways s)(ex := Some ?q)" using q(1) assms(2) by (simp add: push_gateway_def)
  show "gw_room n (push_gateway ex out s)" unfolding gw_room_def
  proof (intro allI impI)
    fix e :: nat assume "e < kMaxExchanges"
    then obtain r where "ec_gateways s e = Some r" "spsc_inv GatewayQueueN r" "length (spsc_contents GatewayQueueN r) + Suc n \<le> 511"
      using assms(1) by (auto simp: gw_room_def)
    then show "\<exists>r. ec_gateways (push_gateway ex out s) e = Some r \<and> spsc_inv GatewayQueueN r \<and>
        length (spsc_contents GatewayQueueN r) + n \<le> 511"
      using p(1) n q(3) by (cases "e = ex") (simp_all add: g)
  qed
  show "gw_orders ex' (push_gateway ex out s) = gw_orders ex' s @ (if ex' = ex then [out] else [])"
    using p(2) q(1) by (simp add: gw_orders_def g)
qed

lemma new_child_labels [simp]:
  "ch_dir (new_child p ts d st co c) = d" "ch_order_type (new_child p ts d st co c) = co_type co"
  by (simp_all add: new_child_def Let_def)

lemma add_child_labels [simp]: "po_instr_id (add_child i cid p) = po_instr_id p" "po_parent_id (add_child i cid p) = po_parent_id p"
  by (simp_all add: add_child_def)

lemma dispatch_one_sends:
  assumes "slots_used pid i s" and "alloc_child (ec_pool s) = (Some cid, P)"
    and "dispatch_one pid ts ctx i co cid (s\<lparr>ec_pool := P\<rparr>) = Some s'"
  shows "\<exists>t. s' = push_gateway (co_exchange_id co) (order_of (po_instr_id (the_parent pid s)) (the_child cid s')) t \<and> ec_gateways t = ec_gateways s"
    and "live_children (ec_pool s') = insert cid (live_children (ec_pool s))" and "cid \<notin> live_children (ec_pool s)"
proof -
  note fr = alloc_child_frame [OF assms(2)]
  have inv: "children_inv (ec_pool s)" using assms(1) by (simp add: slots_used_def core_focus_def focus_def pool_inv_def)
  note a = child_pool.alloc_fresh [OF inv assms(2)]
  show "cid \<notin> live_children (ec_pool s)" using a by simp
  obtain st where st: "nth_opt (ec_states s) (co_exchange_id co) = Some st" "i < 16"
    using assms(3) by (auto simp: dispatch_one_def assert_opt_def Let_def elim!: bind_eq_SomeE split: if_splits)
  let ?g = "new_child (po_parent_id (parents P pid)) ts (ctx_dir ctx) st co"
  let ?Q = "upd_parent pid (add_child i cid) (upd_child cid ?g P)"
  let ?w = "snd (tw_insert cid ts (if co_type co = MAKER then cfg_maker_timeout_ns (ec_cfg s) else cfg_child_timeout_ns (ec_cfg s)) (ec_timer s))"
  define t where "t = s\<lparr>ec_pool := ?Q, ec_timer := ?w\<rparr>"
  have c: "children ?Q cid = ?g (zero_child\<lparr>ch_child_id := cid\<rparr>)" "po_instr_id (parents ?Q pid) = po_instr_id (parents (ec_pool s) pid)"
    using fr by (simp_all add: add_child_def)
  have id: "ch_child_id (children P cid) = cid" using fr(5) by simp
  have s': "s' = push_gateway (co_exchange_id co) (order_of (po_instr_id (the_parent pid s)) (children ?Q cid)) t"
    using assms(3) st fr(1) unfolding t_def
    by (auto simp: dispatch_one_def Let_def mod_child_def mod_parent_def the_parent_def the_child_def order_of_def id)
  show "live_children (ec_pool s') = insert cid (live_children (ec_pool s))" using a by (simp add: s' t_def)
  have "the_child cid s' = children ?Q cid" by (simp add: s' t_def the_child_def)
  then show "\<exists>t. s' = push_gateway (co_exchange_id co) (order_of (po_instr_id (the_parent pid s)) (the_child cid s')) t \<and> ec_gateways t = ec_gateways s"
    using s' by (intro exI [of _ t]) (simp add: t_def)
qed

subsection \<open>Dispatch with room\<close>

text \<open>The children \<open>ids\<close> made from \<open>orders\<close>, and their messages.\<close>

definition sent_out :: "nat \<Rightarrow> u64 \<Rightarrow> OrderDir \<Rightarrow> ChildOrder list \<Rightarrow> nat list \<Rightarrow> ExecutionCore \<Rightarrow> ExecutionCore \<Rightarrow> bool" where
  "sent_out pid ts dir orders ids s s' \<longleftrightarrow> length ids = length orders \<and> gw_room 0 s' \<and>
     child_ids (the_parent pid s') = child_ids (the_parent pid s) @ ids \<and>
     (\<forall>k<length orders. the_child (ids ! k) s' =
        new_child pid ts dir (ec_states s ! co_exchange_id (orders ! k)) (orders ! k) (zero_child\<lparr>ch_child_id := ids ! k\<rparr>)) \<and>
     (\<forall>ex. gw_orders ex s' = gw_orders ex s @
        map (\<lambda>cid. order_of (po_instr_id (the_parent pid s)) (the_child cid s')) (filter (\<lambda>cid. ch_exchange_id (the_child cid s') = ex) ids)) \<and>
     live_children (ec_pool s') = live_children (ec_pool s) \<union> set ids \<and> distinct ids \<and> set ids \<inter> live_children (ec_pool s) = {} \<and>
     (\<forall>x\<in>live_children (ec_pool s). the_child x s' = the_child x s)"

lemma sent_out_Nil [simp]: "sent_out pid ts dir [] ids s s \<longleftrightarrow> ids = [] \<and> gw_room 0 s"
  by (auto simp: sent_out_def)

lemma sent_out_Cons:
  assumes "the_child cid t = new_child pid ts dir (ec_states s ! co_exchange_id co) co (zero_child\<lparr>ch_child_id := cid\<rparr>)"
    and "child_ids (the_parent pid t) = child_ids (the_parent pid s) @ [cid]"
    and "\<And>ex. gw_orders ex t = gw_orders ex s @ (if ex = co_exchange_id co then [order_of (po_instr_id (the_parent pid s)) (the_child cid t)] else [])"
    and "live_children (ec_pool t) = insert cid (live_children (ec_pool s))" and "cid \<notin> live_children (ec_pool s)"
    and "\<And>x. x \<in> live_children (ec_pool s) \<Longrightarrow> the_child x t = the_child x s" and "ec_cfg t = ec_cfg s"
    and "po_instr_id (the_parent pid t) = po_instr_id (the_parent pid s)" and "sent_out pid ts dir orders ids t s'"
  shows "sent_out pid ts dir (co # orders) (cid # ids) s s'"
proof -
  have r: "length ids = length orders" "child_ids (the_parent pid s') = child_ids (the_parent pid t) @ ids"
    "\<And>k. k < length orders \<Longrightarrow> the_child (ids ! k) s' =
      new_child pid ts dir (ec_states t ! co_exchange_id (orders ! k)) (orders ! k) (zero_child\<lparr>ch_child_id := ids ! k\<rparr>)"
    "\<And>ex. gw_orders ex s' = gw_orders ex t @
        map (\<lambda>cid. order_of (po_instr_id (the_parent pid t)) (the_child cid s')) (filter (\<lambda>cid. ch_exchange_id (the_child cid s') = ex) ids)"
    "live_children (ec_pool s') = live_children (ec_pool t) \<union> set ids" "distinct ids" "set ids \<inter> live_children (ec_pool t) = {}"
    "\<And>x. x \<in> live_children (ec_pool t) \<Longrightarrow> the_child x s' = the_child x t" "gw_room 0 s'"
    using assms(9) by (auto simp: sent_out_def)
  have c: "the_child cid s' = the_child cid t" "ch_exchange_id (the_child cid t) = co_exchange_id co"
    using r(8) [of cid] assms(1,4) by simp_all
  have "the_child ((cid # ids) ! k) s' = new_child pid ts dir (ec_states s ! co_exchange_id ((co # orders) ! k)) ((co # orders) ! k)
      (zero_child\<lparr>ch_child_id := (cid # ids) ! k\<rparr>)" if "k < length (co # orders)" for k
    using that r(3) assms(1,7) c(1) by (cases k) simp_all
  moreover have "gw_orders ex s' = gw_orders ex s @ map (\<lambda>cid. order_of (po_instr_id (the_parent pid s)) (the_child cid s'))
      (filter (\<lambda>cid. ch_exchange_id (the_child cid s') = ex) (cid # ids))" for ex
    using r(4) [of ex] assms(3) [of ex] assms(8) c by simp
  moreover have "the_child x s' = the_child x s" if "x \<in> live_children (ec_pool s)" for x using r(8) assms(4,6) that by simp
  moreover have "child_ids (the_parent pid s') = child_ids (the_parent pid s) @ cid # ids" using r(2) assms(2) by simp
  moreover have "distinct (cid # ids)" "set (cid # ids) \<inter> live_children (ec_pool s) = {}" using r(6,7) assms(4,5) by auto
  moreover have "live_children (ec_pool s') = live_children (ec_pool s) \<union> set (cid # ids)" using r(5) assms(4) by auto
  moreover have "length (cid # ids) = length (co # orders)" "gw_room 0 s'" using r(1,9) by simp_all
  ultimately show ?thesis unfolding sent_out_def by (intro conjI allI impI ballI)
qed

lemma alloc_child_room:
  assumes "children_inv P" and "card (live_children P) < 32768"
  shows "\<exists>cid Q. alloc_child P = (Some cid, Q)"
proof -
  have "live_children P \<noteq> {..<32768}" using assms(2) card_lessThan [of 32768] by (metis less_irrefl)
  then have "fst (alloc_child P) \<noteq> None" using child_pool.alloc_None_iff [OF assms(1)] by simp
  then show ?thesis by (cases "alloc_child P") auto
qed

lemma dispatch_all:
  assumes "slots_used pid i s" and "list_all (\<lambda>co. co_exchange_id co < length (ec_states s) \<and> co_exchange_id co < 5) orders"
    and "i + length orders \<le> 16" and "card (live_children (ec_pool s)) + length orders \<le> 32768" and "gw_room (length orders) s"
  shows "\<exists>s' ids. dispatch_loop pid ts ctx i orders s = Some (i + length orders, s') \<and> slots_used pid (i + length orders) s' \<and>
    dispatched pid s s' \<and> sent_out pid ts (ctx_dir ctx) orders ids s s'"
  using assms
proof (induction orders arbitrary: i s)
  case Nil
  then show ?case by simp
next
  case (Cons co orders)
  have f: "focus (length (ec_states s)) (ec_pool s) pid" using Cons.prems(1) by (simp add: slots_used_def core_focus_def)
  have i: "i < 16" and cnt: "\<not> 16 \<le> po_child_count (the_parent pid s)" using Cons.prems(1,3) by (simp_all add: slots_used_def)
  obtain cid P where a: "alloc_child (ec_pool s) = (Some cid, P)"
    using alloc_child_room [of "ec_pool s"] f Cons.prems(4) by (auto simp: focus_def pool_inv_def)
  obtain t where t: "dispatch_one pid ts ctx i co cid (s\<lparr>ec_pool := P\<rparr>) = Some t" "slots_used pid (Suc i) t" "dispatched pid s t"
    using dispatch_one_ok [OF Cons.prems(1) i a, of co ts ctx] Cons.prems(2) by auto
  have cfg: "ec_cfg t = ec_cfg s" using t(3) by (simp add: dispatched_def env_same_def)
  note fam = dispatch_one_family [OF Cons.prems(1) i a t(1)]
  note snd = dispatch_one_sends [OF Cons.prems(1) a t(1)]
  obtain u where u: "t = push_gateway (co_exchange_id co) (order_of (po_instr_id (the_parent pid s)) (the_child cid t)) u" "ec_gateways u = ec_gateways s"
    using snd(1) by blast
  have g: "gw_room (Suc (length orders)) u" "co_exchange_id co < 5" using Cons.prems(2,5) gw_cong(2) [OF u(2)] by simp_all
  have room: "gw_room (length orders) t" using push_gateway_orders(1) [OF g] by (subst u(1))
  have gw: "gw_orders ex t = gw_orders ex s @ (if ex = co_exchange_id co then [order_of (po_instr_id (the_parent pid s)) (the_child cid t)] else [])" for ex
    using push_gateway_orders(2) [OF g, of ex] gw_cong(1) [OF u(2), of ex] u(1) by metis
  have "finite (live_children (ec_pool s))" by (simp add: live_children_def)
  then have crd: "card (live_children (ec_pool t)) + length orders \<le> 32768" using snd(2,3) Cons.prems(4) by simp
  obtain s' ids where s': "dispatch_loop pid ts ctx (Suc i) orders t = Some (Suc i + length orders, s')" "slots_used pid (Suc i + length orders) s'"
    "dispatched pid t s'" "sent_out pid ts (ctx_dir ctx) orders ids t s'"
    using Cons.IH [OF t(2) _ _ crd room] Cons.prems(2,3) cfg by auto
  have id: "po_parent_id (the_parent pid s) = pid" using f by (simp add: focus_def linked_def the_parent_def)
  have "sent_out pid ts (ctx_dir ctx) (co # orders) (cid # ids) s s'"
  proof (rule sent_out_Cons [OF _ _ gw snd(2,3) _ cfg _ s'(4)])
    show "the_child cid t = new_child pid ts (ctx_dir ctx) (ec_states s ! co_exchange_id co) co (zero_child\<lparr>ch_child_id := cid\<rparr>)"
      using fam(3) id by (simp add: the_child_def)
    show "child_ids (the_parent pid t) = child_ids (the_parent pid s) @ [cid]" using fam(2) by (simp add: the_parent_def)
    show "the_child x t = the_child x s" if "x \<in> live_children (ec_pool s)" for x using fam(3) snd(3) that by (auto simp: the_child_def)
    show "po_instr_id (the_parent pid t) = po_instr_id (the_parent pid s)" using t(3) by (simp add: dispatched_def order_same_def)
  qed
  then show ?case using s' a cnt t(1) dispatched_trans [OF t(3) s'(3)] by (intro exI [of _ s'] exI [of _ "cid # ids"]) simp
qed


lemma dispatch_full: "po_child_count (the_parent pid s) \<ge> kMaxChildrenPerParent \<Longrightarrow> dispatch_loop pid ts ctx i orders s = Some (i, s)"
  by (cases orders) simp_all

lemma dispatch_append:
  "dispatch_loop pid ts ctx i xs s = Some (i + length xs, t) \<Longrightarrow> dispatch_loop pid ts ctx i (xs @ ys) s = dispatch_loop pid ts ctx (i + length xs) ys t"
proof (induction xs arbitrary: i s)
  case (Cons co xs)
  obtain r P where a: "alloc_child (ec_pool s) = (r, P)" by fastforce
  have n: "\<not> 16 \<le> po_child_count (the_parent pid s)" using Cons.prems by auto
  obtain cid where c: "r = Some cid" using Cons.prems a n by (cases r) auto
  obtain u where u: "dispatch_one pid ts ctx i co cid (s\<lparr>ec_pool := P\<rparr>) = Some u" "dispatch_loop pid ts ctx (Suc i) xs u = Some (i + length (co # xs), t)"
    using Cons.prems a n c by (auto elim!: bind_eq_SomeE)
  then show ?case using Cons.IH [of "Suc i" u] a n c by simp
qed simp

text \<open>At most the first sixteen orders go out.\<close>

lemma dispatch_first:
  assumes "slots_used pid 0 s" and "list_all (\<lambda>co. co_exchange_id co < length (ec_states s)) buf" and "length (ec_states s) \<le> 5"
    and "card (live_children (ec_pool s)) + 16 \<le> 32768" and "gw_room 16 s"
  shows "\<exists>s' ids. dispatch_loop pid ts ctx 0 buf s = Some (min (length buf) 16, s') \<and> slots_used pid (min (length buf) 16) s' \<and>
    dispatched pid s s' \<and> sent_out pid ts (ctx_dir ctx) (take 16 buf) ids s s'"
proof -
  let ?xs = "take 16 buf"
  have l: "length ?xs = min (length buf) 16" by simp
  have a: "list_all (\<lambda>co. co_exchange_id co < length (ec_states s) \<and> co_exchange_id co < 5) ?xs"
    using assms(2,3) by (fastforce simp: list_all_iff dest: in_set_takeD)
  have c: "card (live_children (ec_pool s)) + length ?xs \<le> 32768" using assms(4) by (simp add: min_def)
  have g: "gw_room (length ?xs) s" using assms(5) by (fastforce simp: gw_room_def)
  obtain s' ids where s': "dispatch_loop pid ts ctx 0 ?xs s = Some (0 + length ?xs, s')" "slots_used pid (0 + length ?xs) s'"
    "dispatched pid s s'" "sent_out pid ts (ctx_dir ctx) ?xs ids s s'"
    using dispatch_all [OF assms(1) a _ c g, of ts ctx] by auto
  have "dispatch_loop pid ts ctx 0 (?xs @ drop 16 buf) s = Some (length ?xs, s')"
  proof (cases "length buf \<le> 16")
    case True
    then show ?thesis using s'(1) by simp
  next
    case False
    then have "po_child_count (the_parent pid s') \<ge> kMaxChildrenPerParent" using s'(2) by (simp add: slots_used_def)
    then show ?thesis using dispatch_append [OF s'(1), of "drop 16 buf"] dispatch_full [of pid s'] by (simp del: append_take_drop_id)
  qed
  then show ?thesis using s'(2-4) by (auto simp: min_def)
qed

subsection \<open>From the signal to the gateways\<close>

text \<open>What a signal turns into: a working parent for \<open>q\<close> lots whose children are the orders.\<close>

definition went_out :: "nat \<Rightarrow> u64 \<Rightarrow> StrategyOrderSignal \<Rightarrow> qty_t \<Rightarrow> ChildOrder list \<Rightarrow> nat list \<Rightarrow> ExecutionCore \<Rightarrow> ExecutionCore \<Rightarrow> bool" where
  "went_out pid ts sig q orders ids s s' \<longleftrightarrow> pid \<in> live_parents (ec_pool s') \<and> length ids = length orders \<and> gw_room 0 s' \<and>
     (let p = the_parent pid s' in child_ids p = ids \<and> po_instr_id p = sig_instr_id sig \<and> po_dir p = sig_dir sig \<and>
       po_total_qty_lots p = q \<and> po_leaves_qty_lots p = q) \<and>
     (\<forall>k<length orders. the_child (ids ! k) s' =
        new_child pid ts (sig_dir sig) (ec_states s ! co_exchange_id (orders ! k)) (orders ! k) (zero_child\<lparr>ch_child_id := ids ! k\<rparr>)) \<and>
     (\<forall>ex. gw_orders ex s' = gw_orders ex s @
        map (\<lambda>cid. order_of (sig_instr_id sig) (the_child cid s')) (filter (\<lambda>cid. ch_exchange_id (the_child cid s') = ex) ids)) \<and>
     live_children (ec_pool s') = live_children (ec_pool s) \<union> set ids \<and> distinct ids \<and> set ids \<inter> live_children (ec_pool s) = {} \<and>
     (\<forall>x\<in>live_children (ec_pool s). the_child x s' = the_child x s)"

lemma went_outI:
  assumes "sent_out pid ts (sig_dir sig) orders ids u s'" and "child_ids (the_parent pid u) = []" and "pid \<in> live_parents (ec_pool s')"
    and "order_same (the_parent pid u) (the_parent pid s')"
    and "po_instr_id (the_parent pid u) = sig_instr_id sig" and "po_dir (the_parent pid u) = sig_dir sig"
    and "po_total_qty_lots (the_parent pid u) = q" and "po_leaves_qty_lots (the_parent pid u) = q"
    and "ec_cfg u = ec_cfg s" and "ec_gateways u = ec_gateways s" and "live_children (ec_pool u) = live_children (ec_pool s)"
    and "children (ec_pool u) = children (ec_pool s)"
  shows "went_out pid ts sig q orders ids s s'"
  using assms by (simp add: went_out_def sent_out_def order_same_def gw_cong(1) [OF assms(10)] the_child_def Let_def)

lemma release_gap_frame:
  assumes "release_gap pid ctx rest s = Some s'"
  shows "ec_gateways s' = ec_gateways s" and "ec_cfg s' = ec_cfg s"
  using assms by (auto simp: release_gap_def mod_instr_def Let_def elim!: bind_eq_SomeE split: if_splits)

lemma sent_out_after: "sent_out pid ts d orders ids s t \<Longrightarrow> ec_pool s' = ec_pool t \<Longrightarrow> ec_gateways s' = ec_gateways t \<Longrightarrow> sent_out pid ts d orders ids s s'"
  by (simp add: sent_out_def the_parent_def the_child_def gw_orders_def gw_room_def)

lemma sent_out_before:
  "sent_out pid ts d orders ids t s' \<Longrightarrow> ec_pool s = ec_pool t \<Longrightarrow> ec_gateways s = ec_gateways t \<Longrightarrow> ec_cfg s = ec_cfg t \<Longrightarrow> sent_out pid ts d orders ids s s'"
  by (simp add: sent_out_def the_parent_def the_child_def gw_orders_def gw_room_def)

lemma dispatch_sends:
  assumes "slots_used pid 0 s" and "buf \<noteq> []" and "ctx_states ctx \<noteq> []" and "list_all (\<lambda>co. co_exchange_id co < length (ec_states s)) buf"
    and "length (ec_states s) \<le> 5" and "card (live_children (ec_pool s)) + 16 \<le> 32768" and "gw_room 16 s" and "po_instr_id (the_parent pid s) < 64"
  shows "\<exists>s' ids. dispatch_child_orders E pid buf ctx s = Some s' \<and> pid \<in> live_parents (ec_pool s') \<and> order_same (the_parent pid s) (the_parent pid s') \<and>
    sent_out pid (env_clock E (ec_clock_reads s)) (ctx_dir ctx) (take 16 buf) ids s s' \<and> (length buf \<le> 16 \<longrightarrow> ec_pos s' = ec_pos s)"
proof -
  let ?s = "s\<lparr>ec_clock_reads := ec_clock_reads s + 1\<rparr>" and ?ts = "env_clock E (ec_clock_reads s)" and ?n = "min (length buf) 16"
  have p: "slots_used pid 0 ?s" "gw_room 16 ?s" using assms(1,7) by (simp_all add: slots_used_def gw_room_def)
  obtain t ids where t: "dispatch_loop pid ?ts ctx 0 buf ?s = Some (?n, t)" "slots_used pid ?n t" "dispatched pid ?s t"
    "sent_out pid ?ts (ctx_dir ctx) (take 16 buf) ids ?s t"
    using dispatch_first [OF p(1) _ _ _ p(2), of buf ?ts ctx] assms(4-6) by auto
  have k: "po_child_count (the_parent pid t) \<noteq> 0" using t(2) assms(2) by (simp add: slots_used_def)
  have fc: "pid \<in> live_parents (ec_pool t)" using t(2) by (simp add: slots_used_def core_focus_def focus_def)
  have "po_instr_id (the_parent pid t) < 64" using t(3) assms(8) by (simp add: dispatched_def order_same_def)
  then obtain s' where s': "(if ?n < length buf then release_gap pid ctx (drop ?n buf) t else Some t) = Some s'"
    using release_gap_ok [OF assms(3), of pid t "drop ?n buf"] by (cases "?n < length buf") (metis, metis)
  have f: "ec_pool s' = ec_pool t" "ec_gateways s' = ec_gateways t"
    using s' release_gap_pool release_gap_frame by (auto split: if_splits)
  have run: "dispatch_child_orders E pid buf ctx s = Some s'"
    using t(1) s' k f(1) by (simp add: dispatch_child_orders_def now_ns_pair Let_def the_parent_def cong: if_cong)
  have "sent_out pid ?ts (ctx_dir ctx) (take 16 buf) ids s s'"
    using sent_out_after [OF t(4) f] sent_out_before [of pid ?ts "ctx_dir ctx" "take 16 buf" ids ?s s' s] by simp
  moreover have "order_same (the_parent pid s) (the_parent pid s')" using t(3) f(1) by (simp add: dispatched_def the_parent_def)
  moreover have "length buf \<le> 16 \<longrightarrow> ec_pos s' = ec_pos s" using s' t(3) by (auto simp: dispatched_def)
  ultimately show ?thesis using run fc f(1) by (intro exI [of _ s'] exI [of _ ids]) simp
qed

text \<open>The router's call for a signal, and the whole handler.\<close>

definition router_orders :: "Env \<Rightarrow> StrategyOrderSignal \<Rightarrow> RoutingContext \<Rightarrow> ExecutionCore \<Rightarrow> ChildOrder list option" where
  "router_orders E sig ctx s = map_option snd (if sig_order_type sig = MAKER then calculate_maker_placement (ec_sor s) ctx []
     else calculate_optimal_split (env_exp E) (ec_sor s) ctx [])"

definition signal_context :: "Env \<Rightarrow> StrategyOrderSignal \<Rightarrow> qty_t \<Rightarrow> ExecutionCore \<Rightarrow> RoutingContext \<Rightarrow> bool" where
  "signal_context E sig q s ctx \<longleftrightarrow> ctx_states ctx = ec_states s \<and> ctx_active_exchanges ctx = cfg_active_exchanges (ec_cfg s) \<and>
     ctx_dir ctx = sig_dir sig \<and> ctx_target_lots ctx = q \<and>
     ctx_limit_price ctx = (let t = nb_tick_size (es_book (ec_states s ! 0)); l = to_ticks (sig_limit_price_usd sig) t
       in if sig_limit_price_usd sig > 0 \<and> l > 0 then of_i64 l * t else 0) \<and>
     ctx_reference_lot_size ctx = lot_size (cfg_instruments (ec_cfg s)) (sig_instr_id sig) \<and>
     ctx_short_vol_factor ctx = sig_short_vol_factor sig \<and> ctx_book_imbalance ctx = sig_book_imbalance sig"

text \<open>A non-empty answer of the router goes out.\<close>

lemma route_signal_sends:
  assumes "slots_used pid 0 s" and "sig_instr_id sig < 64" and "0 < q" and "po_instr_id (the_parent pid s) = sig_instr_id sig"
    and "build_routing_context (the_parent pid s) q s = Some ctx0" and "ctx_dir ctx0 = sig_dir sig"
    and "ctx = ctx0\<lparr>ctx_short_vol_factor := sig_short_vol_factor sig, ctx_book_imbalance := sig_book_imbalance sig,
      ctx_decision_ns := env_clock E (ec_clock_reads s)\<rparr>"
    and "router_orders E sig ctx s = Some buf" and "buf \<noteq> []" and "length (ec_states s) \<le> 5"
    and "card (live_children (ec_pool s)) + 16 \<le> 32768" and "gw_room 16 s"
  shows "\<exists>s' ts ids. route_signal E pid sig q s = Some s' \<and> pid \<in> live_parents (ec_pool s') \<and>
    order_same (the_parent pid s) (the_parent pid s') \<and> sent_out pid ts (sig_dir sig) (take 16 buf) ids s s' \<and>
    (length buf \<le> 16 \<longrightarrow> ec_pos s' = upd_instr (sig_instr_id sig) (reserve_open (sig_dir sig) q) (ec_pos s))"
proof -
  define s0 where "s0 = s\<lparr>ec_clock_reads := ec_clock_reads s + 1\<rparr>"
  have c0: "core_focus pid s0" "config_ok s" using assms(1) by (simp_all add: slots_used_def s0_def core_focus_def)
  have x: "ctx_states ctx0 = ec_states s" "ctx_target_lots ctx0 = q" "ctx_active_exchanges ctx0 = cfg_active_exchanges (ec_cfg s)"
    using build_routing_context_ok [OF c0(2), of "the_parent pid s" q] assms(5) by auto
  have sh: "router_shape (ec_sor s) (ctx_states ctx) (ctx_active_exchanges ctx)" "0 < ctx_target_lots ctx" "ctx_states ctx = ec_states s"
    using c0(2) x assms(3,7) by (simp_all add: config_ok_def)
  obtain res where r: "(if sig_order_type sig = MAKER then calculate_maker_placement (ec_sor s) ctx []
      else calculate_optimal_split (env_exp E) (ec_sor s) ctx []) = Some (res, buf)"
    using assms(8) unfolding router_orders_def by auto
  have w: "list_all (\<lambda>co. co_exchange_id co < length (ec_states s)) buf"
    using router_call_ok [OF sh(1,2), of "sig_order_type sig" "env_exp E"] r sh(3) by (auto split: if_splits)
  let ?t = "mod_parent pid (\<lambda>p. p\<lparr>po_state := PENDING_NEW\<rparr>) s0"
  have ct: "core_focus pid ?t" by (rule core_focus_parent [OF c0(1)]) simp_all
  define v where "v = ?t\<lparr>ec_pos := upd_instr (sig_instr_id sig) (reserve_open (sig_dir sig) q) (ec_pos ?t)\<rparr>"
  have pv: "the_parent pid v = (the_parent pid s)\<lparr>po_state := PENDING_NEW\<rparr>" by (simp add: v_def s0_def the_parent_def)
  have fv: "core_focus pid v" using ct by (simp add: v_def core_focus_def config_ok_def)
  have sv: "slots_used pid 0 v" using assms(1) fv pv by (simp add: slots_used_def has_child_def)
  have ev: "ec_cfg v = ec_cfg s" "ec_gateways v = ec_gateways s" "live_children (ec_pool v) = live_children (ec_pool s)"
    "children (ec_pool v) = children (ec_pool s)" by (simp_all add: v_def s0_def mod_parent_def)
  have "ctx_states ctx \<noteq> []" using sh(1) by (simp add: router_shape_def)
  moreover have "gw_room 16 v" using gw_cong(2) [OF ev(2)] assms(12) by blast
  ultimately obtain s' ids where s': "dispatch_child_orders E pid buf ctx v = Some s'" "pid \<in> live_parents (ec_pool s')"
    "order_same (the_parent pid v) (the_parent pid s')"
    "sent_out pid (env_clock E (ec_clock_reads v)) (ctx_dir ctx) (take 16 buf) ids v s'" "length buf \<le> 16 \<longrightarrow> ec_pos s' = ec_pos v"
    using dispatch_sends [OF sv assms(9), of ctx E] w ev assms(2,4,10,11) pv by auto
  have run: "route_signal E pid sig q s = Some s'"
    using assms(2,5,7,9) r s'(1) by (simp add: route_signal_def now_ns_pair Let_def mod_instr_def v_def s0_def cong: if_cong)
  have "order_same (the_parent pid s) (the_parent pid s')" using s'(3) pv by (simp add: order_same_def)
  moreover have "child_ids (the_parent pid v) = child_ids (the_parent pid s)" by (rule child_ids_cong) (simp_all add: pv)
  then have "sent_out pid (env_clock E (ec_clock_reads v)) (sig_dir sig) (take 16 buf) ids s s'"
    using s'(4) ev assms(6,7) pv gw_cong(1) [OF ev(2)] by (simp add: sent_out_def the_child_def)
  ultimately show ?thesis using run s'(2,5)
    by (intro exI [of _ s'] exI [of _ "env_clock E (ec_clock_reads v)"] exI [of _ ids]) (simp add: v_def s0_def)
qed

text \<open>The state that a signal accepted by the gate, the pool and the risk checks is routed from.\<close>

definition accepted :: "StrategyOrderSignal \<Rightarrow> nat \<Rightarrow> qty_t \<Rightarrow> ExecutionCore \<Rightarrow> ExecutionCore \<Rightarrow> bool" where
  "accepted sig pid q s t \<longleftrightarrow> slots_used pid 0 t \<and> env_same s t \<and> ec_pos t = ec_pos s \<and> ec_reject_queue t = ec_reject_queue s \<and>
     live_parents (ec_pool t) = insert pid (live_parents (ec_pool s)) \<and> pid \<notin> live_parents (ec_pool s) \<and>
     children (ec_pool t) = children (ec_pool s) \<and> live_children (ec_pool t) = live_children (ec_pool s) \<and> ec_gateways t = ec_gateways s \<and>
     (let p = the_parent pid t in po_instr_id p = sig_instr_id sig \<and> po_dir p = sig_dir sig \<and> po_total_qty_lots p = q \<and> po_leaves_qty_lots p = q)"

lemma accepted_run:
  assumes "core_ok s" and "approve (ec_gate s) sig (ec_stdin s) = (True, inp)" and "alloc_parent (ec_pool s) = (Some pid, P)"
    and "q = clamp_reduce_only_sig (ec_pos s) sig" and "0 < q" and "validate (ec_risk s) (ec_pos s) (sig\<lparr>sig_qty_lots := q\<rparr>) = RR_OK"
  shows "\<exists>t ctx0. on_strategy_order E sig s = route_signal E pid sig q t \<and> accepted sig pid q s t \<and>
    build_routing_context (the_parent pid t) q t = Some ctx0 \<and> ctx_dir ctx0 = sig_dir sig \<and>
    signal_context E sig q s (ctx0\<lparr>ctx_short_vol_factor := sig_short_vol_factor sig, ctx_book_imbalance := sig_book_imbalance sig,
      ctx_decision_ns := env_clock E (ec_clock_reads t)\<rparr>)"
proof -
  obtain u where run: "on_strategy_order E sig s = decide_signal E pid sig q u" and pl: "placed sig pid s u"
    using placed_run [OF assms(1-3), of E] assms(4) by blast
  have w: "slots_used pid 0 u" "po_instr_id (the_parent pid u) = sig_instr_id sig" "po_dir (the_parent pid u) = sig_dir sig" "env_same s u" "ec_pos u = ec_pos s"
    using pl by (simp_all add: placed_def Let_def)
  have e: "ec_cfg u = ec_cfg s" "ec_risk u = ec_risk s" using w(4) by (simp_all add: env_same_def)
  have st: "nth_opt (ec_states s) 0 = Some (ec_states s ! 0)"
    using assms(1) by (simp add: core_ok_def config_ok_def router_shape_def nth_opt_def)
  define lim where "lim = (if sig_limit_price_usd sig > 0 then to_ticks (sig_limit_price_usd sig) (nb_tick_size (es_book (ec_states s ! 0))) else 0)"
  define t where "t = mod_parent pid (\<lambda>p. p\<lparr>po_total_qty_lots := q, po_leaves_qty_lots := q, po_limit_price := lim\<rparr>) u"
  have d: "on_strategy_order E sig s = route_signal E pid sig q t"
    using run assms(5,6) st by (simp add: decide_signal_def e w(5) t_def lim_def Let_def)
  have "core_focus pid t" unfolding t_def using w(1) by (intro core_focus_parent) (simp_all add: slots_used_def)
  then have ut: "slots_used pid 0 t" using w(1) by (simp add: slots_used_def t_def has_child_def)
  have pt: "the_parent pid t = (the_parent pid u)\<lparr>po_total_qty_lots := q, po_leaves_qty_lots := q, po_limit_price := lim\<rparr>"
    by (simp add: t_def the_parent_def)
  have a: "accepted sig pid q s t"
    unfolding accepted_def Let_def pt using pl ut by (simp add: t_def mod_parent_def placed_def env_same_def Let_def)
  have et: "ec_cfg t = ec_cfg s" using a by (simp add: accepted_def env_same_def)
  obtain ctx0 where "build_routing_context (the_parent pid t) q t = Some ctx0" "ctx_dir ctx0 = sig_dir sig"
    "signal_context E sig q s (ctx0\<lparr>ctx_short_vol_factor := sig_short_vol_factor sig, ctx_book_imbalance := sig_book_imbalance sig,
      ctx_decision_ns := env_clock E (ec_clock_reads t)\<rparr>)"
    unfolding build_routing_context_def Let_def signal_context_def pt using st w(2,3)
    by (cases "sig_limit_price_usd sig > 0"; cases "lim > 0") (simp_all add: et lim_def)
  then show ?thesis using d a by blast
qed

lemma kill_signal_gateways: "kill_signal E pid sig reason s = Some s' \<Longrightarrow> ec_gateways s' = ec_gateways s"
  by (auto simp: kill_signal_def notify_reject_sig_def notify_reject_def now_ns_def Let_def mod_parent_def elim!: bind_eq_SomeE)

lemma route_signal_nothing:
  assumes "slots_used pid 0 s" and "build_routing_context (the_parent pid s) q s = Some ctx0"
    and "ctx = ctx0\<lparr>ctx_short_vol_factor := sig_short_vol_factor sig, ctx_book_imbalance := sig_book_imbalance sig,
      ctx_decision_ns := env_clock E (ec_clock_reads s)\<rparr>"
    and "router_orders E sig ctx s = Some []"
  shows "\<exists>s'. route_signal E pid sig q s = Some s' \<and> live_parents (ec_pool s') = live_parents (ec_pool s) - {pid} \<and> ec_pos s' = ec_pos s \<and>
    ec_gateways s' = ec_gateways s \<and> pushed_reject (sig_instr_id sig) (sig_dir sig) (sig_strategy_id sig) (sig_qty_lots sig) NO_LIQUIDITY s s'"
proof -
  let ?s = "s\<lparr>ec_clock_reads := ec_clock_reads s + 1\<rparr>"
  obtain res where "(if sig_order_type sig = MAKER then calculate_maker_placement (ec_sor s) ctx []
      else calculate_optimal_split (env_exp E) (ec_sor s) ctx []) = Some (res, [])"
    using assms(4) unfolding router_orders_def by auto
  then have run: "route_signal E pid sig q s = kill_signal E pid sig NO_LIQUIDITY ?s"
    using assms(2,3) by (simp add: route_signal_def now_ns_pair Let_def cong: if_cong)
  have "core_focus pid ?s" using assms(1) by (simp add: slots_used_def core_focus_def config_ok_def)
  from kill_signal_ok [OF this, of E sig NO_LIQUIDITY] slots_used_no_ids [OF assms(1)] show ?thesis
    unfolding run using kill_signal_gateways [of E pid sig NO_LIQUIDITY ?s] by (auto simp: pushed_reject_def)
qed

lemma accepted_signal_sends:
  assumes "core_ok s" and "approve (ec_gate s) sig (ec_stdin s) = (True, inp)" and "alloc_parent (ec_pool s) = (Some pid, P)"
    and "q = clamp_reduce_only_sig (ec_pos s) sig" and "0 < q" and "validate (ec_risk s) (ec_pos s) (sig\<lparr>sig_qty_lots := q\<rparr>) = RR_OK"
    and "length (ec_states s) \<le> 5" and "card (live_children (ec_pool s)) + 16 \<le> 32768" and "gw_room 16 s"
  shows "\<exists>ctx buf s'. signal_context E sig q s ctx \<and> router_orders E sig ctx s = Some buf \<and> on_strategy_order E sig s = Some s' \<and>
    (if buf = [] then live_parents (ec_pool s') = live_parents (ec_pool s) \<and> ec_pos s' = ec_pos s \<and> ec_gateways s' = ec_gateways s \<and>
       pushed_reject (sig_instr_id sig) (sig_dir sig) (sig_strategy_id sig) (sig_qty_lots sig) NO_LIQUIDITY s s'
     else (\<exists>ts ids. went_out pid ts sig q (take 16 buf) ids s s') \<and>
       (length buf \<le> 16 \<longrightarrow> ec_pos s' = upd_instr (sig_instr_id sig) (reserve_open (sig_dir sig) q) (ec_pos s)))"
proof -
  obtain t ctx0 where d: "on_strategy_order E sig s = route_signal E pid sig q t" and a: "accepted sig pid q s t"
    and c: "build_routing_context (the_parent pid t) q t = Some ctx0" "ctx_dir ctx0 = sig_dir sig"
    and x: "signal_context E sig q s (ctx0\<lparr>ctx_short_vol_factor := sig_short_vol_factor sig, ctx_book_imbalance := sig_book_imbalance sig,
      ctx_decision_ns := env_clock E (ec_clock_reads t)\<rparr>)"
    using accepted_run [OF assms(1-6), of E] by blast
  let ?ctx = "ctx0\<lparr>ctx_short_vol_factor := sig_short_vol_factor sig, ctx_book_imbalance := sig_book_imbalance sig,
      ctx_decision_ns := env_clock E (ec_clock_reads t)\<rparr>"
  have i: "sig_instr_id sig < 64" using assms(6) by (auto simp: validate_def split: if_splits)
  have t: "slots_used pid 0 t" "ec_pos t = ec_pos s" "ec_reject_queue t = ec_reject_queue s" "pid \<notin> live_parents (ec_pool s)"
    "live_parents (ec_pool t) = insert pid (live_parents (ec_pool s))" "children (ec_pool t) = children (ec_pool s)"
    "live_children (ec_pool t) = live_children (ec_pool s)" "ec_gateways t = ec_gateways s" "po_instr_id (the_parent pid t) = sig_instr_id sig"
    "po_dir (the_parent pid t) = sig_dir sig" "po_total_qty_lots (the_parent pid t) = q" "po_leaves_qty_lots (the_parent pid t) = q"
    "ec_cfg t = ec_cfg s" "ec_sor t = ec_sor s"
    using a by (simp_all add: accepted_def env_same_def Let_def)
  have "router_shape (ec_sor s) (ctx_states ?ctx) (ctx_active_exchanges ?ctx)" "0 < ctx_target_lots ?ctx"
    using assms(1,5) x by (simp_all add: signal_context_def core_ok_def config_ok_def)
  from router_call_ok [OF this, of "sig_order_type sig" "env_exp E"] obtain buf where b: "router_orders E sig ?ctx s = Some buf"
    by (auto simp: router_orders_def)
  then have bt: "router_orders E sig ?ctx t = Some buf" unfolding router_orders_def t(14) .
  show ?thesis
  proof (cases "buf = []")
    case True
    obtain s' where s': "route_signal E pid sig q t = Some s'"
      "live_parents (ec_pool s') = live_parents (ec_pool t) - {pid}" "ec_pos s' = ec_pos t" "ec_gateways s' = ec_gateways t"
      "pushed_reject (sig_instr_id sig) (sig_dir sig) (sig_strategy_id sig) (sig_qty_lots sig) NO_LIQUIDITY t s'"
      using route_signal_nothing [OF t(1) c(1) refl bt [unfolded True]] by blast
    then show ?thesis using x b d True t(2,4,5,8) pushed_reject_from [OF t(3) s'(5)] by (intro exI [of _ ?ctx] exI [of _ buf] exI [of _ s']) auto
  next
    case False
    have "gw_room 16 t" using gw_cong(2) [OF t(8)] assms(9) by blast
    then obtain s' ts ids where s': "route_signal E pid sig q t = Some s'" "pid \<in> live_parents (ec_pool s')"
      "order_same (the_parent pid t) (the_parent pid s')" "sent_out pid ts (sig_dir sig) (take 16 buf) ids t s'"
      "length buf \<le> 16 \<longrightarrow> ec_pos s' = upd_instr (sig_instr_id sig) (reserve_open (sig_dir sig) q) (ec_pos t)"
      using route_signal_sends [OF t(1) i assms(5) t(9) c refl bt False] t(7,13) assms(7,8) by auto
    have "went_out pid ts sig q (take 16 buf) ids s s'"
      using went_outI [OF s'(4) slots_used_no_ids [OF t(1)] s'(2,3) t(9-13,8,7,6)] .
    then show ?thesis using x b d s'(1,5) t(2) False by (intro exI [of _ ?ctx] exI [of _ buf] exI [of _ s']) auto
  qed
qed

lemma accepted_signal_cases:
  assumes "core_ok s" and "approve (ec_gate s) sig (ec_stdin s) = (True, inp)" and "alloc_parent (ec_pool s) = (Some pid, P)"
    and "q = clamp_reduce_only_sig (ec_pos s) sig" and "0 < q" and "validate (ec_risk s) (ec_pos s) (sig\<lparr>sig_qty_lots := q\<rparr>) = RR_OK"
    and "length (ec_states s) \<le> 5" and "card (live_children (ec_pool s)) + 16 \<le> 32768" and "gw_room 16 s"
    and "\<And>s'. on_strategy_order E sig s = Some s' \<Longrightarrow> live_parents (ec_pool s') = live_parents (ec_pool s) \<Longrightarrow> ec_pos s' = ec_pos s \<Longrightarrow>
      ec_gateways s' = ec_gateways s \<Longrightarrow> thesis"
    and "\<And>buf s' ts ids. on_strategy_order E sig s = Some s' \<Longrightarrow> buf \<noteq> [] \<Longrightarrow> went_out pid ts sig q (take 16 buf) ids s s' \<Longrightarrow> thesis"
  shows thesis
proof -
  obtain ctx buf s' where "on_strategy_order E sig s = Some s'" and
    "if buf = [] then live_parents (ec_pool s') = live_parents (ec_pool s) \<and> ec_pos s' = ec_pos s \<and> ec_gateways s' = ec_gateways s \<and>
       pushed_reject (sig_instr_id sig) (sig_dir sig) (sig_strategy_id sig) (sig_qty_lots sig) NO_LIQUIDITY s s'
     else (\<exists>ts ids. went_out pid ts sig q (take 16 buf) ids s s') \<and>
       (length buf \<le> 16 \<longrightarrow> ec_pos s' = upd_instr (sig_instr_id sig) (reserve_open (sig_dir sig) q) (ec_pos s))"
    using accepted_signal_sends [OF assms(1-9), of E] by blast
  then show thesis using assms(10,11) by (cases "buf = []") auto
qed

end
