(* ===== verification/Market_Properties.thy ===== *)
theory Market_Properties
  imports Core_Dispatch Core_Properties
begin

text \<open>
  What the core guarantees against exchanges that follow the protocol: it never faults, never has more
  out at the exchanges than its orders have open, books every executed lot once, and sends what the
  router decided.
\<close>

subsection \<open>The concrete core\<close>

lemma demo_uniform: "uniform_lots 1 demo_start"
proof -
  have "rnd 1 = Fin 1" using rnd_of_int [of 1] by simp
  then have u: "lot_unit 1" by (simp add: lot_unit_def power_int_minus field_simps)
  have m: "canonical_min_lots (demo_state i bp bq ap aq) (Fin 1) = 1" for i bp bq ap aq
    by (simp add: canonical_min_lots_def demo_state_def Let_def one_double_def)
  have "ec_cfg demo_start = demo_cfg" by (simp add: demo_start_def core_init_def margin_monitor_init_def now_ns_def)
  then show ?thesis using u m
    by (simp add: uniform_lots_def demo_cfg_def demo_ctx_def lot_size_def) (simp add: demo_state_def one_double_def)
qed

lemma demo_exposed: "exposed_core 1 demo_start"
  using core_init_exposed [OF demo_router_shape] demo_uniform by (simp add: demo_start_def)


text \<open>A maker buy order of twelve lots on it: one child, on one of the two exchanges.\<close>

definition demo_sig :: StrategyOrderSignal where
  "demo_sig = empty_signal\<lparr>sig_qty_lots := 12, sig_order_type := MAKER\<rparr>"

lemma zero_double_order [simp]: "\<not> (0::double) < 0" "(0::double) \<le> 0"
  by (simp_all add: zero_double_def)

lemma demo_fields:
  "ec_cfg demo_start = demo_cfg" "ec_pool demo_start = pool_init" "ec_stdin demo_start = []" "ec_sor demo_start = demo_engine"
  "ec_gate demo_start = \<lparr>ng_cfg = default_gate_config, ng_instruments = \<lparr>inst_lot_size = (\<lambda>_. Fin 1)\<rparr>\<rparr>"
  "ec_gateways demo_start = (\<lambda>_. Some (spsc_init zero_outbound))"
  "ec_risk demo_start = \<lparr>re_limits = cfg_risk_limits demo_cfg, re_instruments = cfg_instruments demo_cfg\<rparr>"
  by (simp_all add: demo_start_def core_init_def margin_monitor_init_def now_ns_def demo_cfg_def demo_engine_def)

lemma demo_pos: "instruments (ec_pos demo_start) = (\<lambda>_. flat_position)" "available (margin (ec_pos demo_start)) = 0"
  by (simp_all add: demo_start_def core_init_def margin_monitor_init_def now_ns_def init_positions_def demo_cfg_def
      recompute_available_def margin_state_update_def available_def minus_double_def zero_double_def Let_def)

lemma demo_accept:
  "approve (ec_gate demo_start) demo_sig (ec_stdin demo_start) = (True, [])"
  "clamp_reduce_only_sig (ec_pos demo_start) demo_sig = 12"
  "validate (ec_risk demo_start) (ec_pos demo_start) (demo_sig\<lparr>sig_qty_lots := 12\<rparr>) = RR_OK"
  by (simp_all add: demo_fields demo_pos demo_sig_def empty_signal_def approve_def clamp_reduce_only_sig_def clamp_reduce_only_impl_def
      flat_position_def validate_def check_fat_finger_def check_position_def check_margin_def demo_cfg_def)

lemma demo_room: "card (live_children (ec_pool demo_start)) = 0" "gw_room 16 demo_start"
proof -
  have "live_children pool_init = {}" by (simp add: pool_init_live)
  then show "card (live_children (ec_pool demo_start)) = 0" by (simp add: demo_fields)
  have "spsc_inv GatewayQueueN (spsc_init zero_outbound)" using spsc_init_inv [of 9 zero_outbound] by (simp add: GatewayQueueN_def)
  then show "gw_room 16 demo_start" by (simp add: gw_room_def demo_fields spsc_size_def spsc_init_def)
qed

lemma demo_slot: "\<exists>P. alloc_parent (ec_pool demo_start) = (Some 0, P)"
  by (simp add: demo_fields alloc_parent_def pool_init_def Let_def)

text \<open>Both exchanges bid 200 ticks.\<close>

lemma demo_maker_order:
  assumes "signal_context E demo_sig 12 demo_start ctx"
  shows "\<exists>co. router_orders E demo_sig ctx demo_start = Some [co] \<and> co_qty co = Fin 12 \<and> co_price co = Fin 100 \<and> co_exchange_id co < 2"
proof -
  have c: "ctx_states ctx = ctx_states demo_ctx" "ctx_active_exchanges ctx = 2" "ctx_dir ctx = BUY" "ctx_target_lots ctx = 12"
    "ctx_limit_price ctx = 0" "ctx_reference_lot_size ctx = Fin 1"
    using assms by (simp_all add: signal_context_def demo_fields demo_cfg_def demo_sig_def empty_signal_def lot_size_def Let_def)
  have ok: "maker_ok demo_engine ctx" using demo_maker_ok c demo_states by (simp add: maker_ok_def active_states_def)
  have r: "resolve_reference_lot_size ctx = Some (Fin 1)" using c by (simp add: resolve_reference_lot_size_def zero_double_def)
  have f: "of_i64 200 * 0 = Fin 0" by (simp add: of_i64_def zero_double_def)
  have q: "maker_quote demo_engine ctx (demo_state i (200 # bp) bq ap aq) = Some (Some (200, 200))" if "i < 5" for i bp bq ap aq
    using c f that by (simp add: maker_quote_def demo_state_def demo_side_def demo_engine_def book_side_def maker_side_idx_def fee_maker_def
        llround_def zero_double_def Let_def)
  have qs: "maker_quotes demo_engine ctx (active_states ctx) = [(ctx_states demo_ctx ! 0, 200, 200), (ctx_states demo_ctx ! 1, 200, 200)]"
    using c demo_states q by (simp add: maker_quotes_def active_states_def)
  have t: "from_lots 12 (Fin 1) = Fin 12" "from_ticks 200 (Fin (1/2)) = Fin 100" by (simp_all add: from_lots_def from_ticks_def of_i64_def)
  have st: "nb_tick_size (es_book (ctx_states demo_ctx ! 0)) = Fin (1/2)" "nb_tick_size (es_book (ctx_states demo_ctx ! 1)) = Fin (1/2)"
    "es_exchange_id (ctx_states demo_ctx ! 0) = 0" "es_exchange_id (ctx_states demo_ctx ! 1) = 1"
    by (simp_all add: demo_states demo_state_def)
  obtain res orders where o: "calculate_maker_placement demo_engine ctx [] = Some (res, orders)"
    "\<exists>co. orders = [co] \<and> co_qty co = Fin 12 \<and> co_price co = Fin 100 \<and> co_exchange_id co < 2"
    using maker_run [OF ok r] unfolding qs using c t st by (auto simp: Let_def)
  then show ?thesis by (auto simp: router_orders_def demo_sig_def demo_fields)
qed

lemma demo_pick:
  assumes "\<exists>ctx buf s. signal_context E demo_sig 12 demo_start ctx \<and> router_orders E demo_sig ctx demo_start = Some buf \<and>
      on_strategy_order E demo_sig demo_start = Some s \<and>
      (if buf = [] then A s else (\<exists>ts ids. went_out 0 ts demo_sig 12 (take 16 buf) ids demo_start s) \<and> B buf s)"
  shows "\<exists>co s ts ids. on_strategy_order E demo_sig demo_start = Some s \<and> went_out 0 ts demo_sig 12 [co] ids demo_start s \<and>
     co_qty co = Fin 12 \<and> co_price co = Fin 100 \<and> co_exchange_id co < 2"
proof -
  obtain ctx buf s where s: "signal_context E demo_sig 12 demo_start ctx" "router_orders E demo_sig ctx demo_start = Some buf"
    "on_strategy_order E demo_sig demo_start = Some s"
    "if buf = [] then A s else (\<exists>ts ids. went_out 0 ts demo_sig 12 (take 16 buf) ids demo_start s) \<and> B buf s"
    using assms by blast
  obtain co where "buf = [co]" "co_qty co = Fin 12 \<and> co_price co = Fin 100 \<and> co_exchange_id co < 2"
    using demo_maker_order [OF s(1)] s(2) by auto
  then show ?thesis using s(3,4) by auto
qed

lemma demo_order:
  "\<exists>co s ts ids. on_strategy_order E demo_sig demo_start = Some s \<and> went_out 0 ts demo_sig 12 [co] ids demo_start s \<and>
     co_qty co = Fin 12 \<and> co_price co = Fin 100 \<and> co_exchange_id co < 2"
proof -
  have n: "length (ec_states demo_start) \<le> 5" by (simp add: demo_fields demo_cfg_def demo_states)
  have c: "card (live_children (ec_pool demo_start)) + 16 \<le> 32768" using demo_room(1) by simp
  obtain P where P: "alloc_parent (ec_pool demo_start) = (Some 0, P)" using demo_slot by blast
  show ?thesis
    by (rule demo_pick [OF accepted_signal_sends [OF demo_start_ok demo_accept(1) P demo_accept(2) [symmetric] _ demo_accept(3) n c demo_room(2)]]) simp
qed

text \<open>Its only child has all twelve lots open.\<close>

lemma demo_live:
  "\<exists>s cid. on_strategy_order E demo_sig demo_start = Some s \<and> 0 \<in> live_parents (ec_pool s) \<and> child_ids (the_parent 0 s) = [cid] \<and>
     cid \<in> live_children (ec_pool s) \<and> ch_parent_id (the_child cid s) = 0 \<and> po_instr_id (the_parent 0 s) = 0 \<and> po_dir (the_parent 0 s) = BUY \<and>
     working (ch_state (the_child cid s)) \<and> ch_leaves_qty_lots (the_child cid s) = 12 \<and> po_leaves_qty_lots (the_parent 0 s) = 12"
proof -
  obtain co s ts ids where s: "on_strategy_order E demo_sig demo_start = Some s" "went_out 0 ts demo_sig 12 [co] ids demo_start s"
    and co: "co_qty co = Fin 12" "co_exchange_id co < 2" using demo_order by blast
  obtain cid where ids: "ids = [cid]" using s(2) by (auto simp: went_out_def length_Suc_conv)
  have c: "the_child cid s = new_child 0 ts BUY (ec_states demo_start ! co_exchange_id co) co (zero_child\<lparr>ch_child_id := cid\<rparr>)"
    using s(2) unfolding ids went_out_def by (auto simp: demo_sig_def empty_signal_def)
  have "nb_lot_size (es_book (ec_states demo_start ! co_exchange_id co)) = Fin 1"
    using co(2) by (auto simp: demo_fields demo_cfg_def demo_states demo_state_def one_double_def less_2_cases_iff)
  then have "ch_leaves_qty_lots (the_child cid s) = 12" "working (ch_state (the_child cid s))" "ch_parent_id (the_child cid s) = 0"
    using c co(1) by (simp_all add: new_child_def Let_def to_lots_def working_def)
  then show ?thesis using s unfolding ids went_out_def by (auto simp: demo_sig_def empty_signal_def Let_def)
qed


subsection \<open>Properties\<close>





text \<open>The reports of a run that follow the protocol, and the lots they report on one instrument.\<close>

fun protocol_run :: "Env \<Rightarrow> ExecutionReport list \<Rightarrow> ExecutionCore \<Rightarrow> bool" where
  "protocol_run E [] s = True"
| "protocol_run E (rep # reps) s =
     (protocol_report rep s \<and> (case on_execution_report E rep s of None \<Rightarrow> False | Some s' \<Rightarrow> protocol_run E reps s'))"

definition lots_executed :: "nat \<Rightarrow> ExecutionReport \<Rightarrow> ExecutionCore \<Rightarrow> int" where
  "lots_executed i rep s =
     (let p = the_parent (ch_parent_id (the_child (rep_child_id rep) s)) s
      in if rep_child_id rep < kMaxTotalChildren \<and> is_fill rep \<and> po_instr_id p = i
         then (if po_dir p = BUY then rep_fill_qty_lots rep else - rep_fill_qty_lots rep) else 0)"

fun total_executed :: "Env \<Rightarrow> nat \<Rightarrow> ExecutionReport list \<Rightarrow> ExecutionCore \<Rightarrow> int" where
  "total_executed E i [] s = 0"
| "total_executed E i (rep # reps) s = lots_executed i rep s +
     (case on_execution_report E rep s of None \<Rightarrow> 0 | Some s' \<Rightarrow> total_executed E i reps s')"

lemma executed_is_booked:
  assumes "exposed_core l s" and "protocol_report rep s"
  shows "lots_booked i rep s = lots_executed i rep s"
  using protocol_fill(1) [OF assms] by (auto simp: lots_booked_def lots_executed_def signed_lots_def Let_def)

lemma protocol_reports_book:
  assumes "exposed_core l s" and "protocol_run E reps s"
  shows "\<exists>s'. run_reports E reps s = Some s' \<and> exposed_core l s' \<and> net_of i s' = net_of i s + total_executed E i reps s"
  using assms
proof (induction reps arbitrary: s)
  case (Cons rep reps)
  have p: "protocol_report rep s" using Cons.prems(2) by simp
  have ok: "core_ok s" using Cons.prems(1) by (simp add: exposed_core_def)
  obtain s1 where s1: "on_execution_report E rep s = Some s1" "report_effect rep s s1"
    using on_execution_report_ok [OF ok protocol_report_ok [OF Cons.prems(1) p], of E] by blast
  have x1: "exposed_core l s1" using on_execution_report_exposed [OF Cons.prems(1) p s1(1)] .
  obtain s' where "run_reports E reps s1 = Some s'" "exposed_core l s'" "net_of i s' = net_of i s1 + total_executed E i reps s1"
    using Cons.IH [OF x1] Cons.prems(2) s1(1) by auto
  then show ?case using s1(1) report_books [OF s1(2), of i] executed_is_booked [OF Cons.prems(1) p, of i] by simp
qed simp



text \<open>C7: What the router decides is what the exchanges get.  A signal that the gate approves, that finds a
  free parent slot and that the risk checks pass is routed with the books of the core, its own side
  and limit (rounded to ticks), and its clamped quantity.  If the router offers nothing, the signal is
  rejected for want of liquidity, nothing is sent and the position table is unchanged.  Otherwise, with room in the
  child pool and in the gateway queues, the new parent has one working child for each of the first
  sixteen orders, with that order's exchange, price and lots; the queue of each exchange grows by
  exactly the messages for its children, in order; nothing else of the children changes; and unless
  orders were cut off the whole quantity is reserved.\<close>

theorem accepted_signal_dispatched:
  assumes "core_ok s" and "approve (ec_gate s) sig (ec_stdin s) = (True, inp)" and "alloc_parent (ec_pool s) = (Some pid, P)"
    and "q = clamp_reduce_only_sig (ec_pos s) sig" and "0 < q" and "validate (ec_risk s) (ec_pos s) (sig\<lparr>sig_qty_lots := q\<rparr>) = RR_OK"
    and "length (ec_states s) \<le> kMaxExchanges" and "card (live_children (ec_pool s)) + kMaxChildrenPerParent \<le> kMaxTotalChildren"
    and "gw_room kMaxChildrenPerParent s"
  shows "\<exists>ctx buf s'. signal_context E sig q s ctx \<and> router_orders E sig ctx s = Some buf \<and> on_strategy_order E sig s = Some s' \<and>
    (if buf = [] then live_parents (ec_pool s') = live_parents (ec_pool s) \<and> ec_pos s' = ec_pos s \<and> ec_gateways s' = ec_gateways s \<and>
       pushed_reject (sig_instr_id sig) (sig_dir sig) (sig_strategy_id sig) (sig_qty_lots sig) NO_LIQUIDITY s s'
     else (\<exists>ts ids. went_out pid ts sig q (take kMaxChildrenPerParent buf) ids s s') \<and>
       (length buf \<le> kMaxChildrenPerParent \<longrightarrow> ec_pos s' = upd_instr (sig_instr_id sig) (reserve_open (sig_dir sig) q) (ec_pos s)))"
proof -
  have "length (ec_states s) \<le> 5" "card (live_children (ec_pool s)) + 16 \<le> 32768" "gw_room 16 s" using assms(7-9) by simp_all
  from accepted_signal_sends [OF assms(1-6) this] show ?thesis unfolding kMaxChildrenPerParent_def .
qed


theorem accepted_signal_dispatched_witness:
  "\<exists>s ts ids co. on_strategy_order demo_env demo_sig demo_start = Some s \<and> went_out 0 ts demo_sig 12 [co] ids demo_start s \<and>
     co_qty co = Fin 12 \<and> co_price co = Fin 100"
proof -
  have n: "length (ec_states demo_start) \<le> kMaxExchanges" by (simp add: demo_fields demo_cfg_def demo_states)
  have c: "card (live_children (ec_pool demo_start)) + kMaxChildrenPerParent \<le> kMaxTotalChildren" "gw_room kMaxChildrenPerParent demo_start" using demo_room by simp_all
  obtain P where P: "alloc_parent (ec_pool demo_start) = (Some 0, P)" using demo_slot by blast
  note d = accepted_signal_dispatched [OF demo_start_ok demo_accept(1) P demo_accept(2) [symmetric] _ demo_accept(3) n c, of demo_env,
      unfolded kMaxChildrenPerParent_def]
  have "\<exists>co s ts ids. on_strategy_order demo_env demo_sig demo_start = Some s \<and> went_out 0 ts demo_sig 12 [co] ids demo_start s \<and>
      co_qty co = Fin 12 \<and> co_price co = Fin 100 \<and> co_exchange_id co < 2"
    by (rule demo_pick [OF d]) simp
  then show ?thesis by blast
qed

end
