(* ===== verification/Mock_Market.thy ===== *)
theory Mock_Market
  imports Order_Exposure
begin

text \<open>
  The synthetic market of the two example programs, \<^verbatim>\<open>src/main_example.cpp\<close> and
  \<^verbatim>\<open>src/oms_example.cpp\<close>: five exchanges with twenty levels on each side, the fees, the names.  The
  two programs have a copy of \<^verbatim>\<open>populate_mock_exchange\<close> each; they differ in two members of the book.

  The lemmas: the book that is filled in is well-formed, sorted best price first on both sides with a
  spread of one tick, and each level shows the intended lots or one less (\<^verbatim>\<open>to_lots\<close> truncates).
\<close>

subsection \<open>Filling in a book\<close>

definition mock_lots :: "double \<Rightarrow> nat \<Rightarrow> qty_t" where
  "mock_lots qty_per_level i = to_lots (qty_per_level * (lit (1/2) + lit (1/2) * of_i64 (int (i + 1)))) (lit (1/1000))"

text \<open>The loop over the levels of one side, and \<^verbatim>\<open>recompute_cumulative\<close> after it.\<close>

definition mock_side :: "(nat \<Rightarrow> price_t) \<Rightarrow> double \<Rightarrow> LevelSide \<Rightarrow> LevelSide option" where
  "mock_side price qty_per_level side =
     recompute_cumulative (fold (\<lambda>i ls. ls\<lparr>price_ticks := (price_ticks ls)[i := price i],
         qty_lots := (qty_lots ls)[i := mock_lots qty_per_level i]\<rparr>) [0..<kMaxDepth] (side\<lparr>ls_count := kMaxDepth\<rparr>))"

definition populate_mock_exchange ::
  "ExchangeState \<Rightarrow> nat \<Rightarrow> double \<Rightarrow> double \<Rightarrow> double \<Rightarrow> double \<Rightarrow> FeeMatrix \<Rightarrow> ExchangeState option" where
  "populate_mock_exchange state ex_id best_ask tick qty_per_level rtt_us fees = do {
     let book = (invalidate_book (es_book state))\<lparr>last_sequence := 0, nb_last_update_ns := 0, nb_tick_size := tick,
       nb_lot_size := lit (1/1000)\<rparr>;
     let state = state\<lparr>es_book := book, es_exchange_id := ex_id, es_enabled := True, es_fees := fees,
       es_lot := \<lparr>lc_lot_size = lit (1/1000), lc_tick_size = tick, lc_min_qty = lit (1/1000), lc_max_qty = lit 20, lc_max_notional = 0\<rparr>,
       es_latency := (es_latency state)\<lparr>ewma_rtt_us := rtt_us\<rparr>\<rparr>;
     let book = book\<lparr>is_valid := True, nb_exchange_id := ex_id, last_sequence := 1\<rparr>;
     let best_ask_ticks = to_ticks best_ask tick;
     a \<leftarrow> mock_side (\<lambda>i. best_ask_ticks + int i) qty_per_level (asks book);
     b \<leftarrow> mock_side (\<lambda>i. (best_ask_ticks - 1) - int i) qty_per_level (bids book);
     Some (state\<lparr>es_book := book\<lparr>asks := a, bids := b\<rparr>\<rparr>) }"

text \<open>The copy in \<^verbatim>\<open>src/oms_example.cpp\<close>.\<close>

definition oms_populate_mock_exchange ::
  "ExchangeState \<Rightarrow> nat \<Rightarrow> double \<Rightarrow> double \<Rightarrow> double \<Rightarrow> double \<Rightarrow> FeeMatrix \<Rightarrow> ExchangeState option" where
  "oms_populate_mock_exchange state ex_id best_ask tick qty_per_level rtt_us fees = do {
     let book = (invalidate_book (es_book state))\<lparr>last_sequence := 1, nb_tick_size := tick, nb_lot_size := lit (1/1000),
       is_valid := True, nb_exchange_id := ex_id\<rparr>;
     let state = state\<lparr>es_book := book, es_exchange_id := ex_id, es_enabled := True, es_fees := fees,
       es_lot := \<lparr>lc_lot_size = lit (1/1000), lc_tick_size = tick, lc_min_qty = lit (1/1000), lc_max_qty = lit 20, lc_max_notional = 0\<rparr>,
       es_latency := (es_latency state)\<lparr>ewma_rtt_us := rtt_us\<rparr>\<rparr>;
     let best_ask_ticks = to_ticks best_ask tick;
     a \<leftarrow> mock_side (\<lambda>i. best_ask_ticks + int i) qty_per_level (asks book);
     b \<leftarrow> mock_side (\<lambda>i. (best_ask_ticks - 1) - int i) qty_per_level (bids book);
     Some (state\<lparr>es_book := book\<lparr>asks := a, bids := b\<rparr>\<rparr>) }"

definition exchange_name :: "nat \<Rightarrow> string" where
  "exchange_name i = (if i < 5 then [''BINANCE'', ''BYBIT'', ''OKX'', ''DERIBIT'', ''BITGET''] ! i else ''???'')"

text \<open>The (maker, taker) rates that both programs write into the fee matrix.\<close>

definition mock_fees :: FeeMatrix where
  "mock_fees = \<lparr>rates = [(- lit (1/10000), lit (4/10000)), (lit (1/10000), lit (6/10000)), (- lit (2/10000), lit (5/10000)),
     (0, lit (3/10000)), (lit (2/10000), lit (6/10000))]\<rparr>"

subsection \<open>The lots of a level\<close>

lemma rnd_halves:
  assumes "\<bar>n\<bar> < 2 ^ 53"
  shows "rnd (of_int n / 2) = Fin (of_int n / 2)"
proof (cases "n = 0")
  case False
  let ?x = "of_int n / 2 :: rat"
  have a: "\<bar>?x\<bar> = of_int \<bar>n\<bar> / 2" by simp
  have "of_int \<bar>n\<bar> < (2 ^ 53 :: rat)" using assms by (metis of_int_less_iff of_int_numeral of_int_power)
  then have lt: "\<bar>?x\<bar> < 2 ^ 52" unfolding a by simp
  have "2 powi ilog2 \<bar>?x\<bar> \<le> \<bar>?x\<bar>" using False by (intro ilog2_bounds(1)) simp
  also have "\<dots> < 2 powi 52" using lt by simp
  finally have "ilog2 \<bar>?x\<bar> < 52" by (rule powi2_less_cancel)
  then have "fexp ?x \<le> -1" by (simp add: fexp_def)
  then have "rnd_val ?x = ?x" using False by (intro rnd_val_grid [where m = n and e = "-1"]) (simp_all add: power_int_minus)
  moreover have "(2::rat) ^ 52 < 2 ^ 1023" by simp
  ultimately show ?thesis using rnd_Fin [of ?x] lt by (metis order.strict_trans)
qed simp

lemma rnd_near:
  assumes "1 / 2 ^ 20 \<le> x" and "x \<le> 2 ^ 30"
  obtains y where "rnd x = Fin y" and "x * (1 - 1 / 2 ^ 53) \<le> y" and "y \<le> x * (1 + 1 / 2 ^ 53)"
proof -
  have p: "0 < x" using assms(1) by (rule less_le_trans [rotated]) simp
  have "2 powi (-1022) \<le> (2 powi (-20) :: rat)" by (rule powi2_le) simp
  then have lo: "2 powi (-1022) \<le> \<bar>x\<bar>" using assms(1) p by (simp add: power_int_minus)
  have "(2::rat) ^ 30 < 2 ^ 1023" by simp
  then have "\<bar>x\<bar> < 2 ^ 1023" using assms(2) p by (simp only: abs_of_pos)
  with lo obtain y where y: "rnd x = Fin y" "\<bar>y - x\<bar> \<le> \<bar>x\<bar> / 2 ^ 53" by (rule rnd_relerr)
  have "y - x \<le> x / 2 ^ 53" "- (x / 2 ^ 53) \<le> y - x" using y(2) p by linarith+
  then show ?thesis using y(1) by (intro that [of y]) (simp_all add: field_simps)
qed

lemma lot_thousandth:
  obtains l where "lit (1/1000) = Fin l" and "1/1000 \<le> l" and "l * (1 - 1 / 2 ^ 53) \<le> 1/1000"
  using lit_thousandth by (rule that) simp_all

lemma mock_scale:
  assumes "i < 20"
  shows "lit (1/2) + lit (1/2) * of_i64 (int (i + 1)) = Fin (of_nat (i + 2) / 2)"
proof -
  have "of_i64 (int (i + 1)) = Fin (of_int (int (i + 1)))" unfolding of_i64_def using assms by (intro rnd_of_int) simp
  then have p: "lit (1/2) * of_i64 (int (i + 1)) = Fin (of_int (int (i + 1)) / 2)"
    using rnd_half rnd_halves [of "int (i + 1)"] assms by (simp add: lit_def)
  have "rnd (1/2 + (1 + rat_of_nat i) / 2) = rnd ((2 + rat_of_nat i) / 2)" by (rule arg_cong [of _ _ rnd]) simp
  then show ?thesis unfolding p using rnd_half rnd_halves [of "int (i + 2)"] assms by (simp add: lit_def)
qed

text \<open>A quantity times a factor, divided by the lot size: the roundings move the result by less than one.\<close>

lemma scaled_near:
  assumes "1/10 \<le> q" and "q \<le> 1" and "1 \<le> h" and "h \<le> 21/2" and "n = q * 1000 * h"
  obtains z where "lit q * Fin h / lit (1/1000) = Fin z" and "\<bar>z - n\<bar> < 1"
proof -
  let ?e = "1 / 2 ^ 53 :: rat"
  obtain a where a: "rnd q = Fin a" "q * (1 - ?e) \<le> a" "a \<le> q * (1 + ?e)"
    by (rule rnd_near [of q]) (use assms(1,2) in simp_all)
  have a0: "1/20 \<le> a" "a \<le> 2" using a(2,3) assms(1,2) by (simp_all add: field_simps)
  have ah: "1/20 * 1 \<le> a * h" "a * h \<le> 2 * (21/2)" using a0 assms(3,4) by (intro mult_mono; simp)+
  obtain b where b: "rnd (a * h) = Fin b" "a * h * (1 - ?e) \<le> b" "b \<le> a * h * (1 + ?e)"
    by (rule rnd_near [of "a * h"]) (use ah in simp_all)
  obtain l where l: "lit (1/1000) = Fin l" "1/1000 \<le> l" "l * (1 - ?e) \<le> 1/1000" by (rule lot_thousandth)
  have bp: "1/40 \<le> b" "b \<le> 30" using b(2,3) ah by (simp_all add: field_simps)
  have c: "b * 1000 * (1 - ?e) \<le> b / l" "b / l \<le> b * 1000"
    using bp l(2) mult_left_mono [OF l(3), of "b * 1000"] mult_left_mono [OF l(2), of "b * 1000"] by (simp_all add: field_simps)
  obtain z where z: "rnd (b / l) = Fin z" "b / l * (1 - ?e) \<le> z" "z \<le> b / l * (1 + ?e)"
    by (rule rnd_near [of "b / l"]) (use c bp in \<open>simp_all add: field_simps\<close>)
  have nb: "0 \<le> n" "n \<le> 10500" using mult_mono [of "q * 1000" 1000 h "21/2"] assms by simp_all
  define w p where "w = a * h" and "p = q * h"
  have n: "n = 1000 * p" using assms(5) by (simp add: p_def)
  have "q * (1 - ?e) * h \<le> w" "w \<le> q * (1 + ?e) * h" unfolding w_def using assms(3) by (intro mult_right_mono a; simp)+
  then have w: "p * (1 - ?e) \<le> w" "w \<le> p * (1 + ?e)" by (simp_all add: p_def mult_ac)
  have b1: "n * (1 - ?e) * (1 - ?e) \<le> b * 1000" "b * 1000 \<le> n * (1 + ?e) * (1 + ?e)"
    unfolding n using w b(2,3) [folded w_def] by (simp_all add: field_simps)
  have "z \<le> n * (1 + ?e) * (1 + ?e) * (1 + ?e)"
    using mult_right_mono [OF order_trans [OF c(2) b1(2)], of "1 + ?e"] z(3) by simp
  moreover have "n * (1 - ?e) * (1 - ?e) * (1 - ?e) * (1 - ?e) \<le> z"
    using mult_right_mono [OF order_trans [OF mult_right_mono [OF b1(1), of "1 - ?e"] c(1)], of "1 - ?e"] z(2) by simp
  ultimately have "\<bar>z - n\<bar> < 1" using nb by (simp add: abs_less_iff field_simps)
  moreover have "lit q * Fin h / lit (1/1000) = Fin z" using a(1) b(1) l(1,2) z(1) by (simp add: lit_def)
  ultimately show ?thesis by (rule that [rotated])
qed

text \<open>The intended lots of a level are \<open>N\<close>; at most one is lost.\<close>

lemma mock_lots_near:
  assumes "1/10 \<le> q" and "q \<le> 1" and "i < 20" and "q * 500 * of_nat (i + 2) = of_int N"
  shows "N - 1 \<le> mock_lots (lit q) i" and "mock_lots (lit q) i \<le> N"
proof -
  let ?h = "of_nat (i + 2) / 2 :: rat"
  have h: "1 \<le> ?h" "?h \<le> 21/2" using assms(3) by simp_all
  have n: "of_int N = q * 1000 * ?h" using assms(4) by simp
  obtain z where z: "lit q * Fin ?h / lit (1/1000) = Fin z" "\<bar>z - of_int N\<bar> < 1"
    using assms(1,2) h n by (rule scaled_near)
  have "100 * 1 \<le> q * 1000 * ?h" "q * 1000 * ?h \<le> 1000 * (21/2)" using h assms(1,2) by (intro mult_mono; simp)+
  then have "(100::rat) \<le> of_int N" "of_int N \<le> (10500::rat)" using n by simp_all
  then have N: "100 \<le> N" "N \<le> 10500" by linarith+
  note t = trunc_near [OF z(2)]
  have "mock_lots (lit q) i = to_i64 (Fin z)" unfolding mock_lots_def to_lots_def mock_scale [OF assms(3)] z(1) ..
  also have "\<dots> = trunc_rat z" using t N by simp
  finally show "N - 1 \<le> mock_lots (lit q) i" and "mock_lots (lit q) i \<le> N" using t N by simp_all
qed

text \<open>One is lost at the best price of the third exchange, for instance: 699 lots instead of 700.\<close>

lemma mock_level_short: "mock_lots (lit (70/100)) 0 = 699"
proof -
  let ?l = "1152921504606847 / 2 ^ 60 :: rat" and ?q = "3152519739159347 / 2 ^ 52 :: rat"
  have "rnd (70/100) = Fin (of_int 6305039478318694 * 2 powi (-53))" by (rule rnd_evalI) (simp_all add: power_int_minus)
  then have q: "lit (70/100) = Fin ?q" by (simp add: lit_def power_int_minus)
  have "rnd ?q = Fin (of_int 6305039478318694 * 2 powi (-53))" by (rule rnd_evalI) (simp_all add: power_int_minus)
  then have p: "Fin ?q * Fin 1 = Fin ?q" by (simp add: power_int_minus)
  have "rnd (?q / ?l) = Fin (of_int 6157265115545599 * 2 powi (-43))" by (rule rnd_evalI) (simp_all add: power_int_minus)
  then have "Fin ?q / Fin ?l = Fin (6157265115545599 / 2 ^ 43)" by (simp add: power_int_minus)
  moreover have "lit (1/2) + lit (1/2) * of_i64 (int (0 + 1)) = Fin 1" using mock_scale [of 0] by simp
  ultimately have "mock_lots (lit (70/100)) 0 = to_i64 (Fin (6157265115545599 / 2 ^ 43))"
    unfolding mock_lots_def to_lots_def lit_thousandth by (simp only: q p)
  also have "\<dots> = 699" by (simp add: trunc_rat_def floor_eq_iff)
  finally show ?thesis .
qed

subsection \<open>The book that is filled in\<close>

lemma fill_levels:
  assumes "n \<le> 24" and "length (price_ticks ls) = 24" and "length (qty_lots ls) = 24"
  shows "let r = fold (\<lambda>i ls. ls\<lparr>price_ticks := (price_ticks ls)[i := p i], qty_lots := (qty_lots ls)[i := v i]\<rparr>) [0..<n] ls
    in length (price_ticks r) = 24 \<and> length (qty_lots r) = 24 \<and> cumulative_lots r = cumulative_lots ls \<and> ls_count r = ls_count ls \<and>
      (\<forall>i<n. price_ticks r ! i = p i \<and> qty_lots r ! i = v i)"
  using assms by (induction n) (auto simp: Let_def nth_list_update less_Suc_eq)

lemma mock_side_ok:
  "\<exists>r. mock_side p q (invalidate_side ls) = Some r \<and> wf_side r \<and> ls_count r = 20 \<and>
     (\<forall>i<20. price_ticks r ! i = p i \<and> qty_lots r ! i = mock_lots q i \<and> cumulative_lots r ! i = (\<Sum>j\<le>i. mock_lots q j))"
proof -
  define s where "s = fold (\<lambda>i ls. ls\<lparr>price_ticks := (price_ticks ls)[i := p i], qty_lots := (qty_lots ls)[i := mock_lots q i]\<rparr>) [0..<20]
    ((invalidate_side ls)\<lparr>ls_count := 20\<rparr>)"
  have s: "length (price_ticks s) = 24" "length (qty_lots s) = 24" "length (cumulative_lots s) = 24" "ls_count s = 20"
    "\<forall>i<20. price_ticks s ! i = p i \<and> qty_lots s ! i = mock_lots q i"
    using fill_levels [where n = 20 and ls = "(invalidate_side ls)\<lparr>ls_count := 20\<rparr>" and p = p and v = "mock_lots q"] by (simp_all add: Let_def s_def invalidate_side_def)
  have w: "wf_side s" using s by (simp add: wf_side_def)
  obtain r where r: "recompute_loop 0 0 s = Some r" "wf_side r" "price_ticks r = price_ticks s" "qty_lots r = qty_lots s" "ls_count r = 20"
    "\<forall>j<20. cumulative_lots r ! j = prefix_lots s (Suc j)"
    using recompute_loop_spec [OF w, of 0 0] s(4) by (auto simp: prefix_lots_def)
  have "prefix_lots s k = (\<Sum>j<k. mock_lots q j)" if "k \<le> 20" for k
    using that s(2,5) by (induction k) (simp_all add: prefix_lots_Suc, simp add: prefix_lots_def)
  then have "\<forall>j<20. cumulative_lots r ! j = (\<Sum>i\<le>j. mock_lots q i)" using r(6) by (simp add: lessThan_Suc_atMost)
  moreover have "mock_side p q (invalidate_side ls) = Some r"
    using r(1) by (simp add: mock_side_def recompute_cumulative_def s_def)
  ultimately show ?thesis using r(2-5) s(5) by auto
qed

text \<open>What both copies of the function leave behind, whatever the state held before.\<close>

definition mocked :: "nat \<Rightarrow> double \<Rightarrow> int \<Rightarrow> double \<Rightarrow> double \<Rightarrow> ExchangeState \<Rightarrow> bool" where
  "mocked ex tick t q rtt st \<longleftrightarrow> es_exchange_id st = ex \<and> es_enabled st \<and> is_valid (es_book st) \<and> last_sequence (es_book st) = 1 \<and>
     nb_tick_size (es_book st) = tick \<and> nb_lot_size (es_book st) = lit (1/1000) \<and>
     lc_min_qty (es_lot st) = lit (1/1000) \<and> lc_max_qty (es_lot st) = lit 20 \<and> ewma_rtt_us (es_latency st) = rtt \<and>
     (\<forall>side\<in>{asks (es_book st), bids (es_book st)}. wf_side side \<and> ls_count side = 20 \<and>
        (\<forall>i<20. qty_lots side ! i = mock_lots q i \<and> cumulative_lots side ! i = (\<Sum>j\<le>i. mock_lots q j))) \<and>
     (\<forall>i<20. price_ticks (asks (es_book st)) ! i = t + int i \<and> price_ticks (bids (es_book st)) ! i = t - 1 - int i)"

lemma populate_mocked:
  "\<exists>st. populate_mock_exchange s0 ex best tick q rtt fees = Some st \<and> mocked ex tick (to_ticks best tick) q rtt st"
  "\<exists>st. oms_populate_mock_exchange s0 ex best tick q rtt fees = Some st \<and> mocked ex tick (to_ticks best tick) q rtt st"
proof -
  let ?t = "to_ticks best tick"
  obtain a where a: "mock_side (\<lambda>i. ?t + int i) q (invalidate_side (asks (es_book s0))) = Some a" "wf_side a" "ls_count a = 20"
    "\<forall>i<20. price_ticks a ! i = ?t + int i \<and> qty_lots a ! i = mock_lots q i \<and> cumulative_lots a ! i = (\<Sum>j\<le>i. mock_lots q j)"
    using mock_side_ok by blast
  obtain b where b: "mock_side (\<lambda>i. ?t - 1 - int i) q (invalidate_side (bids (es_book s0))) = Some b" "wf_side b" "ls_count b = 20"
    "\<forall>i<20. price_ticks b ! i = ?t - 1 - int i \<and> qty_lots b ! i = mock_lots q i \<and> cumulative_lots b ! i = (\<Sum>j\<le>i. mock_lots q j)"
    using mock_side_ok by blast
  show "\<exists>st. populate_mock_exchange s0 ex best tick q rtt fees = Some st \<and> mocked ex tick ?t q rtt st"
    using a b by (simp add: populate_mock_exchange_def invalidate_book_def mocked_def Let_def)
  show "\<exists>st. oms_populate_mock_exchange s0 ex best tick q rtt fees = Some st \<and> mocked ex tick ?t q rtt st"
    using a b by (simp add: oms_populate_mock_exchange_def invalidate_book_def mocked_def Let_def)
qed

end
