(* ===== verification/Sor_Example.thy ===== *)
theory Sor_Example
  imports Mock_Market
begin

text \<open>
  \<^verbatim>\<open>src/main_example.cpp\<close>: the router on the synthetic market, a buy of five coins.  The rows are the
  values that the program prints for each child order; their formatting is left out.

  The lemmas follow the numbers of the example through the router for any exponential function: every
  level of every exchange can be taken, at half its size or more, so the target is filled.
\<close>

subsection \<open>The program\<close>

text \<open>\<open>mem\<close> is the array \<^verbatim>\<open>states\<close> before it is filled in.\<close>

definition sor_states :: "ExchangeState list \<Rightarrow> ExchangeState list option" where
  "sor_states mem = do {
     m0 \<leftarrow> nth_opt mem 0; s0 \<leftarrow> populate_mock_exchange m0 0 (lit 65100) (lit (1/2)) (lit (40/100)) (lit 120) mock_fees;
     m1 \<leftarrow> nth_opt mem 1; s1 \<leftarrow> populate_mock_exchange m1 1 (lit 65101) (lit (1/2)) (lit (25/100)) (lit 350) mock_fees;
     m2 \<leftarrow> nth_opt mem 2; s2 \<leftarrow> populate_mock_exchange m2 2 (lit 65099) (lit (1/2)) (lit (70/100)) (lit 190) mock_fees;
     m3 \<leftarrow> nth_opt mem 3; s3 \<leftarrow> populate_mock_exchange m3 3 (lit (130195/2)) (lit (1/2)) (lit (15/100)) (lit 820) mock_fees;
     m4 \<leftarrow> nth_opt mem 4; s4 \<leftarrow> populate_mock_exchange m4 4 (lit 65102) (lit (1/2)) (lit (30/100)) (lit 260) mock_fees;
     Some [s0, s1, s2, s3, s4] }"

record ChildRow =
  row_exchange :: string
  row_level :: nat
  row_qty :: double
  row_px :: double
  row_ecost :: double
  row_cum :: double

fun child_rows :: "double \<Rightarrow> ChildOrder list \<Rightarrow> ChildRow list" where
  "child_rows cumfill [] = []"
| "child_rows cumfill (o1 # os) =
     (let cumfill = cumfill + co_qty o1
      in \<lparr>row_exchange = exchange_name (co_exchange_id o1), row_level = co_level_idx o1, row_qty = co_qty o1, row_px = co_price o1,
          row_ecost = co_effective_cost o1, row_cum = cumfill\<rparr> # child_rows cumfill os)"

definition sor_ctx :: "ExchangeState list \<Rightarrow> RoutingContext" where
  "sor_ctx states = \<lparr>ctx_states = states, ctx_active_exchanges = kMaxExchanges, ctx_dir = BUY, ctx_target_lots = to_lots (lit 5) (lit (1/1000)),
     ctx_limit_price = lit 65115, ctx_reference_lot_size = 0, ctx_decision_ns = 0, ctx_short_vol_factor = lit (3/10),
     ctx_book_imbalance = lit (15/100)\<rparr>"

text \<open>The exit code, the result and the rows.\<close>

definition sor_main :: "(double \<Rightarrow> double) \<Rightarrow> ExchangeState list \<Rightarrow> (int \<times> SplitResult \<times> ChildRow list) option" where
  "sor_main expf mem = do {
     states \<leftarrow> sor_states mem;
     (result, out_buf) \<leftarrow> calculate_optimal_split expf \<lparr>eng_fees = mock_fees\<rparr> (sor_ctx states) [];
     Some (if sr_success result then 0 else 1, result, child_rows 0 out_buf) }"

subsection \<open>Non-negative doubles up to a bound\<close>

definition ranged :: "double \<Rightarrow> int \<Rightarrow> bool" where
  "ranged a n \<longleftrightarrow> (\<exists>x. a = Fin x \<and> 0 \<le> x \<and> x \<le> of_int n)"

lemma rangedE:
  assumes "ranged a n"
  obtains x where "a = Fin x" and "0 \<le> x" and "x \<le> of_int n"
  using assms by (auto simp: ranged_def)

lemma ranged_rnd:
  assumes "0 \<le> x" and "x \<le> of_int n" and "n < 2 ^ 53"
  shows "ranged (rnd x) n"
proof -
  have "0 \<le> (of_int n :: rat)" using assms(1,2) by linarith
  then have h: "rnd (of_int n) = Fin (of_int n)" using assms(3) by (intro rnd_of_int) simp
  obtain u where "rnd x = Fin u" "0 \<le> u" "u \<le> of_int n" using rnd_0_1(1) h assms(1,2) by (rule rnd_between)
  then show ?thesis by (auto simp: ranged_def)
qed

lemma ranged_lit: "0 \<le> x \<Longrightarrow> x \<le> of_int n \<Longrightarrow> n < 2 ^ 53 \<Longrightarrow> ranged (lit x) n"
  unfolding lit_def by (rule ranged_rnd)

lemma ranged_times:
  assumes "ranged a m" and "ranged b n" and "m * n < 2 ^ 53"
  shows "ranged (a * b) (m * n)"
proof -
  obtain x where x: "a = Fin x" "0 \<le> x" "x \<le> of_int m" using assms(1) by (rule rangedE)
  obtain y where y: "b = Fin y" "0 \<le> y" "y \<le> of_int n" using assms(2) by (rule rangedE)
  have "x * y \<le> of_int m * of_int n" using x y by (intro mult_mono) auto
  then have "ranged (rnd (x * y)) (m * n)" using x y assms(3) by (intro ranged_rnd) simp_all
  then show ?thesis using x(1) y(1) by simp
qed

lemma ranged_plus:
  assumes "ranged a m" and "ranged b n" and "m + n < 2 ^ 53"
  shows "ranged (a + b) (m + n)"
proof -
  obtain x where x: "a = Fin x" "0 \<le> x" "x \<le> of_int m" using assms(1) by (rule rangedE)
  obtain y where y: "b = Fin y" "0 \<le> y" "y \<le> of_int n" using assms(2) by (rule rangedE)
  have "ranged (rnd (x + y)) (m + n)" using x y assms(3) by (intro ranged_rnd) simp_all
  then show ?thesis using x(1) y(1) by simp
qed

lemma ranged_round:
  assumes "ranged a n" and "n < 2 ^ 53"
  shows "0 \<le> to_i64 (std_round a)" and "to_i64 (std_round a) \<le> n"
proof -
  obtain x where x: "a = Fin x" "0 \<le> x" "x \<le> of_int n" using assms(1) by (rule rangedE)
  have "0 \<le> round_away x" "round_away x \<le> n" using x(2,3) by (simp_all add: round_away_def floor_le_iff)
  then show "0 \<le> to_i64 (std_round a)" and "to_i64 (std_round a) \<le> n" using x(1) assms(2) by simp_all
qed

lemma ranged_one: "ranged 1 1"
  by (simp add: ranged_def one_double_def)

lemma ranged_pos: "ranged a n \<Longrightarrow> ranged (if a > 0 then a else 0) n"
  by (auto simp: ranged_def zero_double_def)

subsection \<open>One exchange of the example\<close>

text \<open>The extra cost of an exchange stays far from the limits of the integers.\<close>

lemma cost_adj_ranged:
  assumes "ranged (ewma_rtt_us lat) 1000" and "ranged v 1" and "ranged d 1"
  shows "ranged (dynamic_cost_adj v d lat) 9000"
proof -
  have b: "ranged (kPenaltyBpsPerUs * get_rtt_us lat * lit (1/10000)) (1 * 1000 * 1)"
    unfolding kPenaltyBpsPerUs_def get_rtt_us_def by (intro ranged_times ranged_lit assms(1)) simp_all
  have v: "ranged (1 + kVolSensitivity * v) (1 + 2 * 1)"
    unfolding kVolSensitivity_def by (intro ranged_plus ranged_times ranged_lit ranged_one assms(2)) simp_all
  have d: "ranged (1 + kImbSensitivity * (if d > 0 then d else 0)) (1 + 2 * 1)"
    unfolding kImbSensitivity_def by (intro ranged_plus ranged_times ranged_lit ranged_one ranged_pos assms(3)) simp_all
  show ?thesis using ranged_times [OF ranged_times [OF b v] d] by (simp add: dynamic_cost_adj_def Let_def)
qed

lemma mock_fee: "ex < 5 \<Longrightarrow> \<exists>k. fee_taker mock_fees ex = Some k \<and> ranged k 1"
proof -
  assume "ex < 5"
  then have "ex \<in> {0, 1, 2, 3, 4}" by auto
  then show ?thesis by (auto simp: fee_taker_def mock_fees_def intro!: ranged_lit)
qed

lemma sor_inputs:
  obtains v b where "lit (3/10) = Fin v" and "0 \<le> v" and "v \<le> 1" and "lit (15/100) = Fin b" and "0 < b" and "b \<le> 1"
proof -
  obtain v where v: "lit (3/10) = Fin v" "0 \<le> v" "v \<le> 1" using lit_unit [of "3/10"] by auto
  have e: "rnd (1/8) = Fin (of_int (2 ^ 52) * 2 powi (-55))" by (rule rnd_evalI) (simp_all add: power_int_minus)
  then have "rnd (1/8) = Fin (1/8)" by (simp add: power_int_minus)
  then obtain b where "lit (15/100) = Fin b" "1/8 \<le> b" "b \<le> 1" using rnd_between [of "1/8" 1 "15/100"] by (auto simp: lit_def)
  then show ?thesis using v that [of v b] by auto
qed

lemma sor_imbalance: "directional_imb_of (sor_ctx states) = lit (15/100)"
  by (rule sor_inputs) (simp add: directional_imb_of_def sor_ctx_def zero_double_def)

lemma lot_quotients:
  assumes "lit (1/1000) = Fin l"
  shows "Fin l / Fin l = 1" and "19999 \<le> to_i64 (lit 20 / Fin l)"
proof -
  have l: "l = 1152921504606847 / 2 ^ 60" using assms lit_thousandth by simp
  show "Fin l / Fin l = 1" unfolding l by (simp add: one_double_def)
  obtain y where y: "rnd (20 / l) = Fin y" "20 / l * (1 - 1 / 2 ^ 53) \<le> y" "y \<le> 20 / l * (1 + 1 / 2 ^ 53)"
    by (rule rnd_near [of "20 / l"]) (simp_all add: l)
  have "19999 \<le> y" "y \<le> 20001" using y(2,3) by (simp_all add: l)
  then have "19999 \<le> \<lfloor>y\<rfloor>" "\<lfloor>y\<rfloor> \<le> 20001" "0 \<le> y" by (simp_all add: le_floor_iff floor_le_iff)
  then show "19999 \<le> to_i64 (lit 20 / Fin l)" using y(1) by (simp add: lit_def l [symmetric] trunc_rat_def) (simp add: l)
qed

lemma mock_cursor:
  assumes "mocked ex (lit (1/2)) t (lit q) (lit rtt) st" and "ex < 5" and "0 \<le> t" and "t \<le> 200000" and "0 \<le> rtt" and "rtt \<le> 1000"
    and "exp_ok expf"
  obtains c f where "make_cursor expf \<lparr>eng_fees = mock_fees\<rparr> (sor_ctx states) (lit (1/1000)) st = Some c" and "cu_levels c = asks (es_book st)"
    and "cu_dir_sign c = 1" and "0 \<le> cu_penalty_ticks c" and "cu_penalty_ticks c \<le> 1800200000" and "cu_limit_ticks c = 130230"
    and "cu_min_lots c = 1" and "19999 \<le> cu_max_lots c" and "cu_lot_ratio c = 1" and "cu_fill_rate c = Fin f" and "1/2 \<le> f" and "f \<le> 1"
proof -
  obtain v b where vb: "lit (3/10) = Fin v" "0 \<le> v" "v \<le> 1" "lit (15/100) = Fin b" "0 < b" "b \<le> 1" by (rule sor_inputs)
  obtain l where l: "lit (1/1000) = Fin l" by (rule lot_thousandth)
  have m: "es_exchange_id st = ex" "nb_tick_size (es_book st) = lit (1/2)" "nb_lot_size (es_book st) = Fin l" "lc_min_qty (es_lot st) = Fin l"
    "lc_max_qty (es_lot st) = lit 20" "ewma_rtt_us (es_latency st) = lit rtt" "ls_count (asks (es_book st)) = 20"
    "price_ticks (asks (es_book st)) ! 0 = t" "length (price_ticks (asks (es_book st))) = 24"
    using assms(1) l by (auto simp: mocked_def wf_side_def)
  obtain k where k: "fee_taker mock_fees ex = Some k" "ranged k 1" using mock_fee [OF assms(2)] by blast
  obtain x where x: "lit rtt = Fin x" "0 \<le> x" "x \<le> 1000" using ranged_lit [of rtt 1000] assms(5,6) by (auto elim: rangedE)
  have adj: "ranged (dynamic_cost_adj (Fin v) (Fin b) (es_latency st)) 9000"
    using vb x m(6) by (intro cost_adj_ranged) (simp_all add: ranged_def)
  have "of_i64 t = Fin (of_int t)" unfolding of_i64_def using assms(3,4) by (intro rnd_of_int) simp
  then have "ranged (of_i64 t) 200000" using assms(3,4) by (simp add: ranged_def)
  then have p: "ranged (of_i64 t * (k + dynamic_cost_adj (Fin v) (Fin b) (es_latency st))) (200000 * (1 + 9000))"
    using k(2) adj by (intro ranged_times ranged_plus) simp_all
  have p: "0 \<le> to_i64 (std_round (of_i64 t * (k + dynamic_cost_adj (Fin v) (Fin b) (es_latency st))))"
    "to_i64 (std_round (of_i64 t * (k + dynamic_cost_adj (Fin v) (Fin b) (es_latency st)))) \<le> 1800200000"
    using ranged_round [OF p] by simp_all
  obtain f where f: "estimate_fill_rate expf (Fin x) (Fin v) (Fin b) = Fin f" "1/2 \<le> f" "f \<le> 1"
    by (rule fill_rate_half [OF assms(7), of x v b]) (use x vb in simp_all)
  have lim: "to_i64 (std_round (lit 65115 / lit (1/2))) = 130230" using rnd_half by (simp add: lit_def)
  have c: "ctx_dir (sor_ctx states) = BUY" "ctx_limit_price (sor_ctx states) = lit 65115" "ctx_short_vol_factor (sor_ctx states) = Fin v" "lit 65115 > 0"
    using vb by (simp_all add: sor_ctx_def) (simp add: lit_def zero_double_def)
  have imb: "directional_imb_of (sor_ctx states) = Fin b" using sor_imbalance vb(4) by simp
  have n0: "nth_opt (price_ticks (asks (es_book st))) 0 = Some t" using m(8,9) by (simp add: nth_opt_def)
  define cu where "cu = the (make_cursor expf \<lparr>eng_fees = mock_fees\<rparr> (sor_ctx states) (lit (1/1000)) st)"
  have cu: "make_cursor expf \<lparr>eng_fees = mock_fees\<rparr> (sor_ctx states) (lit (1/1000)) st = Some cu"
    unfolding cu_def using m(1,7) k(1) n0 by (simp add: make_cursor_def Let_def c book_side_def side_idx_for_def)
  have *: "cu_levels cu = asks (es_book st)" "cu_dir_sign cu = 1" "0 \<le> cu_penalty_ticks cu" "cu_penalty_ticks cu \<le> 1800200000"
    "cu_limit_ticks cu = 130230" "cu_min_lots cu = 1" "19999 \<le> cu_max_lots cu" "cu_lot_ratio cu = 1" "cu_fill_rate cu = Fin f"
    unfolding cu_def using m k(1) n0 p lot_quotients [OF l] lim f(1) x(1) l
    by (simp_all add: make_cursor_def Let_def c book_side_def side_idx_for_def imb get_rtt_us_def one_double_def)
  show ?thesis using that [OF cu * f(2,3)] .
qed

text \<open>A level offers between half of what it shows and all of it.\<close>

lemma half_offered:
  assumes "cu_fill_rate c = Fin f" and "1/2 \<le> f" and "f \<le> 1" and "cu_lot_ratio c = 1" and "2 \<le> n" and "n < cu_max_lots c" and "n < 2 ^ 50"
  shows "n div 2 \<le> adj_lots c n" and "canonical_lots c (adj_lots c n) = adj_lots c n"
proof -
  have i: "of_i64 n = Fin (of_int n)" unfolding of_i64_def using assms(5,7) by (intro rnd_of_int) simp
  have r: "rnd (of_int n / 2) = Fin (of_int n / 2)" "rnd (of_int n) = Fin (of_int n)"
    using rnd_halves [of n] rnd_of_int [of n] assms(5,7) by simp_all
  have "of_int n / 2 \<le> of_int n * f" using mult_left_mono [OF assms(2), of "of_int n"] assms(5) by simp
  moreover have "of_int n * f \<le> of_int n" using mult_left_mono [OF assms(3), of "of_int n"] assms(5) by simp
  ultimately obtain u where u: "rnd (of_int n * f) = Fin u" "of_int n / 2 \<le> u" "u \<le> of_int n" using rnd_between [OF r] by blast
  have "n div 2 \<le> \<lfloor>u\<rfloor>" using u(2) by (simp add: le_floor_iff)
  moreover have "\<lfloor>u\<rfloor> \<le> n" "0 \<le> u" using u(2,3) assms(5) by (simp add: floor_le_iff, simp)
  moreover have "u < 9223372036854775808"
  proof -
    have "of_int n < (2 ^ 50 :: rat)" using assms(7) by (metis of_int_less_iff of_int_numeral of_int_power)
    then show ?thesis using u(3) by simp
  qed
  ultimately have a: "adj_lots c n = \<lfloor>u\<rfloor>" "n div 2 \<le> \<lfloor>u\<rfloor>" "\<lfloor>u\<rfloor> \<le> n" "0 \<le> \<lfloor>u\<rfloor>"
    using i u(1) assms(1,6,7) by (simp_all add: adj_lots_def Let_def trunc_rat_def)
  then show "n div 2 \<le> adj_lots c n" by simp
  define k where "k = \<lfloor>u\<rfloor>"
  have "rnd (of_int k) = Fin (of_int k)" using a(3,4) [folded k_def] assms(7) by (intro rnd_of_int) simp
  then show "canonical_lots c (adj_lots c n) = adj_lots c n"
    using a [folded k_def] assms(4,7) by (simp add: canonical_lots_def of_i64_def one_double_def)
qed

text \<open>So every level of an exchange of the example is taken.\<close>

lemma mock_takeable:
  assumes "mocked ex (lit (1/2)) t (lit q) (lit rtt) st" and "ex < 5" and "0 \<le> t" and "t \<le> 130211" and "0 \<le> rtt" and "rtt \<le> 1000"
    and "exp_ok expf" and "1/10 \<le> q" and "q \<le> 1" and "q * 500 = of_int n" and "length states = 5"
  shows "wf_exchange expf \<lparr>eng_fees = mock_fees\<rparr> (sor_ctx states) (lit (1/1000)) st"
    and "\<exists>c. takeable expf \<lparr>eng_fees = mock_fees\<rparr> (sor_ctx states) (lit (1/1000)) st = map (slice_of c) [0..<20] \<and>
      (\<forall>i<20. (n * int (i + 2) - 1) div 2 \<le> available_lots (slice_of c i) \<and> 0 < available_lots (slice_of c i))"
proof -
  obtain c f where c: "make_cursor expf \<lparr>eng_fees = mock_fees\<rparr> (sor_ctx states) (lit (1/1000)) st = Some c" "cu_levels c = asks (es_book st)"
    "cu_dir_sign c = 1" "0 \<le> cu_penalty_ticks c" "cu_penalty_ticks c \<le> 1800200000" "cu_limit_ticks c = 130230"
    "cu_min_lots c = 1" "19999 \<le> cu_max_lots c" "cu_lot_ratio c = 1" "cu_fill_rate c = Fin f" "1/2 \<le> f" "f \<le> 1"
    by (rule mock_cursor [OF assms(1-3) _ assms(5-7), of states]) (use assms(4) in simp_all)
  have m: "es_exchange_id st = ex" "wf_side (asks (es_book st))" "ls_count (asks (es_book st)) = 20" "es_enabled st" "is_valid (es_book st)"
    "\<forall>i<20. price_ticks (asks (es_book st)) ! i = t + int i \<and> qty_lots (asks (es_book st)) ! i = mock_lots (lit q) i"
    using assms(1) by (auto simp: mocked_def)
  have s: "taken_side (sor_ctx states) st = asks (es_book st)" "dir_sign_of (sor_ctx states) = 1"
    by (simp_all add: taken_side_def book_side_def side_idx_for_def sor_ctx_def dir_sign_of_def)
  show "wf_exchange expf \<lparr>eng_fees = mock_fees\<rparr> (sor_ctx states) (lit (1/1000)) st"
    unfolding wf_exchange_def s c(1) using m c assms(2,4,11)
    by (auto simp: best_first_def level_eff_def mock_fees_def sor_ctx_def)
  have N: "50 \<le> n" "n \<le> 500"
  proof -
    have "50 \<le> q * 500" "q * 500 \<le> 500" using assms(8,9) by simp_all
    then show "50 \<le> n" "n \<le> 500" unfolding assms(10) by linarith+
  qed
  have v: "n * int (i + 2) - 1 \<le> mock_lots (lit q) i" "mock_lots (lit q) i \<le> n * int (i + 2)" if "i < 20" for i
    using mock_lots_near [OF assms(8,9) that, of "n * int (i + 2)"] assms(10) by simp_all
  have b: "100 \<le> n * int (i + 2)" "n * int (i + 2) \<le> 10500" if "i < 20" for i
    using mult_mono [of 50 n 2 "int (i + 2)"] mult_mono [of n 500 "int (i + 2)" 21] N that by simp_all
  have o: "mock_lots (lit q) i div 2 \<le> adj_lots c (mock_lots (lit q) i)" "canonical_lots c (adj_lots c (mock_lots (lit q) i)) = adj_lots c (mock_lots (lit q) i)"
    "49 \<le> mock_lots (lit q) i div 2" "(n * int (i + 2) - 1) div 2 \<le> mock_lots (lit q) i div 2" if "i < 20" for i
    using half_offered [OF c(10-12,9), of "mock_lots (lit q) i"] v [OF that] b [OF that] c(8) by (auto intro: zdiv_mono1)
  have "level_ok c i \<and> emits c i" if "i < 20" for i
    using that o [OF that] m(6) c(2,3,6,7) assms(4) v [OF that] b [OF that]
    by (auto simp: level_ok_def price_ok_def emits_def)
  then have "filter (emits c) (filter (level_ok c) [0..<20]) = [0..<20]" by (simp add: filter_id_conv)
  then have "takeable expf \<lparr>eng_fees = mock_fees\<rparr> (sor_ctx states) (lit (1/1000)) st = map (slice_of c) [0..<20]"
    using m(3-5) c(1,2) by (simp add: takeable_def)
  moreover have "(n * int (i + 2) - 1) div 2 \<le> available_lots (slice_of c i) \<and> 0 < available_lots (slice_of c i)" if "i < 20" for i
    using o [OF that] m(6) c(2) that by (simp add: slice_of_def)
  ultimately show "\<exists>c. takeable expf \<lparr>eng_fees = mock_fees\<rparr> (sor_ctx states) (lit (1/1000)) st = map (slice_of c) [0..<20] \<and>
      (\<forall>i<20. (n * int (i + 2) - 1) div 2 \<le> available_lots (slice_of c i) \<and> 0 < available_lots (slice_of c i))" by blast
qed

subsection \<open>The five exchanges\<close>

text \<open>Best ask in ticks, intended lots of level \<open>i\<close> over \<open>i + 2\<close>, and latency of the five.\<close>

definition sor_exchange :: "nat \<Rightarrow> ExchangeState \<Rightarrow> bool" where
  "sor_exchange ex st \<longleftrightarrow> mocked ex (lit (1/2)) ([130200, 130202, 130198, 130195, 130204] ! ex)
     (lit ([40/100, 25/100, 70/100, 15/100, 30/100] ! ex)) (lit ([120, 350, 190, 820, 260] ! ex)) st"

lemma mock_ticks:
  "to_ticks (lit 65100) (lit (1/2)) = 130200" "to_ticks (lit 65101) (lit (1/2)) = 130202" "to_ticks (lit 65099) (lit (1/2)) = 130198"
  "to_ticks (lit (130195/2)) (lit (1/2)) = 130195" "to_ticks (lit 65102) (lit (1/2)) = 130204"
  using rnd_half rnd_halves [of 130195] by (simp_all add: to_ticks_def lit_def)

lemma sor_states_ok:
  assumes "length mem = 5"
  shows "\<exists>states. sor_states mem = Some states \<and> length states = 5 \<and> (\<forall>ex<5. sor_exchange ex (states ! ex))"
proof -
  note t = mock_ticks
  note p = populate_mocked(1)
  obtain s0 where s0: "populate_mock_exchange (mem ! 0) 0 (lit 65100) (lit (1/2)) (lit (40/100)) (lit 120) mock_fees = Some s0" "sor_exchange 0 s0"
    using p [of "mem ! 0" 0 "lit 65100" "lit (1/2)" "lit (40/100)" "lit 120" mock_fees] unfolding t by (auto simp: sor_exchange_def)
  obtain s1 where s1: "populate_mock_exchange (mem ! 1) 1 (lit 65101) (lit (1/2)) (lit (25/100)) (lit 350) mock_fees = Some s1" "sor_exchange 1 s1"
    using p [of "mem ! 1" 1 "lit 65101" "lit (1/2)" "lit (25/100)" "lit 350" mock_fees] unfolding t by (auto simp: sor_exchange_def)
  obtain s2 where s2: "populate_mock_exchange (mem ! 2) 2 (lit 65099) (lit (1/2)) (lit (70/100)) (lit 190) mock_fees = Some s2" "sor_exchange 2 s2"
    using p [of "mem ! 2" 2 "lit 65099" "lit (1/2)" "lit (70/100)" "lit 190" mock_fees] unfolding t by (auto simp: sor_exchange_def)
  obtain s3 where s3: "populate_mock_exchange (mem ! 3) 3 (lit (130195/2)) (lit (1/2)) (lit (15/100)) (lit 820) mock_fees = Some s3" "sor_exchange 3 s3"
    using p [of "mem ! 3" 3 "lit (130195/2)" "lit (1/2)" "lit (15/100)" "lit 820" mock_fees] unfolding t by (auto simp: sor_exchange_def)
  obtain s4 where s4: "populate_mock_exchange (mem ! 4) 4 (lit 65102) (lit (1/2)) (lit (30/100)) (lit 260) mock_fees = Some s4" "sor_exchange 4 s4"
    using p [of "mem ! 4" 4 "lit 65102" "lit (1/2)" "lit (30/100)" "lit 260" mock_fees] unfolding t by (auto simp: sor_exchange_def)
  have "sor_states mem = Some [s0, s1, s2, s3, s4]"
    unfolding sor_states_def using assms s0(1) s1(1) s2(1) s3(1) s4(1) by (simp add: nth_opt_def)
  moreover have "\<forall>ex<5. sor_exchange ex ([s0, s1, s2, s3, s4] ! ex)"
    using s0(2) s1(2) s2(2) s3(2) s4(2) by (simp add: All_less_Suc numeral_eq_Suc)
  ultimately show ?thesis by simp
qed

lemma sor_exchange_takeable:
  assumes "sor_exchange ex st" and "ex < 5" and "exp_ok expf" and "length states = 5"
  shows "wf_exchange expf \<lparr>eng_fees = mock_fees\<rparr> (sor_ctx states) (lit (1/1000)) st"
    and "\<exists>c. takeable expf \<lparr>eng_fees = mock_fees\<rparr> (sor_ctx states) (lit (1/1000)) st = map (slice_of c) [0..<20] \<and>
      (\<forall>i<20. ([200, 125, 350, 75, 150] ! ex * int (i + 2) - 1) div 2 \<le> available_lots (slice_of c i) \<and> 0 < available_lots (slice_of c i))"
proof -
  have "ex \<in> {0, 1, 2, 3, 4}" using assms(2) by auto
  then have b: "(0::int) \<le> [130200, 130202, 130198, 130195, 130204] ! ex" "[130200, 130202, 130198, 130195, 130204] ! ex \<le> (130211::int)"
    "(0::rat) \<le> [120, 350, 190, 820, 260] ! ex" "[120, 350, 190, 820, 260] ! ex \<le> (1000::rat)"
    "(1/10::rat) \<le> [40/100, 25/100, 70/100, 15/100, 30/100] ! ex" "[40/100, 25/100, 70/100, 15/100, 30/100] ! ex \<le> (1::rat)"
    "[40/100, 25/100, 70/100, 15/100, 30/100] ! ex * 500 = (of_int ([200, 125, 350, 75, 150] ! ex) :: rat)"
    by auto
  note m = mock_takeable [OF assms(1) [unfolded sor_exchange_def] assms(2) b(1-4) assms(3) b(5-7) assms(4)]
  show "wf_exchange expf \<lparr>eng_fees = mock_fees\<rparr> (sor_ctx states) (lit (1/1000)) st" by (rule m(1))
  show "\<exists>c. takeable expf \<lparr>eng_fees = mock_fees\<rparr> (sor_ctx states) (lit (1/1000)) st = map (slice_of c) [0..<20] \<and>
      (\<forall>i<20. ([200, 125, 350, 75, 150] ! ex * int (i + 2) - 1) div 2 \<le> available_lots (slice_of c i) \<and> 0 < available_lots (slice_of c i))"
    by (rule m(2))
qed

lemma five_coins: "to_lots (lit 5) (lit (1/1000)) = 5000"
proof -
  have "rnd (5 / (1152921504606847 / 2 ^ 60)) = Fin (of_int (5000 * 2 ^ 40) * 2 powi (-40))"
    by (rule rnd_evalI) (simp_all add: power_int_minus)
  then show ?thesis unfolding lit_thousandth by (simp add: to_lots_def lit_def power_int_minus)
qed

lemma sor_split_ok:
  assumes "length states = 5" and "\<forall>ex<5. sor_exchange ex (states ! ex)" and "exp_ok expf"
  defines "ctx \<equiv> sor_ctx states" and "eng \<equiv> \<lparr>eng_fees = mock_fees\<rparr>"
  shows "split_ok expf eng ctx (lit (1/1000))" and "\<forall>st\<in>set (ctx_states ctx). canonical_min_lots st (lit (1/1000)) \<le> 1"
    and "ctx_target_lots ctx = 5000" and "5000 \<le> (\<Sum>s\<leftarrow>split_slices expf eng ctx (lit (1/1000)). available_lots s)"
proof -
  let ?r = "lit (1/1000)"
  obtain l where l: "?r = Fin l" "1/1000 \<le> l" by (rule lot_thousandth)
  have sts: "ctx_states ctx = states" "active_states ctx = states" "ctx_active_exchanges ctx = 5"
    using assms(1) by (simp_all add: ctx_def sor_ctx_def active_states_def)
  have ex: "\<exists>ex<5. sor_exchange ex st" if "st \<in> set states" for st using that assms(1,2) by (metis in_set_conv_nth)
  note tk = sor_exchange_takeable [OF _ _ assms(3,1), folded ctx_def eng_def]
  have lots: "nb_lot_size (es_book st) = ?r" "lc_min_qty (es_lot st) = ?r" if "st \<in> set states" for st
    using ex [OF that] by (auto simp: sor_exchange_def mocked_def)
  show "\<forall>st\<in>set (ctx_states ctx). canonical_min_lots st ?r \<le> 1"
    using lots lot_quotients(1) [OF l(1)] l(1) by (simp add: sts canonical_min_lots_def one_double_def)
  show t: "ctx_target_lots ctx = 5000" by (simp add: ctx_def sor_ctx_def five_coins)
  have "resolve_reference_lot_size ctx = Some ?r"
    using assms(1) lots [of "states ! 0"] by (simp add: resolve_reference_lot_size_def ctx_def sor_ctx_def nth_opt_def zero_double_def)
  moreover have "list_all (wf_exchange expf eng ctx ?r) (active_states ctx)" using ex tk(1) by (auto simp: sts list_all_iff)
  ultimately have w: "wf_ctx expf eng ctx ?r" using assms(1) by (simp add: wf_ctx_def sts)
  have "0 < available_lots s" if "s \<in> set (takeable_all expf eng ctx ?r)" for s
  proof -
    obtain st where st: "st \<in> set states" "s \<in> set (takeable expf eng ctx ?r st)" using \<open>s \<in> _\<close> by (auto simp: takeable_all_def sts)
    obtain k where "k < 5" "sor_exchange k st" using ex [OF st(1)] by blast
    from tk(2) [OF this(2,1)] st(2) show ?thesis by auto
  qed
  then show s: "split_ok expf eng ctx ?r" using w t by (simp add: split_ok_def)
  obtain c where c: "takeable expf eng ctx ?r (states ! 0) = map (slice_of c) [0..<20]"
    "\<forall>i<20. (200 * int (i + 2) - 1) div 2 \<le> available_lots (slice_of c i)"
    using tk(2) [of 0 "states ! 0"] assms(2) by auto
  have "(\<Sum>i\<leftarrow>[0..<20]. (200 * int (i + 2) - 1) div 2) \<le> (\<Sum>i\<leftarrow>[0..<20]. available_lots (slice_of c i))"
    using c(2) by (intro sum_list_mono) simp
  moreover have "(\<Sum>i\<leftarrow>[0..<20]. (200 * int (i + 2) - 1) div 2) = 22980" by code_simp
  ultimately have e0: "5000 \<le> (\<Sum>s\<leftarrow>takeable expf eng ctx ?r (states ! 0). available_lots s)" by (simp add: c(1) comp_def)
  obtain st0 rest where r: "states = st0 # rest" using assms(1) by (cases states) auto
  have all: "mset (split_slices expf eng ctx ?r) = mset (takeable_all expf eng ctx ?r)" by (simp add: split_slices_def)
  have "0 \<le> (\<Sum>s\<leftarrow>concat (map (takeable expf eng ctx ?r) rest). available_lots s)"
    using s by (intro sum_list_nonneg) (auto simp: split_ok_def takeable_all_def sts r intro: less_imp_le)
  then have "5000 \<le> (\<Sum>s\<leftarrow>takeable_all expf eng ctx ?r. available_lots s)" using e0 by (simp add: takeable_all_def sts r)
  then show "5000 \<le> (\<Sum>s\<leftarrow>split_slices expf eng ctx ?r. available_lots s)"
    using all by (metis mset_map sum_mset_sum_list)
qed

lemma sum_list_nonzero: "sum_list (filter (\<lambda>f. f \<noteq> 0) xs) = (sum_list xs :: int)"
  by (induction xs) simp_all

lemma child_rows_qty: "map row_qty (child_rows x os) = map co_qty os"
  by (induction os arbitrary: x) (simp_all add: Let_def)

lemma children_of_qty:
  assumes "length fills = length slices"
  shows "map co_qty (children_of ctx r slices fills) = map (\<lambda>f. from_lots f r) (filter (\<lambda>f. f \<noteq> 0) fills)"
  using assms by (induction slices fills rule: list_induct2') (auto simp: children_of_def child_of_def Let_def)

text \<open>C12: The router demo fills its order.  Whatever the uninitialised array held before and whatever
  values between 0 and 1 the exponential takes for non-positive numbers, the program returns exit code
  0: the split of the five coins over the five synthetic books is reported as complete, its at most one
  hundred rows are positive lots that add up to exactly 5000, and the unfilled quantity is zero.\<close>

theorem sor_example_fills:
  assumes "exp_ok expf" and "length mem = kMaxExchanges"
  shows "\<exists>res rows fills. sor_main expf mem = Some (0, res, rows) \<and> sr_success res \<and> length rows = sr_child_count res \<and> length rows \<le> 100 \<and>
    map row_qty rows = map (\<lambda>f. from_lots f (lit (1/1000))) fills \<and> list_all (\<lambda>f. 0 < f) fills \<and> sum_list fills = 5000 \<and>
    sr_unfilled_qty res = 0"
proof -
  obtain states where st: "sor_states mem = Some states" "length states = 5" "\<forall>ex<5. sor_exchange ex (states ! ex)"
    using sor_states_ok [of mem] assms(2) by auto
  let ?eng = "\<lparr>eng_fees = mock_fees\<rparr>" and ?ctx = "sor_ctx states" and ?r = "lit (1/1000)"
  let ?S = "split_slices expf ?eng ?ctx ?r" and ?F = "split_fills expf ?eng ?ctx ?r"
  note ok = sor_split_ok [OF st(2,3) assms(1)]
  have sum: "sum_list ?F = 5000" using split_fills_greedy(2) [OF ok(1,2)] ok(3,4) by simp
  obtain res where res: "calculate_optimal_split expf ?eng ?ctx [] = Some (res, children_of ?ctx ?r ?S ?F)"
    "sr_success res" "sr_unfilled_qty res = from_lots 0 ?r" "sr_child_count res = length (children_of ?ctx ?r ?S ?F)"
    using split_run [OF ok(1)] sum ok(3) by auto
  have len: "length ?F = length ?S" by (simp add: split_fills_def offers_def)
  have q: "map row_qty (child_rows 0 (children_of ?ctx ?r ?S ?F)) = map (\<lambda>f. from_lots f ?r) (filter (\<lambda>f. f \<noteq> 0) ?F)"
    unfolding child_rows_qty using children_of_qty [OF len] .
  have t: "0 \<le> ctx_target_lots ?ctx" using ok(3) by simp
  have "list_all2 (\<lambda>f (a, m). 0 \<le> f \<and> f \<le> a \<and> (f = 0 \<or> m \<le> f)) ?F (offers ?ctx ?r ?S)"
    using sweep_bounds [OF t offers_pos [OF ok(1)]] by (simp add: split_fills_def)
  then have nn: "list_all (\<lambda>f. 0 \<le> f) ?F" by (auto simp: list_all2_conv_all_nth list_all_length split: prod.splits)
  have "length (filter (\<lambda>f. f \<noteq> 0) ?F) \<le> length ?S" using len by (metis length_filter_le)
  moreover have "length ?S \<le> 100" using split_slices_props(2) [OF ok(1)] by simp
  moreover have "length (child_rows 0 (children_of ?ctx ?r ?S ?F)) = length (filter (\<lambda>f. f \<noteq> 0) ?F)"
    using arg_cong [OF q, of length] by simp
  moreover have "length (child_rows 0 (children_of ?ctx ?r ?S ?F)) = length (children_of ?ctx ?r ?S ?F)"
    using arg_cong [OF child_rows_qty, of length] by simp
  moreover have "sum_list (filter (\<lambda>f. f \<noteq> 0) ?F) = 5000" using sum by (simp add: sum_list_nonzero)
  moreover have "list_all (\<lambda>f. 0 < f) (filter (\<lambda>f. f \<noteq> 0) ?F)" using nn by (auto simp: list_all_iff less_le)
  moreover have "from_lots 0 ?r = 0" unfolding lit_thousandth by (simp add: from_lots_def of_i64_def zero_double_def)
  moreover have "sor_main expf mem = Some (0, res, child_rows 0 (children_of ?ctx ?r ?S ?F))"
    using st(1) res(1,2) by (simp add: sor_main_def)
  ultimately show ?thesis using res(2-4) q
    by (intro exI [of _ res] exI [of _ "child_rows 0 (children_of ?ctx ?r ?S ?F)"] exI [of _ "filter (\<lambda>f. f \<noteq> 0) ?F"]) simp
qed

theorem sor_example_fills_witness:
  "\<exists>res rows. sor_main demo_exp (replicate 5 (demo_state 0 [] [] [] [])) = Some (0, res, rows) \<and> sr_success res"
proof -
  have "exp_ok demo_exp" by (simp add: exp_ok_def demo_exp_def zero_double_def one_double_def)
  from sor_example_fills [OF this, of "replicate 5 (demo_state 0 [] [] [] [])"] show ?thesis by auto
qed

end
