(* ===== verification/Oms_Example.thy ===== *)
theory Oms_Example
  imports Sor_Example Market_Properties
begin

text \<open>
  \<^verbatim>\<open>src/oms_example.cpp\<close>: the whole path on the synthetic market, from the signal to buy five coins
  through the gate, the risk checks, the router and the gateways to a full fill of every child.  The
  result has the numbers that the program prints (their formatting is left out) and the final core;
  the log lines are left out.

  The lemmas: what the loop over the gateways collects, and that filling the children one after the
  other keeps to the exchanges' protocol, so the library's results on the core apply to the program.
\<close>

subsection \<open>The program\<close>

text \<open>\<^verbatim>\<open>ExchangeState{}\<close>.\<close>

definition zero_exchange :: ExchangeState where
  "zero_exchange = \<lparr>es_book = \<lparr>bids = empty_side, asks = empty_side, last_sequence = 0, nb_last_update_ns = 0, nb_tick_size = 0,
       nb_lot_size = 0, nb_exchange_id = 0, is_valid = False\<rparr>,
     es_latency = latency_init, es_lot = \<lparr>lc_lot_size = 0, lc_tick_size = 0, lc_min_qty = 0, lc_max_qty = 0, lc_max_notional = 0\<rparr>,
     es_fees = \<lparr>rates = replicate 5 (0, 0)\<rparr>, es_exchange_id = 0, es_enabled = False\<rparr>"

definition oms_states :: "ExchangeState list option" where
  "oms_states = do {
     s0 \<leftarrow> oms_populate_mock_exchange zero_exchange 0 (lit 65100) (lit (1/2)) (lit (40/100)) (lit 120) mock_fees;
     s1 \<leftarrow> oms_populate_mock_exchange zero_exchange 1 (lit 65101) (lit (1/2)) (lit (25/100)) (lit 350) mock_fees;
     s2 \<leftarrow> oms_populate_mock_exchange zero_exchange 2 (lit 65099) (lit (1/2)) (lit (70/100)) (lit 190) mock_fees;
     s3 \<leftarrow> oms_populate_mock_exchange zero_exchange 3 (lit (130195/2)) (lit (1/2)) (lit (15/100)) (lit 820) mock_fees;
     s4 \<leftarrow> oms_populate_mock_exchange zero_exchange 4 (lit 65102) (lit (1/2)) (lit (30/100)) (lit 260) mock_fees;
     Some [s0, s1, s2, s3, s4] }"

text \<open>The configuration; members that the program does not write have the defaults of their structs.\<close>

definition oms_cfg :: "ExchangeState list \<Rightarrow> ExecCoreConfig" where
  "oms_cfg states = \<lparr>cfg_fees = mock_fees,
     cfg_risk_limits = \<lparr>max_order_lots = (\<lambda>i. if i < kMaxInstruments then to_lots (lit 10) (lit (1/1000)) else 0),
       max_net_lots = (\<lambda>i. if i < kMaxInstruments then to_lots (lit 50) (lit (1/1000)) else 0),
       max_notional_usd = lit 400000, min_margin_required = 0\<rparr>,
     cfg_instruments = \<lparr>inst_lot_size = (\<lambda>_. lit (1/1000))\<rparr>,
     cfg_notional_gate = \<lparr>auto_approve_usd = lit 50000, hard_block_usd = lit 400000\<rparr>,
     cfg_margin = \<lparr>initial_margin_rate = lit (1/10), maintenance_margin_rate = lit (5/100), equity_usd = 0,
       warn_threshold_fraction = lit (20/100)\<rparr>,
     cfg_child_timeout_ns = 2000000000, cfg_maker_timeout_ns = 5000000000,
     cfg_exchange_states = states, cfg_active_exchanges = kMaxExchanges\<rparr>"

definition oms_sig :: StrategyOrderSignal where
  "oms_sig = empty_signal\<lparr>sig_instr_id := 0, sig_dir := BUY, sig_qty_lots := to_lots (lit 5) (lit (1/1000)),
     sig_limit_price_usd := lit 65115, sig_strategy_id := 1, sig_short_vol_factor := lit (3/10), sig_book_imbalance := lit (15/100)\<rparr>"

record ChildSnap =
  snap_cid :: nat
  snap_ex :: nat
  snap_qty :: qty_t
  snap_price :: price_t

definition snap_of :: "OutboundOrder \<Rightarrow> ChildSnap" where
  "snap_of out = \<lparr>snap_cid = out_child_id out, snap_ex = out_exchange_id out, snap_qty = out_qty_lots out, snap_price = out_price out\<rparr>"

text \<open>\<^verbatim>\<open>while (gw_queues[ex].pop(out) && snap_count < kMaxChildOrders)\<close>: an order that is popped when the
  array is full is dropped.\<close>

function drain_gateway :: "OutboundOrder SpscQueue \<Rightarrow> ChildSnap list \<Rightarrow> ChildSnap list \<times> OutboundOrder SpscQueue" where
  "drain_gateway q snaps =
     (case spsc_pop GatewayQueueN q of
        (None, q') \<Rightarrow> (snaps, q')
      | (Some out, q') \<Rightarrow> if length snaps < kMaxChildOrders then drain_gateway q' (snaps @ [snap_of out]) else (snaps, q'))"
  by pat_completeness auto
termination
  by (relation "measure (\<lambda>(q, snaps). 100 - length snaps)") auto

declare drain_gateway.simps [simp del]

text \<open>The loop over the exchanges.  All gateways are wired.\<close>

definition capture_one :: "nat \<Rightarrow> ChildSnap list \<times> ExecutionCore \<Rightarrow> ChildSnap list \<times> ExecutionCore" where
  "capture_one ex acc =
     (case ec_gateways (snd acc) ex of
        None \<Rightarrow> acc
      | Some q \<Rightarrow> let (snaps, q') = drain_gateway q (fst acc)
          in (snaps, (snd acc)\<lparr>ec_gateways := (ec_gateways (snd acc))(ex := Some q')\<rparr>))"

definition capture :: "ExecutionCore \<Rightarrow> ChildSnap list \<times> ExecutionCore" where
  "capture s = fold capture_one [0..<kMaxExchanges] ([], s)"

definition fill_report :: "ChildSnap \<Rightarrow> ExecutionReport" where
  "fill_report x = zero_report\<lparr>rep_child_id := snap_cid x, rep_fill_price_ticks := snap_price x, rep_fill_qty_lots := snap_qty x,
     rep_exec_type := ET_FILL, rep_exchange_id := snap_ex x\<rparr>"

text \<open>One printed row: the exchange, the child, its quantity and price, and the running total.\<close>

fun snap_rows :: "double \<Rightarrow> ChildSnap list \<Rightarrow> (string \<times> nat \<times> double \<times> double \<times> double) list" where
  "snap_rows cum [] = []"
| "snap_rows cum (x # xs) =
     (let qty = from_lots (snap_qty x) (lit (1/1000)); px = of_i64 (snap_price x) * lit (1/2); cum = cum + qty
      in (exchange_name (snap_ex x), snap_cid x, qty, px, cum) # snap_rows cum xs)"

record OmsReport =
  or_children :: nat
  or_rows :: "(string \<times> nat \<times> double \<times> double \<times> double) list"
  or_total :: double
  or_parents :: nat
  or_pool_children :: nat
  or_fills :: "(nat \<times> string \<times> double) list"
  or_parents_after :: nat
  or_net :: double

text \<open>The exit code, what is printed, the orders that were captured and the final core.\<close>

definition oms_main :: "Env \<Rightarrow> string \<Rightarrow> (int \<times> OmsReport \<times> ChildSnap list \<times> ExecutionCore) option" where
  "oms_main E inp = do {
     states \<leftarrow> oms_states;
     let core = core_init E (oms_cfg states) (\<lambda>_. True) inp;
     core \<leftarrow> on_strategy_order E oms_sig core;
     let (snaps, core) = capture core;
     let parents = parents_in_use (ec_pool core);
     let kids = children_in_use (ec_pool core);
     core \<leftarrow> run_reports E (map fill_report snaps) core;
     let after = parents_in_use (ec_pool core);
     Some (if after = 0 then 0 else 1,
       \<lparr>or_children = length snaps, or_rows = snap_rows 0 snaps,
        or_total = fold (\<lambda>x cum. cum + from_lots (snap_qty x) (lit (1/1000))) snaps 0, or_parents = parents, or_pool_children = kids,
        or_fills = map (\<lambda>x. (snap_cid x, exchange_name (snap_ex x), from_lots (snap_qty x) (lit (1/1000)))) snaps, or_parents_after = after, or_net = of_i64 (net_of 0 core) * lit (1/1000)\<rparr>, snaps, core) }"

subsection \<open>What is collected from the gateways\<close>

lemma drain_gateway_all:
  assumes "spsc_inv GatewayQueueN q" and "length snaps + length (spsc_contents GatewayQueueN q) \<le> 100"
  shows "fst (drain_gateway q snaps) = snaps @ map snap_of (spsc_contents GatewayQueueN q)"
  using assms
proof (induction q snaps rule: drain_gateway.induct)
  case (1 q snaps)
  note p = gateway_q.pop_result [OF 1(2)] gateway_q.pop_contents [OF 1(2)] gateway_q.invar_pop [OF 1(2)]
  show ?case
  proof (cases "spsc_contents GatewayQueueN q")
    case Nil
    then show ?thesis using p(1) by (subst drain_gateway.simps) (auto split: prod.splits)
  next
    case (Cons out rest)
    obtain q' where q': "spsc_pop GatewayQueueN q = (Some out, q')" using p(1) Cons by (cases "spsc_pop GatewayQueueN q") auto
    have n: "length (spsc_contents GatewayQueueN q) = Suc (length rest)" unfolding Cons by simp
    have c': "spsc_contents GatewayQueueN q' = rest" using p(2) q' Cons by simp
    have l': "length (spsc_contents GatewayQueueN q') = length rest" unfolding c' ..
    have lt: "length snaps < kMaxChildOrders" using 1(3) n by simp
    have "fst (drain_gateway q' (snaps @ [snap_of out])) = (snaps @ [snap_of out]) @ map snap_of rest"
      using 1(1) [OF q'[symmetric] refl lt] p(3) q' 1(3) n l' c' by simp
    then show ?thesis using q' lt Cons by (subst drain_gateway.simps) simp
  qed
qed

lemma capture_fold:
  assumes "\<forall>ex\<in>set exs. \<exists>q. ec_gateways s ex = Some q \<and> spsc_inv GatewayQueueN q" and "distinct exs"
    and "length acc + (\<Sum>ex\<leftarrow>exs. length (gw_orders ex s)) \<le> 100"
  shows "fst (fold capture_one exs (acc, s)) = acc @ concat (map (\<lambda>ex. map snap_of (gw_orders ex s)) exs) \<and>
    (\<exists>g. snd (fold capture_one exs (acc, s)) = s\<lparr>ec_gateways := g\<rparr>)"
  using assms
proof (induction exs arbitrary: acc s)
  case Nil
  show ?case by (simp, rule exI [of _ "ec_gateways s"], simp)
next
  case (Cons ex exs)
  obtain q where q: "ec_gateways s ex = Some q" "spsc_inv GatewayQueueN q" using Cons.prems(1) by auto
  obtain snaps q' where d: "drain_gateway q acc = (snaps, q')" by fastforce
  have o: "gw_orders ex s = spsc_contents GatewayQueueN q" using q(1) by (simp add: gw_orders_def)
  have "length acc + length (spsc_contents GatewayQueueN q) \<le> 100" using Cons.prems(3) unfolding o [symmetric] by simp
  then have sn: "snaps = acc @ map snap_of (gw_orders ex s)" using drain_gateway_all [OF q(2), of acc] d unfolding o by simp
  define t where "t = s\<lparr>ec_gateways := (ec_gateways s)(ex := Some q')\<rparr>"
  have one: "capture_one ex (acc, s) = (snaps, t)" using q(1) d by (simp add: capture_one_def t_def)
  have same: "ec_gateways t e = ec_gateways s e" "gw_orders e t = gw_orders e s" if "e \<in> set exs" for e
    using that Cons.prems(2) by (auto simp: t_def gw_orders_def)
  have m: "map (\<lambda>ex. map snap_of (gw_orders ex t)) exs = map (\<lambda>ex. map snap_of (gw_orders ex s)) exs"
    "map (\<lambda>ex. length (gw_orders ex t)) exs = map (\<lambda>ex. length (gw_orders ex s)) exs" using same by simp_all
  have "length snaps + (\<Sum>ex\<leftarrow>exs. length (gw_orders ex t)) \<le> 100" using Cons.prems(3) unfolding m(2) sn by simp
  then have ih: "fst (fold capture_one exs (snaps, t)) = snaps @ concat (map (\<lambda>ex. map snap_of (gw_orders ex t)) exs)"
    "\<exists>g. snd (fold capture_one exs (snaps, t)) = t\<lparr>ec_gateways := g\<rparr>"
    using Cons.IH [of t snaps] Cons.prems(1,2) same(1) by auto
  then show ?case using one unfolding m(1) sn by (auto simp: t_def)
qed

subsection \<open>Filling every child of an order\<close>

text \<open>The fill of one child beside another one that is still working.\<close>

lemma fill_beside:
  assumes "exposed_core l s" and "protocol_report rep s" and "rep_exec_type rep = ET_FILL" and "cid = rep_child_id rep" and "cid < 32768"
    and "pid = ch_parent_id (the_child cid s)" and "y \<in> set (child_ids (the_parent pid s))" and "y \<noteq> cid" and "working (ch_state (the_child y s))"
    and "on_execution_report E rep s = Some s'"
  shows "\<forall>z. z \<noteq> cid \<longrightarrow> the_child z s' = the_child z s" and "live_children (ec_pool s') = live_children (ec_pool s)"
    and "live_parents (ec_pool s') = live_parents (ec_pool s)" and "child_ids (the_parent pid s') = child_ids (the_parent pid s)"
    and "po_leaves_qty_lots (the_parent pid s') = po_leaves_qty_lots (the_parent pid s) - rep_fill_qty_lots rep"
    and "po_instr_id (the_parent pid s') = po_instr_id (the_parent pid s)" and "po_dir (the_parent pid s') = po_dir (the_parent pid s)"
proof -
  let ?c = "the_child cid s" and ?p = "the_parent pid s" and ?f = "rep_fill_qty_lots rep"
  have fl: "is_fill rep" using assms(3) by (simp add: is_fill_def)
  have ok: "core_ok s" using assms(1) by (simp add: exposed_core_def)
  have r: "cid \<in> live_children (ec_pool s)" "working (ch_state ?c)" "0 < ?f" "?f \<le> ch_leaves_qty_lots ?c"
    using assms(2,4,5) fl by (auto simp: protocol_report_def Let_def)
  note d = exposed_coreD [OF assms(1) r(1) assms(6)]
  note fam = live_child_family [OF ok r(1) assms(6)]
  have cf: "canonical_fill rep s = ?f" using protocol_fill(1) [OF assms(1,2) fl] assms(4,5) by simp
  have x: "children_qty pid (ec_pool s)" "exposure pid (ec_pool s) \<le> po_leaves_qty_lots ?p" using d(1) by (simp_all add: exposed_ok_def the_parent_def)
  have o: "open_part (children (ec_pool s) cid) = ch_leaves_qty_lots ?c" using r(2) by (simp add: open_part_def the_child_def)
  have "\<not> exposure pid (ec_pool s) \<le> open_part (children (ec_pool s) cid)"
    using child_below_exposure(2) [OF x(1) d(2,3), of y] assms(7-9) by (auto simp: the_parent_def the_child_def)
  then have lt: "?f < po_leaves_qty_lots ?p" using x(2) r(4) o by simp
  have q: "po_total_qty_lots ?p = po_cum_qty_lots ?p + po_leaves_qty_lots ?p" using fam(2) by (simp add: qty_ok_def)
  obtain t where run: "handle_fill E cid pid rep s = fill_decision E pid t" and bk: "fill_booked cid pid rep s t"
    using handle_fill_books [OF ok r(1) assms(6), of rep E] assms(4) by blast
  obtain px ref where pt: "the_parent pid t = fill_parent ?f px ref (rep_recv_ns rep) ?p" using bk cf by (auto simp: fill_booked_def)
  have ct: "\<And>z. the_child z t = (if z = cid then fill_child ?f ?c else the_child z s)" "live_children (ec_pool t) = live_children (ec_pool s)"
    "live_parents (ec_pool t) = live_parents (ec_pool s)" using bk by (auto simp: fill_booked_def)
  let ?t = "mod_parent pid (\<lambda>p. p\<lparr>po_state := PARTIALLY_FILLED\<rparr>) t"
  have ids: "child_ids (the_parent pid ?t) = child_ids ?p" by (rule child_ids_cong) (simp_all add: pt)
  have "\<not> all_children_terminal (the_parent pid ?t) ?t"
    using assms(7-9) ct(1) ids by (auto simp: all_children_terminal_def list_all_iff working_def)
  moreover have "po_leaves_qty_lots (the_parent pid t) \<noteq> 0" using pt q lt by simp
  moreover have "pid < 4096" using fam(8) by (simp add: live_parents_def)
  ultimately have s': "s' = ?t" using run assms(3,4,5,6,10) by (simp add: on_execution_report_def fill_decision_def Let_def)
  show "\<forall>z. z \<noteq> cid \<longrightarrow> the_child z s' = the_child z s" "live_children (ec_pool s') = live_children (ec_pool s)"
    "live_parents (ec_pool s') = live_parents (ec_pool s)" "child_ids (the_parent pid s') = child_ids (the_parent pid s)"
    "po_leaves_qty_lots (the_parent pid s') = po_leaves_qty_lots (the_parent pid s) - ?f"
    "po_instr_id (the_parent pid s') = po_instr_id (the_parent pid s)" "po_dir (the_parent pid s') = po_dir (the_parent pid s)"
    using ct ids pt q by (simp_all add: s')
qed

text \<open>A fill of all that is left closes the order.\<close>

lemma fill_closes:
  assumes "exposed_core l s" and "protocol_report rep s" and "rep_exec_type rep = ET_FILL" and "cid = rep_child_id rep" and "cid < 32768"
    and "pid = ch_parent_id (the_child cid s)" and "rep_fill_qty_lots rep = po_leaves_qty_lots (the_parent pid s)"
    and "on_execution_report E rep s = Some s'"
  shows "live_parents (ec_pool s') = live_parents (ec_pool s) - {pid}"
proof -
  let ?c = "the_child cid s" and ?p = "the_parent pid s" and ?f = "rep_fill_qty_lots rep"
  have fl: "is_fill rep" using assms(3) by (simp add: is_fill_def)
  have ok: "core_ok s" using assms(1) by (simp add: exposed_core_def)
  have live: "cid \<in> live_children (ec_pool s)" using assms(2,4,5) by (auto simp: protocol_report_def Let_def)
  note fam = live_child_family [OF ok live assms(6)]
  have cf: "canonical_fill rep s = ?f" "fill_ok rep s" using protocol_fill [OF assms(1,2) fl] assms(4,5) by simp_all
  obtain t where run: "handle_fill E cid pid rep s = fill_decision E pid t" and bk: "fill_booked cid pid rep s t"
    using handle_fill_books [OF ok live assms(6), of rep E] assms(4) by blast
  obtain px ref where pt: "the_parent pid t = fill_parent ?f px ref (rep_recv_ns rep) ?p" using bk cf(1) by (auto simp: fill_booked_def)
  have ct: "\<And>z. the_child z t = (if z = cid then fill_child ?f ?c else the_child z s)" "core_focus pid t"
    "live_parents (ec_pool t) = live_parents (ec_pool s)" using bk by (auto simp: fill_booked_def)
  have "ch_qty_lots ?c = ch_cum_qty_lots ?c + ?f \<and> (\<forall>x\<in>set (child_ids ?p). x \<noteq> cid \<longrightarrow> \<not> working (ch_state (the_child x s)))"
    using cf assms(4,6,7) by (auto simp: fill_ok_def Let_def)
  then have tm: "all_children_terminal (the_parent pid t) t" using pt ct(1) by (auto simp: all_children_terminal_def list_all_iff working_def)
  have "po_total_qty_lots ?p = po_cum_qty_lots ?p + po_leaves_qty_lots ?p" using fam(2) by (simp add: qty_ok_def)
  then have "po_leaves_qty_lots (the_parent pid t) = 0" using pt assms(7) by simp
  moreover have "pid < 4096" using fam(8) by (simp add: live_parents_def)
  ultimately have "Option.bind (release_children (child_ids (the_parent pid t)) (mod_parent pid (\<lambda>p. p\<lparr>po_state := FILLED\<rparr>) t)) (release_parent pid) = Some s'"
    using run assms(3,4,5,6,8) by (simp add: on_execution_report_def fill_decision_def Let_def)
  then show ?thesis using close_family [OF ct(2) tm, of FILLED] ct(3) by auto
qed

definition to_fill :: "nat \<Rightarrow> ChildSnap list \<Rightarrow> ExecutionCore \<Rightarrow> bool" where
  "to_fill pid xs s \<longleftrightarrow> pid \<in> live_parents (ec_pool s) \<and> distinct (map snap_cid xs) \<and> po_instr_id (the_parent pid s) = 0 \<and> po_dir (the_parent pid s) = BUY \<and>
     (\<forall>x\<in>set xs. snap_cid x \<in> set (child_ids (the_parent pid s)) \<and> working (ch_state (the_child (snap_cid x) s)) \<and>
        ch_leaves_qty_lots (the_child (snap_cid x) s) = snap_qty x)"

lemma to_fill_first:
  assumes "exposed_core l s" and "to_fill pid (x # xs) s"
  shows "snap_cid x \<in> live_children (ec_pool s)" and "snap_cid x < 32768" and "ch_parent_id (the_child (snap_cid x) s) = pid"
    and "protocol_report (fill_report x) s"
proof -
  have "core_ok s" using assms(1) by (simp add: exposed_core_def)
  then have fam: "family_ok (length (ec_states s)) (ec_pool s) pid" using assms(2) by (simp add: to_fill_def core_ok_def pool_ok_def)
  then have ch: "child_ok (length (ec_states s)) (ec_pool s) pid (snap_cid x)"
    using assms(2) by (simp add: to_fill_def family_ok_def linked_def the_parent_def)
  then show l: "snap_cid x \<in> live_children (ec_pool s)" and "ch_parent_id (the_child (snap_cid x) s) = pid"
    by (simp_all add: child_ok_def the_child_def)
  then show "snap_cid x < 32768" by (simp add: live_children_def)
  have "exposed_ok pid (ec_pool s)" using assms by (simp add: exposed_core_def all_exposed_def to_fill_def)
  then have "child_qty_ok (the_child (snap_cid x) s)" using assms(2) by (simp add: to_fill_def exposed_ok_def children_qty_def the_child_def the_parent_def)
  then show "protocol_report (fill_report x) s" using assms(2) l
    by (auto simp: protocol_report_def fill_report_def to_fill_def child_qty_ok_def Let_def)
qed

lemma fill_all:
  assumes "exposed_core l s" and "to_fill pid xs s"
  shows "protocol_run E (map fill_report xs) s \<and> total_executed E 0 (map fill_report xs) s = (\<Sum>x\<leftarrow>xs. snap_qty x) \<and>
    (\<forall>s'. run_reports E (map fill_report xs) s = Some s' \<and> xs \<noteq> [] \<and> (\<Sum>x\<leftarrow>xs. snap_qty x) = po_leaves_qty_lots (the_parent pid s) \<longrightarrow>
       live_parents (ec_pool s') = live_parents (ec_pool s) - {pid})"
  using assms
proof (induction xs arbitrary: s)
  case (Cons x xs)
  let ?r = "fill_report x" and ?cid = "snap_cid x"
  have r: "rep_exec_type ?r = ET_FILL" "rep_child_id ?r = ?cid" "rep_fill_qty_lots ?r = snap_qty x" by (simp_all add: fill_report_def)
  note h = to_fill_first [OF Cons.prems]
  have ok: "core_ok s" using Cons.prems(1) by (simp add: exposed_core_def)
  obtain s1 where s1: "on_execution_report E ?r s = Some s1"
    using on_execution_report_ok [OF ok protocol_report_ok [OF Cons.prems(1) h(4)], of E] by blast
  have x1: "exposed_core l s1" using on_execution_report_exposed [OF Cons.prems(1) h(4) s1] .
  have ex: "lots_executed 0 ?r s = snap_qty x"
    using h(2,3) r Cons.prems(2) by (simp add: lots_executed_def is_fill_def to_fill_def Let_def)
  show ?case
  proof (cases xs)
    case Nil
    then show ?thesis using h(4) s1 ex fill_closes [OF Cons.prems(1) h(4) r(1) refl _ _ _ s1] h(2,3) r(2,3) by auto
  next
    case (Cons y ys)
    then have y: "snap_cid y \<in> set (child_ids (the_parent pid s))" "snap_cid y \<noteq> ?cid" "working (ch_state (the_child (snap_cid y) s))"
      using Cons.prems(2) by (auto simp: to_fill_def)
    note b = fill_beside [OF Cons.prems(1) h(4) r(1) r(2) [symmetric] h(2) h(3) [symmetric] y s1]
    have "?cid \<notin> snap_cid ` set xs" using Cons.prems(2) by (simp add: to_fill_def)
    then have "snap_cid z \<noteq> ?cid" if "z \<in> set xs" for z using that by (metis imageI)
    then have "the_child (snap_cid z) s1 = the_child (snap_cid z) s" if "z \<in> set xs" for z using b(1) that by blast
    then have "to_fill pid xs s1" using Cons.prems(2) b(3,4,6,7) by (simp add: to_fill_def)
    note ih = Cons.IH [OF x1 this]
    have "live_parents (ec_pool s') = live_parents (ec_pool s) - {pid}"
      if "run_reports E (map fill_report (x # xs)) s = Some s'" "(\<Sum>x\<leftarrow>x # xs. snap_qty x) = po_leaves_qty_lots (the_parent pid s)" for s'
      using that ih s1 b(3,5) Cons r(3) by auto
    then show ?thesis using ih h(4) s1 ex by auto
  qed
qed simp

subsection \<open>The run of the example\<close>

lemma oms_states_ok: "\<exists>states. oms_states = Some states \<and> length states = 5 \<and> (\<forall>ex<5. sor_exchange ex (states ! ex))"
proof -
  note p = populate_mocked(2) [where ?s0.0 = zero_exchange] and t = mock_ticks
  obtain s0 where s0: "oms_populate_mock_exchange zero_exchange 0 (lit 65100) (lit (1/2)) (lit (40/100)) (lit 120) mock_fees = Some s0" "sor_exchange 0 s0"
    using p [of 0 "lit 65100" "lit (1/2)" "lit (40/100)" "lit 120" mock_fees] unfolding t by (auto simp: sor_exchange_def)
  obtain s1 where s1: "oms_populate_mock_exchange zero_exchange 1 (lit 65101) (lit (1/2)) (lit (25/100)) (lit 350) mock_fees = Some s1" "sor_exchange 1 s1"
    using p [of 1 "lit 65101" "lit (1/2)" "lit (25/100)" "lit 350" mock_fees] unfolding t by (auto simp: sor_exchange_def)
  obtain s2 where s2: "oms_populate_mock_exchange zero_exchange 2 (lit 65099) (lit (1/2)) (lit (70/100)) (lit 190) mock_fees = Some s2" "sor_exchange 2 s2"
    using p [of 2 "lit 65099" "lit (1/2)" "lit (70/100)" "lit 190" mock_fees] unfolding t by (auto simp: sor_exchange_def)
  obtain s3 where s3: "oms_populate_mock_exchange zero_exchange 3 (lit (130195/2)) (lit (1/2)) (lit (15/100)) (lit 820) mock_fees = Some s3" "sor_exchange 3 s3"
    using p [of 3 "lit (130195/2)" "lit (1/2)" "lit (15/100)" "lit 820" mock_fees] unfolding t by (auto simp: sor_exchange_def)
  obtain s4 where s4: "oms_populate_mock_exchange zero_exchange 4 (lit 65102) (lit (1/2)) (lit (30/100)) (lit 260) mock_fees = Some s4" "sor_exchange 4 s4"
    using p [of 4 "lit 65102" "lit (1/2)" "lit (30/100)" "lit 260" mock_fees] unfolding t by (auto simp: sor_exchange_def)
  have "oms_states = Some [s0, s1, s2, s3, s4]"
    unfolding oms_states_def using s0(1) s1(1) s2(1) s3(1) s4(1) by simp
  moreover have "\<forall>ex<5. sor_exchange ex ([s0, s1, s2, s3, s4] ! ex)"
    using s0(2) s1(2) s2(2) s3(2) s4(2) by (simp add: All_less_Suc numeral_eq_Suc)
  ultimately show ?thesis by (intro exI [of _ "[s0, s1, s2, s3, s4]"]) simp
qed

definition oms_core :: "Env \<Rightarrow> ExchangeState list \<Rightarrow> string \<Rightarrow> ExecutionCore" where
  "oms_core E states inp = core_init E (oms_cfg states) (\<lambda>_. True) inp"

lemma oms_core_fields:
  "ec_cfg (oms_core E states inp) = oms_cfg states" "ec_pool (oms_core E states inp) = pool_init" "ec_stdin (oms_core E states inp) = inp"
  "ec_gate (oms_core E states inp) = \<lparr>ng_cfg = cfg_notional_gate (oms_cfg states), ng_instruments = cfg_instruments (oms_cfg states)\<rparr>"
  "ec_gateways (oms_core E states inp) = (\<lambda>_. Some (spsc_init zero_outbound))"
  "ec_risk (oms_core E states inp) = \<lparr>re_limits = cfg_risk_limits (oms_cfg states), re_instruments = cfg_instruments (oms_cfg states)\<rparr>"
  "instruments (ec_pos (oms_core E states inp)) = (\<lambda>_. flat_position)" "available (margin (ec_pos (oms_core E states inp))) = 0"
  by (simp_all add: oms_core_def core_init_def margin_monitor_init_def now_ns_def init_positions_def oms_cfg_def
      recompute_available_def margin_state_update_def available_def minus_double_def zero_double_def Let_def)

lemma thousandth_lot: "\<exists>l. lit (1/1000) = Fin l \<and> lot_unit l"
proof -
  let ?l = "1152921504606847 / 2 ^ 60 :: rat"
  have "rnd ?l = Fin (of_int 4611686018427388 * 2 powi (-62))" by (rule rnd_evalI) (simp_all add: power_int_minus)
  then have "rnd ?l = Fin ?l" by (simp add: power_int_minus)
  moreover have "2 powi (-500) \<le> (2 powi (-10) :: rat)" by (rule powi2_le) simp
  then have "2 powi (-500) \<le> ?l" by (simp add: power_int_minus)
  ultimately have "lot_unit ?l" by (simp add: lot_unit_def)
  then show ?thesis using lit_thousandth by blast
qed

lemma oms_core_exposed:
  assumes "length states = 5" and "\<forall>ex<5. sor_exchange ex (states ! ex)" and "lit (1/1000) = Fin l" and "lot_unit l"
  shows "exposed_core l (oms_core E states inp)"
proof -
  have m: "es_exchange_id st < 5" "wf_side (bids (es_book st))" "wf_side (asks (es_book st))" "nb_lot_size (es_book st) = Fin l" "lc_min_qty (es_lot st) = Fin l"
    if "st \<in> set states" for st
    using that assms(1-3) by (auto simp: in_set_conv_nth sor_exchange_def mocked_def)
  have f: "length (rates mock_fees) = 5" by (simp add: mock_fees_def)
  have sh: "router_shape \<lparr>eng_fees = cfg_fees (oms_cfg states)\<rparr> (cfg_exchange_states (oms_cfg states)) (cfg_active_exchanges (oms_cfg states))"
    using m(1-3) assms(1) f by (auto simp: router_shape_def state_shape_def oms_cfg_def list_all_iff)
  have "canonical_min_lots st (Fin l) = 1" if "st \<in> set states" for st
    using m(5) [OF that] lot_quotients(1) [OF assms(3)] by (simp add: canonical_min_lots_def one_double_def)
  then have "uniform_lots l (oms_core E states inp)"
    using m(4) assms(3,4) lot_unit_pos [OF assms(4)] by (simp add: uniform_lots_def oms_core_fields oms_cfg_def lot_size_def list_all_iff)
  then show ?thesis unfolding oms_core_def by (rule core_init_exposed [OF sh])
qed

text \<open>The order is worth more than the automatic limit and less than the hard one, so the operator is asked.\<close>

lemma oms_notional:
  obtains n where "of_i64 5000 * lit (1/1000) * lit 65115 = Fin n" and "200000 \<le> n" and "n \<le> 400000"
proof -
  obtain l where l: "lit (1/1000) = Fin l" "1/1000 \<le> l" "l * (1 - 1 / 2 ^ 53) \<le> 1/1000" by (rule lot_thousandth)
  have b: "4 \<le> 5000 * l" "5000 * l \<le> 6" using l(2,3) by simp_all
  have r: "rnd 4 = Fin 4" "rnd 6 = Fin 6" "rnd 200000 = Fin 200000" "rnd 400000 = Fin 400000" by simp_all
  obtain u where u: "rnd (5000 * l) = Fin u" "4 \<le> u" "u \<le> 6" using r(1,2) b by (rule rnd_between)
  have "200000 \<le> u * 65115" "u * 65115 \<le> 400000" using u(2,3) by simp_all
  with r(3,4) obtain n where "rnd (u * 65115) = Fin n" "200000 \<le> n" "n \<le> 400000" by (rule rnd_between)
  then show ?thesis using that u(1) l(1) by (simp add: of_i64_def lit_def)
qed

lemma ten_fifty: "to_lots (lit 10) (lit (1/1000)) = 10000" "to_lots (lit 50) (lit (1/1000)) = 50000"
proof -
  have "rnd (10 / (1152921504606847 / 2 ^ 60)) = Fin (of_int (10000 * 2 ^ 39) * 2 powi (-39))"
    by (rule rnd_evalI) (simp_all add: power_int_minus)
  then show "to_lots (lit 10) (lit (1/1000)) = 10000" unfolding lit_thousandth by (simp add: to_lots_def lit_def power_int_minus)
  have "rnd (50 / (1152921504606847 / 2 ^ 60)) = Fin (of_int (50000 * 2 ^ 37) * 2 powi (-37))"
    by (rule rnd_evalI) (simp_all add: power_int_minus)
  then show "to_lots (lit 50) (lit (1/1000)) = 50000" unfolding lit_thousandth by (simp add: to_lots_def lit_def power_int_minus)
qed

lemma oms_sig_fields: "sig_qty_lots oms_sig = 5000" "sig_instr_id oms_sig = 0" "sig_dir oms_sig = BUY" "sig_limit_price_usd oms_sig = lit 65115"
  "sig_order_type oms_sig = TAKER" "\<not> sig_reduce_only oms_sig" "oms_sig\<lparr>sig_qty_lots := 5000\<rparr> = oms_sig"
  by (simp_all add: oms_sig_def empty_signal_def five_coins)

lemma oms_decisions:
  fixes E states inp
  defines "s \<equiv> oms_core E states inp"
  shows "approve (ec_gate s) oms_sig (ec_stdin s) = prompt_confirmation inp"
    and "clamp_reduce_only_sig (ec_pos s) oms_sig = 5000" and "validate (ec_risk s) (ec_pos s) (oms_sig\<lparr>sig_qty_lots := 5000\<rparr>) = RR_OK"
proof -
  obtain n where n: "of_i64 5000 * lit (1/1000) * lit 65115 = Fin n" "200000 \<le> n" "n \<le> 400000" by (rule oms_notional)
  obtain l where l: "lit (1/1000) = Fin l" "1/1000 \<le> l" by (rule lot_thousandth)
  have ls: "lot_size (cfg_instruments (oms_cfg states)) 0 = lit (1/1000)" using l by (simp add: lot_size_def oms_cfg_def)
  have c: "lit 400000 = Fin 400000" "lit 50000 = Fin 50000" "lit 65115 = Fin 65115" by (simp_all add: lit_def)
  show "approve (ec_gate s) oms_sig (ec_stdin s) = prompt_confirmation inp"
    using n ls by (simp add: approve_def s_def oms_core_fields oms_sig_fields c) (simp add: oms_cfg_def c zero_double_def)
  show "clamp_reduce_only_sig (ec_pos s) oms_sig = 5000"
    by (simp add: s_def clamp_reduce_only_sig_def clamp_reduce_only_impl_def oms_core_fields oms_sig_fields flat_position_def)
  show "validate (ec_risk s) (ec_pos s) (oms_sig\<lparr>sig_qty_lots := 5000\<rparr>) = RR_OK"
    using n ls by (simp add: validate_def s_def oms_core_fields oms_sig_fields check_fat_finger_def check_position_def check_margin_def
      order_notional_def c)
      (simp add: oms_cfg_def ten_fifty c oms_core_fields oms_sig_fields flat_position_def Let_def)
qed

lemma mset_by_class: "mset (concat (map (\<lambda>k. filter (\<lambda>x. g x = k) xs) [0..<n])) = mset (filter (\<lambda>x. g x < n) xs)"
proof (induction n)
  case (Suc n)
  have "mset (filter (\<lambda>x. g x < Suc n) xs) = mset (filter (\<lambda>x. g x < n) xs) + mset (filter (\<lambda>x. g x = n) xs)"
    by (induction xs) auto
  then show ?case using Suc by simp
qed simp

lemma new_children:
  assumes "went_out pid ts sig q orders ids s0 s" and "c \<in> set ids"
  shows "ch_child_id (the_child c s) = c" and "ch_leaves_qty_lots (the_child c s) = ch_qty_lots (the_child c s)"
    and "working (ch_state (the_child c s))"
proof -
  have "length ids = length orders" using assms(1) by (simp add: went_out_def Let_def)
  then obtain k where "k < length orders" "ids ! k = c" using assms(2) by (metis in_set_conv_nth)
  then have "the_child c s = new_child pid ts (sig_dir sig) (ec_states s0 ! co_exchange_id (orders ! k)) (orders ! k) (zero_child\<lparr>ch_child_id := c\<rparr>)"
    using assms(1) by (auto simp: went_out_def)
  then show "ch_child_id (the_child c s) = c" "ch_leaves_qty_lots (the_child c s) = ch_qty_lots (the_child c s)" "working (ch_state (the_child c s))"
    by (simp_all add: new_child_def Let_def working_def)
qed

text \<open>The program captures every child that the core sent out.\<close>

lemma captured:
  assumes "exposed_core l s" and "went_out pid ts sig q orders ids s0 s" and "\<And>ex. gw_orders ex s0 = []" and "length (ec_states s) = 5"
    and "length orders \<le> 16" and "sig_instr_id sig = 0" and "sig_dir sig = BUY"
  shows "\<exists>snaps g. capture s = (snaps, s\<lparr>ec_gateways := g\<rparr>) \<and> to_fill pid snaps s \<and> length snaps = length ids \<and>
    (\<Sum>x\<leftarrow>snaps. snap_qty x) = exposure pid (ec_pool s)"
proof -
  define F where "F = (\<lambda>c. snap_of (order_of 0 (the_child c s)))"
  define by_ex where "by_ex = (\<lambda>ex. filter (\<lambda>c. ch_exchange_id (the_child c s) = ex) ids)"
  define L where "L = concat (map by_ex [0..<5])"
  have w: "pid \<in> live_parents (ec_pool s)" "length ids = length orders" "gw_room 0 s" "child_ids (the_parent pid s) = ids"
    "po_instr_id (the_parent pid s) = 0" "po_dir (the_parent pid s) = BUY" "distinct ids"
    "\<And>ex. gw_orders ex s = map (\<lambda>c. order_of 0 (the_child c s)) (by_ex ex)"
    using assms(2,3,6,7) by (auto simp: went_out_def by_ex_def Let_def)
  note new = new_children [OF assms(2)]
  have "ch_exchange_id (the_child c s) < 5" if "c \<in> set ids" for c
  proof -
    have "family_ok (length (ec_states s)) (ec_pool s) pid" using assms(1) w(1) by (simp add: exposed_core_def core_ok_def pool_ok_def)
    then show ?thesis using that w(4) assms(4) by (auto simp: family_ok_def linked_def child_ok_def the_parent_def the_child_def)
  qed
  then have "filter (\<lambda>c. ch_exchange_id (the_child c s) < 5) ids = ids" by (simp add: filter_id_conv)
  then have ms: "mset L = mset ids" unfolding L_def by_ex_def mset_by_class by simp
  then have L: "set L = set ids" "distinct L" "length L = length ids" using w(7) by (metis mset_eq_setD, metis mset_eq_imp_distinct_iff, metis size_mset)
  have sum: "(\<Sum>ex\<leftarrow>[0..<5]. length (gw_orders ex s)) = length L" by (simp add: L_def w(8) length_concat comp_def)
  have "fst (fold capture_one [0..<5] ([], s)) = concat (map (\<lambda>ex. map snap_of (gw_orders ex s)) [0..<5]) \<and>
      (\<exists>g. snd (fold capture_one [0..<5] ([], s)) = s\<lparr>ec_gateways := g\<rparr>)"
    using capture_fold [of "[0..<5]" s "[]"] w(2,3) sum L(3) assms(5) by (force simp: gw_room_def)
  moreover have "concat (map (\<lambda>ex. map snap_of (gw_orders ex s)) [0..<5]) = map F L" by (simp add: L_def w(8) F_def map_concat comp_def)
  ultimately obtain g where c: "capture s = (map F L, s\<lparr>ec_gateways := g\<rparr>)" by (auto simp: capture_def prod_eq_iff)
  have F: "snap_cid (F c) = c" "snap_qty (F c) = ch_leaves_qty_lots (the_child c s)" if "c \<in> set ids" for c
    using new [OF that] by (simp_all add: F_def snap_of_def order_of_def)
  have "map snap_cid (map F L) = L" unfolding map_map using F(1) L(1) by (intro map_idI) simp
  then have "to_fill pid (map F L) s" using w(1,4-6) L(1,2) F new(3) by (simp add: to_fill_def)
  moreover have "(\<Sum>x\<leftarrow>map F L. snap_qty x) = exposure pid (ec_pool s)"
  proof -
    have "(\<Sum>x\<leftarrow>map F L. snap_qty x) = (\<Sum>c\<leftarrow>L. ch_leaves_qty_lots (the_child c s))"
      unfolding map_map comp_def by (intro arg_cong [of _ _ sum_list] map_cong) (simp_all add: F(2) L(1))
    also have "\<dots> = (\<Sum>c\<leftarrow>ids. ch_leaves_qty_lots (the_child c s))" using ms by (metis mset_map sum_mset_sum_list)
    also have "\<dots> = exposure pid (ec_pool s)" using new(3) w(4) by (simp add: exposure_def open_part_def the_child_def the_parent_def cong: map_cong)
    finally show ?thesis .
  qed
  ultimately show ?thesis using c L(3) by auto
qed

lemma put_gateways:
  "exposed_core l (s\<lparr>ec_gateways := g\<rparr>) = exposed_core l s" "to_fill pid xs (s\<lparr>ec_gateways := g\<rparr>) = to_fill pid xs s"
  by (simp_all add: exposed_core_def core_ok_def config_ok_def uniform_lots_def timers_ok_def to_fill_def the_parent_def the_child_def)

lemma oms_main_steps:
  assumes "oms_states = Some states" and "on_strategy_order E oms_sig (oms_core E states inp) = Some s" and "capture s = (snaps, t)"
    and "run_reports E (map fill_report snaps) t = Some s'"
  shows "\<exists>rep. oms_main E inp = Some (if parents_in_use (ec_pool s') = 0 then 0 else 1, rep, snaps, s') \<and>
    or_children rep = length snaps \<and> or_rows rep = snap_rows 0 snaps \<and> or_parents rep = parents_in_use (ec_pool t) \<and>
    or_parents_after rep = parents_in_use (ec_pool s')"
  unfolding oms_main_def assms(1) Option.bind.bind_lunit Let_def assms(2) [unfolded oms_core_def] assms(3) prod.case assms(4) by simp

text \<open>A run that sends nothing.\<close>

lemma oms_nothing:
  assumes "oms_states = Some states" and "on_strategy_order E oms_sig (oms_core E states inp) = Some s" and "core_ok s"
    and "ec_gateways s = ec_gateways (oms_core E states inp)" and "live_parents (ec_pool s) = {}" and "net_of 0 s = 0"
  shows "\<exists>rep core. oms_main E inp = Some (0, rep, [], core) \<and> or_children rep = 0 \<and> or_rows rep = [] \<and> or_parents rep = 0 \<and> net_of 0 core = 0"
proof -
  have g: "ec_gateways s = (\<lambda>_. Some (spsc_init zero_outbound))" using assms(4) by (simp add: oms_core_fields)
  have o: "gw_orders ex s = []" for ex by (simp add: gw_orders_def g spsc_init_contents)
  have "spsc_inv GatewayQueueN (spsc_init zero_outbound)" using spsc_init_inv [of 9 zero_outbound] by (simp add: GatewayQueueN_def)
  then have "fst (fold capture_one [0..<5] ([], s)) = [] \<and> (\<exists>g. snd (fold capture_one [0..<5] ([], s)) = s\<lparr>ec_gateways := g\<rparr>)"
    using capture_fold [of "[0..<5]" s "[]"] g o by simp
  then obtain g' where c: "capture s = ([], s\<lparr>ec_gateways := g'\<rparr>)" by (auto simp: capture_def prod_eq_iff)
  have "parents_inv (ec_pool s)" using assms(3) by (simp add: core_ok_def pool_ok_def pool_inv_def)
  then have "parents_in_use (ec_pool s) = 0" using assms(5) by (simp add: parents_in_use_card)
  then show ?thesis using oms_main_steps [OF assms(1,2) c] assms(6) by (auto simp: net_of_def)
qed

lemma oms_slot: "\<exists>P. alloc_parent (ec_pool (oms_core E states inp)) = (Some 0, P)"
  by (simp add: oms_core_fields alloc_parent_def pool_init_def Let_def)

lemma oms_room: "card (live_children (ec_pool (oms_core E states inp))) + 16 \<le> 32768" "gw_room 16 (oms_core E states inp)"
proof -
  show "card (live_children (ec_pool (oms_core E states inp))) + 16 \<le> 32768" by (simp add: oms_core_fields pool_init_live)
  have "spsc_inv GatewayQueueN (spsc_init zero_outbound)" using spsc_init_inv [of 9 zero_outbound] by (simp add: GatewayQueueN_def)
  then show "gw_room 16 (oms_core E states inp)" by (simp add: gw_room_def oms_core_fields spsc_size_def spsc_init_def)
qed

text \<open>A run whose order went out.\<close>

lemma oms_filled:
  assumes "oms_states = Some states" and "exposed_core l (oms_core E states inp)" and "length states = 5"
    and "on_strategy_order E oms_sig (oms_core E states inp) = Some s" and "went_out 0 ts oms_sig 5000 orders ids (oms_core E states inp) s"
    and "length orders \<le> 16"
  shows "\<exists>code rep snaps core. oms_main E inp = Some (code, rep, snaps, core) \<and> length snaps = length orders \<and>
    or_children rep = length snaps \<and> or_rows rep = snap_rows 0 snaps \<and>
    net_of 0 core = (\<Sum>x\<leftarrow>snaps. snap_qty x) \<and> (\<Sum>x\<leftarrow>snaps. snap_qty x) \<le> 5000 \<and> ((\<Sum>x\<leftarrow>snaps. snap_qty x) = 5000 \<longrightarrow> code = 0)"
proof -
  let ?s0 = "oms_core E states inp"
  have x: "exposed_core l s" using on_strategy_order_exposed [OF assms(2) _ _ assms(4)] by (simp add: oms_sig_fields)
  have ok0: "core_ok ?s0" using assms(2) by (simp add: exposed_core_def)
  have an: "answered oms_sig ?s0 s" using on_strategy_order_ok [OF ok0, of oms_sig E] assms(4) by (simp add: oms_sig_fields)
  have p0: "0 \<in> live_parents (ec_pool s)" "po_leaves_qty_lots (the_parent 0 s) = 5000" "length ids = length orders"
    using assms(5) by (auto simp: went_out_def Let_def)
  have live: "live_parents (ec_pool s) = {0}" using an p0(1) by (auto simp: answered_def oms_core_fields pool_init_live)
  have n0: "net_of 0 s = 0" and st: "ec_states s = states"
    using an by (auto simp: answered_def nets_same_def net_of_def env_same_def oms_core_fields flat_position_def oms_cfg_def)
  have gw: "gw_orders ex ?s0 = []" for ex by (simp add: gw_orders_def oms_core_fields spsc_init_contents)
  obtain snaps g where c: "capture s = (snaps, s\<lparr>ec_gateways := g\<rparr>)" "to_fill 0 snaps s" "length snaps = length ids"
    "(\<Sum>x\<leftarrow>snaps. snap_qty x) = exposure 0 (ec_pool s)"
    using captured [OF x assms(5) gw _ assms(6)] assms(3) st by (auto simp: oms_sig_fields)
  let ?s = "s\<lparr>ec_gateways := g\<rparr>"
  have xs: "exposed_core l ?s" "to_fill 0 snaps ?s" using x c(2) put_gateways by blast+
  note fa = fill_all [OF xs, of E]
  obtain s' where s': "run_reports E (map fill_report snaps) ?s = Some s'" "exposed_core l s'"
    "net_of 0 s' = net_of 0 ?s + total_executed E 0 (map fill_report snaps) ?s"
    using protocol_reports_book [OF xs(1) conjunct1 [OF fa]] by blast
  have "exposed_ok 0 (ec_pool s)" using x p0(1) by (simp add: exposed_core_def all_exposed_def)
  then have le: "(\<Sum>x\<leftarrow>snaps. snap_qty x) \<le> 5000" using c(4) p0(2) by (simp add: exposed_ok_def the_parent_def)
  have net: "net_of 0 s' = (\<Sum>x\<leftarrow>snaps. snap_qty x)" using s'(3) fa n0 by (simp add: net_of_def)
  have inv: "parents_inv (ec_pool s')" using s'(2) by (simp add: exposed_core_def core_ok_def pool_ok_def pool_inv_def)
  have dn: "parents_in_use (ec_pool s') = 0" if "(\<Sum>x\<leftarrow>snaps. snap_qty x) = 5000"
    using fa s'(1) that p0(2) live inv by (cases snaps) (simp_all add: parents_in_use_card the_parent_def)
  obtain rep where "oms_main E inp = Some (if parents_in_use (ec_pool s') = 0 then 0 else 1, rep, snaps, s')"
    "or_children rep = length snaps" "or_rows rep = snap_rows 0 snaps"
    using oms_main_steps [OF assms(1,4) c(1) s'(1)] by blast
  then show ?thesis using net le dn c(3) p0(3) by auto
qed

text \<open>C11: The demo of the whole path.  With any clock, any exponential and any input the program runs to
  the end.  The order is worth more than the automatic limit, so it asks: unless the input begins with
  \<^verbatim>\<open>yes\<close> no order is sent, no row is printed and the position stays flat, and the program still exits
  with code 0.  If the operator confirms, at most sixteen orders go out, one printed row for each; after the simulated fills the
  position is exactly the sum of the captured lots, which is at most the 5000 lots of the signal; and
  when they add up to 5000, every order slot is free again and the exit code is 0.\<close>

theorem oms_example_run:
  "\<exists>code rep snaps core. oms_main E inp = Some (code, rep, snaps, core) \<and> length snaps \<le> kMaxChildrenPerParent \<and>
    or_children rep = length snaps \<and> or_rows rep = snap_rows 0 snaps \<and>
    net_of 0 core = (\<Sum>x\<leftarrow>snaps. snap_qty x) \<and> (\<Sum>x\<leftarrow>snaps. snap_qty x) \<le> 5000 \<and>
    (if take 3 inp = ''yes'' then ((\<Sum>x\<leftarrow>snaps. snap_qty x) = 5000 \<longrightarrow> code = 0)
     else snaps = [] \<and> code = 0)"
proof -
  obtain states where st: "oms_states = Some states" "length states = 5" "\<forall>ex<5. sor_exchange ex (states ! ex)" using oms_states_ok by blast
  obtain l where l: "lit (1/1000) = Fin l" "lot_unit l" using thousandth_lot by blast
  let ?s = "oms_core E states inp"
  have x: "exposed_core l ?s" by (rule oms_core_exposed [OF st(2,3) l])
  then have ok: "core_ok ?s" by (simp add: exposed_core_def)
  note d = oms_decisions [of E states inp]
  obtain a rest where pr: "prompt_confirmation inp = (a, rest)" by fastforce
  have a: "a \<longleftrightarrow> take 3 inp = ''yes''" using prompt_yes [of inp] pr by simp
  have flat: "net_of 0 ?s = 0" "live_parents (ec_pool ?s) = {}" by (simp_all add: net_of_def oms_core_fields flat_position_def pool_init_live)
  show ?thesis
  proof (cases "take 3 inp = ''yes''")
    case False
    let ?t = "notify_reject_sig E oms_sig NOTIONAL_GATE_BLOCK (?s\<lparr>ec_stdin := rest\<rparr>)"
    have run: "on_strategy_order E oms_sig ?s = Some ?t" using d(1) pr a False by (simp add: on_strategy_order_def)
    then have "core_ok ?t" using on_strategy_order_ok [OF ok, of oms_sig E] by (simp add: oms_sig_fields answered_def)
    from oms_nothing [OF st(1) run this] flat False show ?thesis
      by (auto simp: notify_reject_sig_def notify_reject_def now_ns_def net_of_def)
  next
    case True
    obtain P where P: "alloc_parent (ec_pool ?s) = (Some 0, P)" using oms_slot by blast
    have ap: "approve (ec_gate ?s) oms_sig (ec_stdin ?s) = (True, rest)" using d(1) pr a True by simp
    have n: "length (ec_states ?s) \<le> 5" using st(2) by (simp add: oms_core_fields oms_cfg_def)
    have q: "0 < (5000::int)" by simp
    show ?thesis
    proof (rule accepted_signal_cases [OF ok ap P d(2) [symmetric] q d(3) n oms_room, of E])
      fix s assume s: "on_strategy_order E oms_sig ?s = Some s" "live_parents (ec_pool s) = live_parents (ec_pool ?s)"
        "ec_pos s = ec_pos ?s" "ec_gateways s = ec_gateways ?s"
      have "core_ok s" using on_strategy_order_ok [OF ok, of oms_sig E] s(1) by (simp add: oms_sig_fields answered_def)
      from oms_nothing [OF st(1) s(1) this s(4)] s flat True show ?thesis by (auto simp: net_of_def)
    next
      fix buf s ts ids assume s: "on_strategy_order E oms_sig ?s = Some s" "buf \<noteq> []" "went_out 0 ts oms_sig 5000 (take 16 buf) ids ?s s"
      have "length (take 16 buf) \<le> 16" by simp
      from oms_filled [OF st(1) x st(2) s(1,3) this] this show ?thesis unfolding if_P [OF True] kMaxChildrenPerParent_def by metis
    qed
  qed
qed

theorem oms_example_run_witness:
  "\<exists>rep core. oms_main demo_env ''no'' = Some (0, rep, [], core) \<and> or_rows rep = [] \<and> net_of 0 core = 0"
  using oms_example_run [of demo_env "''no''"] by auto

end
