(* ===== verification/Release_Acquire.thy ===== *)
theory Release_Acquire
  imports Spsc_Queue
begin

text \<open>
  \<^verbatim>\<open>src/oms/spsc_queue.hpp\<close> under the memory orders it names.  The theory \<open>Spsc_Queue\<close> interleaves the
  two threads over one memory; here a load need not return the latest store.

  An atomic index has one writer, so its modification order is the list of that writer's stores.  A
  thread has a position in the list of the other's index, and a load may return any store from there
  on.  What orders the two threads is counted by clocks: each thread's clock grows with its release
  stores, a release store carries the clock, and an acquire load that reads it learns it; relaxed
  operations carry and learn nothing.  The cells of the array are plain memory: a cell has the clock
  of the last write and of the last read, and an access that the other thread's last conflicting
  access does not happen before is a data race, after which C++ promises nothing.

  The lemmas: the orders that the code names are enough.  No run has a data race, and what is
  received is what was sent.
\<close>

subsection \<open>Atomic locations and plain cells\<close>

datatype memory_order = mo_relaxed | mo_acquire | mo_release

text \<open>A store in the modification order: its value and the clock it carries.\<close>

type_synonym 'v stores = "('v \<times> nat) list"

record thread_view =
  th_clock :: nat
  th_known :: nat
  th_pos :: nat

definition may_read :: "nat \<Rightarrow> 'm list \<Rightarrow> nat \<Rightarrow> bool" where
  "may_read p h i \<longleftrightarrow> p \<le> i \<and> i < length h"

definition atomic_store :: "memory_order \<Rightarrow> nat \<Rightarrow> 'v \<Rightarrow> 'v stores \<Rightarrow> 'v stores" where
  "atomic_store mo clk v h = h @ [(v, if mo = mo_release then clk else 0)]"

text \<open>The load of the store at position \<open>i\<close>, which carries \<open>clk\<close>.\<close>

definition atomic_load :: "memory_order \<Rightarrow> nat \<Rightarrow> nat \<Rightarrow> thread_view \<Rightarrow> thread_view" where
  "atomic_load mo i clk th = th\<lparr>th_pos := i, th_known := (if mo = mo_acquire then max (th_known th) clk else th_known th)\<rparr>"

record 'a cell =
  cell_val :: 'a
  cell_w :: nat
  cell_r :: nat

subsection \<open>The ring\<close>

record 'a ring_sys =
  rg_cells :: "u32 \<Rightarrow> 'a cell"
  rg_head :: "u32 stores"
  rg_tail :: "u32 stores"
  rg_prod :: thread_view
  rg_cons :: thread_view
  rg_p :: "'a ppc"
  rg_c :: "'a cpc"
  rg_sent :: "'a list"
  rg_received :: "'a list"
  rg_raced :: bool

definition ring_init :: "'a \<Rightarrow> 'a ring_sys" where
  "ring_init d = \<lparr>rg_cells = (\<lambda>_. \<lparr>cell_val = d, cell_w = 0, cell_r = 0\<rparr>), rg_head = [(0, 0)], rg_tail = [(0, 0)],
     rg_prod = \<lparr>th_clock = 1, th_known = 0, th_pos = 0\<rparr>, rg_cons = \<lparr>th_clock = 1, th_known = 0, th_pos = 0\<rparr>,
     rg_p = PIdle, rg_c = CIdle, rg_sent = [], rg_received = [], rg_raced = False\<rparr>"

text \<open>The accesses of \<^verbatim>\<open>push\<close> and \<^verbatim>\<open>pop\<close> with the orders of the source.  A thread's relaxed load of its own
  index returns its last store.\<close>

inductive ring_step :: "u32 \<Rightarrow> 'a ring_sys \<Rightarrow> 'a ring_sys \<Rightarrow> bool" for N where
  p_load: "rg_p s = PIdle \<Longrightarrow> h = fst (last (rg_head s)) \<Longrightarrow> ring_step N s (s\<lparr>rg_p := PLoaded v h ((h + 1) AND kMask N)\<rparr>)"
| p_full: "rg_p s = PLoaded v h next_h \<Longrightarrow> may_read (th_pos (rg_prod s)) (rg_tail s) i \<Longrightarrow> rg_tail s ! i = (t, clk) \<Longrightarrow> next_h = t \<Longrightarrow>
     ring_step N s (s\<lparr>rg_prod := atomic_load mo_acquire i clk (rg_prod s), rg_p := PIdle\<rparr>)"
| p_room: "rg_p s = PLoaded v h next_h \<Longrightarrow> may_read (th_pos (rg_prod s)) (rg_tail s) i \<Longrightarrow> rg_tail s ! i = (t, clk) \<Longrightarrow> next_h \<noteq> t \<Longrightarrow>
     ring_step N s (s\<lparr>rg_prod := atomic_load mo_acquire i clk (rg_prod s), rg_p := PChecked v h next_h\<rparr>)"
| p_write: "rg_p s = PChecked v h next_h \<Longrightarrow>
     ring_step N s (s\<lparr>rg_cells := (rg_cells s)(h := (rg_cells s h)\<lparr>cell_val := v, cell_w := th_clock (rg_prod s)\<rparr>),
       rg_raced := rg_raced s \<or> th_known (rg_prod s) < cell_r (rg_cells s h), rg_p := PWritten v h next_h\<rparr>)"
| p_publish: "rg_p s = PWritten v h next_h \<Longrightarrow>
     ring_step N s (s\<lparr>rg_head := atomic_store mo_release (th_clock (rg_prod s)) next_h (rg_head s),
       rg_prod := (rg_prod s)\<lparr>th_clock := th_clock (rg_prod s) + 1\<rparr>, rg_p := PIdle, rg_sent := rg_sent s @ [v]\<rparr>)"
| c_load: "rg_c s = CIdle \<Longrightarrow> t = fst (last (rg_tail s)) \<Longrightarrow> ring_step N s (s\<lparr>rg_c := CLoaded t\<rparr>)"
| c_none: "rg_c s = CLoaded t \<Longrightarrow> may_read (th_pos (rg_cons s)) (rg_head s) i \<Longrightarrow> rg_head s ! i = (h, clk) \<Longrightarrow> t = h \<Longrightarrow>
     ring_step N s (s\<lparr>rg_cons := atomic_load mo_acquire i clk (rg_cons s), rg_c := CIdle\<rparr>)"
| c_some: "rg_c s = CLoaded t \<Longrightarrow> may_read (th_pos (rg_cons s)) (rg_head s) i \<Longrightarrow> rg_head s ! i = (h, clk) \<Longrightarrow> t \<noteq> h \<Longrightarrow>
     ring_step N s (s\<lparr>rg_cons := atomic_load mo_acquire i clk (rg_cons s), rg_c := CChecked t\<rparr>)"
| c_read: "rg_c s = CChecked t \<Longrightarrow>
     ring_step N s (s\<lparr>rg_cells := (rg_cells s)(t := (rg_cells s t)\<lparr>cell_r := th_clock (rg_cons s)\<rparr>),
       rg_raced := rg_raced s \<or> th_known (rg_cons s) < cell_w (rg_cells s t), rg_c := CRead t (cell_val (rg_cells s t))\<rparr>)"
| c_publish: "rg_c s = CRead t v \<Longrightarrow>
     ring_step N s (s\<lparr>rg_tail := atomic_store mo_release (th_clock (rg_cons s)) ((t + 1) AND kMask N) (rg_tail s),
       rg_cons := (rg_cons s)\<lparr>th_clock := th_clock (rg_cons s) + 1\<rparr>, rg_c := CIdle, rg_received := rg_received s @ [v]\<rparr>)"

subsection \<open>Positions in the ring\<close>

text \<open>The index that the \<open>n\<close>-th message has, and the stores of a thread that has sent \<open>n\<close> messages.\<close>

definition ring_ix :: "nat \<Rightarrow> nat \<Rightarrow> u32" where
  "ring_ix M n = of_nat (n mod M)"

definition index_stores :: "nat \<Rightarrow> nat \<Rightarrow> u32 stores" where
  "index_stores M n = map (\<lambda>i. (ring_ix M i, i)) [0..<Suc n]"

lemma index_stores [simp]:
  "length (index_stores M n) = Suc n" "last (index_stores M n) = (ring_ix M n, n)" "i \<le> n \<Longrightarrow> index_stores M n ! i = (ring_ix M i, i)"
  "atomic_store mo_release (Suc n) (ring_ix M (Suc n)) (index_stores M n) = index_stores M (Suc n)"
  by (simp_all add: index_stores_def atomic_store_def nth_append less_Suc_eq_le del: upt_Suc) (auto simp: upt_Suc)

lemma pos_mod_bound_nat: "n mod 2 ^ k < (2 ^ k :: nat)"
  by simp

lemma unat_ring_ix: "k < 32 \<Longrightarrow> unat (ring_ix (2 ^ k) n) = n mod 2 ^ k"
proof -
  assume "k < 32"
  then have "(2::nat) ^ k \<le> 2 ^ 31" by (intro power_increasing) simp_all
  then have "n mod 2 ^ k < 2 ^ 32" using order_less_le_trans [OF pos_mod_bound_nat [of n k]] by fastforce
  then show ?thesis by (simp add: ring_ix_def unat_of_nat)
qed

lemma ring_ix_eq: "k < 32 \<Longrightarrow> ring_ix (2 ^ k) m = ring_ix (2 ^ k) n \<longleftrightarrow> m mod 2 ^ k = n mod 2 ^ k"
  by (metis unat_ring_ix ring_ix_def)

lemma ring_ix_Suc: "k < 32 \<Longrightarrow> (ring_ix (2 ^ k) n + 1) AND kMask (2 ^ k) = ring_ix (2 ^ k) (Suc n)"
  by (simp add: word_unat_eq_iff unat_ring_Suc unat_ring_ix mod_Suc_eq)

text \<open>Two messages in one slot are a whole turn of the ring apart.\<close>

lemma same_slot: "m < n \<Longrightarrow> m mod M = n mod M \<Longrightarrow> m + M \<le> (n::nat)"
  using mod_eq_dvd_iff_nat [of m n M] by (auto dest!: dvd_imp_le)

subsection \<open>The invariant\<close>

text \<open>A producer that has sent \<open>np\<close> messages and read position \<open>pv\<close> of the other index; a consumer that has
  received \<open>nc\<close> and read position \<open>cv\<close>.\<close>

fun prod_ok :: "nat \<Rightarrow> nat \<Rightarrow> nat \<Rightarrow> (u32 \<Rightarrow> 'a cell) \<Rightarrow> 'a ppc \<Rightarrow> bool" where
  "prod_ok M np pv cells PIdle \<longleftrightarrow> np < pv + M"
| "prod_ok M np pv cells (PLoaded v h n) \<longleftrightarrow> np < pv + M \<and> h = ring_ix M np \<and> n = ring_ix M (Suc np)"
| "prod_ok M np pv cells (PChecked v h n) \<longleftrightarrow> Suc np < pv + M \<and> h = ring_ix M np \<and> n = ring_ix M (Suc np)"
| "prod_ok M np pv cells (PWritten v h n) \<longleftrightarrow> Suc np < pv + M \<and> h = ring_ix M np \<and> n = ring_ix M (Suc np) \<and>
     cell_val (cells h) = v \<and> cell_w (cells h) = Suc np"

fun cons_ok :: "nat \<Rightarrow> nat \<Rightarrow> nat \<Rightarrow> 'a list \<Rightarrow> 'a cpc \<Rightarrow> bool" where
  "cons_ok M nc cv msgs CIdle \<longleftrightarrow> nc \<le> cv"
| "cons_ok M nc cv msgs (CLoaded t) \<longleftrightarrow> nc \<le> cv \<and> t = ring_ix M nc"
| "cons_ok M nc cv msgs (CChecked t) \<longleftrightarrow> nc < cv \<and> t = ring_ix M nc"
| "cons_ok M nc cv msgs (CRead t v) \<longleftrightarrow> nc < cv \<and> t = ring_ix M nc \<and> v = msgs ! nc"

definition cells_ok :: "nat \<Rightarrow> nat \<Rightarrow> nat \<Rightarrow> 'a list \<Rightarrow> (u32 \<Rightarrow> 'a cell) \<Rightarrow> bool" where
  "cells_ok M nc cv msgs cells \<longleftrightarrow>
     (\<forall>n. nc \<le> n \<and> n < length msgs \<longrightarrow> cell_val (cells (ring_ix M n)) = msgs ! n \<and> cell_w (cells (ring_ix M n)) = Suc n) \<and>
     (\<forall>w. cell_r (cells w) = 0 \<or> (\<exists>m<cv. cell_r (cells w) = Suc m \<and> w = ring_ix M m))"

definition ring_inv :: "nat \<Rightarrow> 'a ring_sys \<Rightarrow> bool" where
  "ring_inv M s \<longleftrightarrow>
     (let np = length (rg_sent s); nc = length (rg_received s); pv = th_pos (rg_prod s); cv = th_pos (rg_cons s)
      in rg_head s = index_stores M np \<and> rg_tail s = index_stores M nc \<and>
         th_clock (rg_prod s) = Suc np \<and> th_known (rg_prod s) = pv \<and> th_clock (rg_cons s) = Suc nc \<and> th_known (rg_cons s) = cv \<and>
         pv \<le> nc \<and> cv \<le> np \<and> nc \<le> cv \<and> np < pv + M \<and> prod_ok M np pv (rg_cells s) (rg_p s) \<and> cons_ok M nc cv (rg_sent s) (rg_c s) \<and>
         take nc (rg_sent s) = rg_received s \<and> cells_ok M nc cv (rg_sent s) (rg_cells s) \<and> \<not> rg_raced s)"

lemma ring_init_inv: "0 < M \<Longrightarrow> ring_inv M (ring_init d)"
  by (simp add: ring_inv_def ring_init_def index_stores_def cells_ok_def ring_ix_def)

text \<open>The producer's side.\<close>

lemma producer_load_inv:
  assumes "ring_inv (2 ^ k) s" and "k < 32" and "rg_p s = PLoaded v h next_h" and "may_read (th_pos (rg_prod s)) (rg_tail s) i"
    and "rg_tail s ! i = (t, clk)"
  shows "ring_inv (2 ^ k) (s\<lparr>rg_prod := atomic_load mo_acquire i clk (rg_prod s), rg_p := PIdle\<rparr>)"
    and "next_h \<noteq> t \<Longrightarrow> ring_inv (2 ^ k) (s\<lparr>rg_prod := atomic_load mo_acquire i clk (rg_prod s), rg_p := PChecked v h next_h\<rparr>)"
proof -
  let ?np = "length (rg_sent s)" and ?nc = "length (rg_received s)"
  have i: "th_pos (rg_prod s) \<le> i" "i \<le> ?nc" using assms(1,4) by (simp_all add: ring_inv_def may_read_def Let_def)
  then have t: "t = ring_ix (2 ^ k) i" "clk = i" using assms(1,5) by (auto simp: ring_inv_def Let_def)
  have n: "next_h = ring_ix (2 ^ k) (Suc ?np)" "?np < i + 2 ^ k" using assms(1,3) i by (simp_all add: ring_inv_def Let_def)
  show "ring_inv (2 ^ k) (s\<lparr>rg_prod := atomic_load mo_acquire i clk (rg_prod s), rg_p := PIdle\<rparr>)"
    using assms(1) i t(2) n(2) by (simp add: ring_inv_def atomic_load_def Let_def)
  assume "next_h \<noteq> t"
  then have "Suc ?np \<noteq> i + 2 ^ k" using n(1) t(1) ring_ix_eq [OF assms(2)] by auto
  then have "Suc ?np < i + 2 ^ k" using n(2) by simp
  then show "ring_inv (2 ^ k) (s\<lparr>rg_prod := atomic_load mo_acquire i clk (rg_prod s), rg_p := PChecked v h next_h\<rparr>)"
    using assms(1,3) i t(2) n(2) by (simp add: ring_inv_def atomic_load_def Let_def)
qed

lemma producer_write_inv:
  assumes "ring_inv (2 ^ k) s" and "k < 32" and "rg_p s = PChecked v h next_h"
  shows "ring_inv (2 ^ k) (s\<lparr>rg_cells := (rg_cells s)(h := (rg_cells s h)\<lparr>cell_val := v, cell_w := th_clock (rg_prod s)\<rparr>),
       rg_raced := rg_raced s \<or> th_known (rg_prod s) < cell_r (rg_cells s h), rg_p := PWritten v h next_h\<rparr>)"
proof -
  let ?np = "length (rg_sent s)" and ?nc = "length (rg_received s)" and ?pv = "th_pos (rg_prod s)" and ?cv = "th_pos (rg_cons s)"
  have b: "?pv \<le> ?nc" "?cv \<le> ?np" "Suc ?np < ?pv + 2 ^ k" "h = ring_ix (2 ^ k) ?np" "th_clock (rg_prod s) = Suc ?np" "th_known (rg_prod s) = ?pv"
    and cells: "cells_ok (2 ^ k) ?nc ?cv (rg_sent s) (rg_cells s)"
    using assms(1,3) by (auto simp: ring_inv_def Let_def)
  have "cell_r (rg_cells s h) \<le> ?pv"
  proof (cases "cell_r (rg_cells s h) = 0")
    case False
    then obtain m where m: "m < ?cv" "cell_r (rg_cells s h) = Suc m" "h = ring_ix (2 ^ k) m" using cells unfolding cells_ok_def by metis
    then have "m + 2 ^ k \<le> ?np" using b(2,4) ring_ix_eq [OF assms(2)] by (intro same_slot) auto
    then show ?thesis using m(2) b(3) by simp
  qed simp
  moreover have "ring_ix (2 ^ k) n \<noteq> h" if "?nc \<le> n" "n < ?np" for n
    using same_slot [of n ?np "2 ^ k"] that b ring_ix_eq [OF assms(2)] by fastforce
  then have "cells_ok (2 ^ k) ?nc ?cv (rg_sent s) ((rg_cells s)(h := (rg_cells s h)\<lparr>cell_val := v, cell_w := Suc ?np\<rparr>))"
    using cells by (auto simp: cells_ok_def)
  ultimately show ?thesis using assms(1,3) b(5,6) by (auto simp: ring_inv_def Let_def)
qed

lemma producer_publish_inv:
  assumes "ring_inv (2 ^ k) s" and "rg_p s = PWritten v h next_h"
  shows "ring_inv (2 ^ k) (s\<lparr>rg_head := atomic_store mo_release (th_clock (rg_prod s)) next_h (rg_head s),
       rg_prod := (rg_prod s)\<lparr>th_clock := th_clock (rg_prod s) + 1\<rparr>, rg_p := PIdle, rg_sent := rg_sent s @ [v]\<rparr>)"
proof -
  let ?np = "length (rg_sent s)" and ?nc = "length (rg_received s)" and ?cv = "th_pos (rg_cons s)"
  have b: "?cv \<le> ?np" "?nc \<le> ?cv" "cons_ok (2 ^ k) ?nc ?cv (rg_sent s) (rg_c s)" "cells_ok (2 ^ k) ?nc ?cv (rg_sent s) (rg_cells s)"
    "cell_val (rg_cells s (ring_ix (2 ^ k) ?np)) = v" "cell_w (rg_cells s (ring_ix (2 ^ k) ?np)) = Suc ?np"
    using assms by (auto simp: ring_inv_def Let_def)
  have "cons_ok (2 ^ k) ?nc ?cv (rg_sent s @ [v]) (rg_c s)" using b(1,3) by (cases "rg_c s") (auto simp: nth_append)
  moreover have "cells_ok (2 ^ k) ?nc ?cv (rg_sent s @ [v]) (rg_cells s)"
    using b(4-6) by (auto simp: cells_ok_def nth_append less_Suc_eq)
  ultimately show ?thesis using assms b(1,2) by (auto simp: ring_inv_def Let_def)
qed

text \<open>The consumer's side.\<close>

lemma consumer_load_inv:
  assumes "ring_inv (2 ^ k) s" and "k < 32" and "rg_c s = CLoaded t" and "may_read (th_pos (rg_cons s)) (rg_head s) i"
    and "rg_head s ! i = (h, clk)"
  shows "ring_inv (2 ^ k) (s\<lparr>rg_cons := atomic_load mo_acquire i clk (rg_cons s), rg_c := CIdle\<rparr>)"
    and "t \<noteq> h \<Longrightarrow> ring_inv (2 ^ k) (s\<lparr>rg_cons := atomic_load mo_acquire i clk (rg_cons s), rg_c := CChecked t\<rparr>)"
proof -
  let ?np = "length (rg_sent s)" and ?nc = "length (rg_received s)"
  have i: "th_pos (rg_cons s) \<le> i" "i \<le> ?np" using assms(1,4) by (simp_all add: ring_inv_def may_read_def Let_def)
  then have h: "h = ring_ix (2 ^ k) i" "clk = i" using assms(1,5) by (auto simp: ring_inv_def Let_def)
  have n: "t = ring_ix (2 ^ k) ?nc" "?nc \<le> i" using assms(1,3) i by (simp_all add: ring_inv_def Let_def)
  have cells: "cells_ok (2 ^ k) ?nc i (rg_sent s) (rg_cells s)"
    using assms(1) i(1) unfolding ring_inv_def cells_ok_def Let_def by (meson less_le_trans)
  show "ring_inv (2 ^ k) (s\<lparr>rg_cons := atomic_load mo_acquire i clk (rg_cons s), rg_c := CIdle\<rparr>)"
    using assms(1) i h(2) n(2) cells by (simp add: ring_inv_def atomic_load_def Let_def)
  assume "t \<noteq> h"
  then have "?nc < i" using n h(1) by (cases "?nc = i") auto
  then show "ring_inv (2 ^ k) (s\<lparr>rg_cons := atomic_load mo_acquire i clk (rg_cons s), rg_c := CChecked t\<rparr>)"
    using assms(1,3) i h(2) n cells by (simp add: ring_inv_def atomic_load_def Let_def)
qed

lemma consumer_read_inv:
  assumes "ring_inv (2 ^ k) s" and "rg_c s = CChecked t"
  shows "ring_inv (2 ^ k) (s\<lparr>rg_cells := (rg_cells s)(t := (rg_cells s t)\<lparr>cell_r := th_clock (rg_cons s)\<rparr>),
       rg_raced := rg_raced s \<or> th_known (rg_cons s) < cell_w (rg_cells s t), rg_c := CRead t (cell_val (rg_cells s t))\<rparr>)"
proof -
  let ?np = "length (rg_sent s)" and ?nc = "length (rg_received s)" and ?cv = "th_pos (rg_cons s)"
  have b: "?nc < ?cv" "?cv \<le> ?np" "t = ring_ix (2 ^ k) ?nc" "th_clock (rg_cons s) = Suc ?nc" "th_known (rg_cons s) = ?cv"
    and cells: "cells_ok (2 ^ k) ?nc ?cv (rg_sent s) (rg_cells s)"
    using assms by (auto simp: ring_inv_def Let_def)
  have v: "cell_val (rg_cells s t) = rg_sent s ! ?nc" "cell_w (rg_cells s t) = Suc ?nc"
    using cells b(1-3) by (auto simp: cells_ok_def)
  let ?cells = "(rg_cells s)(t := (rg_cells s t)\<lparr>cell_r := Suc ?nc\<rparr>)"
  have "cell_val (?cells w) = cell_val (rg_cells s w)" "cell_w (?cells w) = cell_w (rg_cells s w)" for w by simp_all
  then have "cells_ok (2 ^ k) ?nc ?cv (rg_sent s) ?cells" using cells b(1,3) unfolding cells_ok_def by auto
  moreover have "prod_ok (2 ^ k) ?np (th_pos (rg_prod s)) ((rg_cells s)(t := (rg_cells s t)\<lparr>cell_r := Suc ?nc\<rparr>)) (rg_p s)"
    using assms(1) by (cases "rg_p s") (auto simp: ring_inv_def Let_def)
  ultimately show ?thesis using assms v b by (auto simp: ring_inv_def Let_def)
qed

lemma consumer_publish_inv:
  assumes "ring_inv (2 ^ k) s" and "k < 32" and "rg_c s = CRead t v"
  shows "ring_inv (2 ^ k) (s\<lparr>rg_tail := atomic_store mo_release (th_clock (rg_cons s)) ((t + 1) AND kMask (2 ^ k)) (rg_tail s),
       rg_cons := (rg_cons s)\<lparr>th_clock := th_clock (rg_cons s) + 1\<rparr>, rg_c := CIdle, rg_received := rg_received s @ [v]\<rparr>)"
proof -
  let ?np = "length (rg_sent s)" and ?nc = "length (rg_received s)" and ?cv = "th_pos (rg_cons s)"
  have b: "?nc < ?cv" "?cv \<le> ?np" "t = ring_ix (2 ^ k) ?nc" "v = rg_sent s ! ?nc" "take ?nc (rg_sent s) = rg_received s"
    "cells_ok (2 ^ k) ?nc ?cv (rg_sent s) (rg_cells s)"
    using assms(1,3) by (auto simp: ring_inv_def Let_def)
  have "rg_received s @ [v] = take (Suc ?nc) (rg_sent s)" using b by (metis take_Suc_conv_app_nth order_less_le_trans)
  moreover have "cells_ok (2 ^ k) (Suc ?nc) ?cv (rg_sent s) (rg_cells s)" using b(6) by (simp add: cells_ok_def)
  ultimately show ?thesis using assms(1) b(1-3) ring_ix_Suc [OF assms(2)] by (auto simp: ring_inv_def Let_def)
qed

lemma ring_step_inv:
  assumes "ring_step (2 ^ k) s s'" and "ring_inv (2 ^ k) s" and "k < 32"
  shows "ring_inv (2 ^ k) s'"
  using assms(1)
proof cases
  case (p_load h v)
  then show ?thesis using assms(2) ring_ix_Suc [OF assms(3)] by (simp add: ring_inv_def Let_def)
next
  case (p_full v h next_h i t clk)
  then show ?thesis using producer_load_inv(1) [OF assms(2,3)] by simp
next
  case (p_room v h next_h i t clk)
  then show ?thesis using producer_load_inv(2) [OF assms(2,3)] by simp
next
  case (p_write v h next_h)
  then show ?thesis using producer_write_inv [OF assms(2,3)] by simp
next
  case (p_publish v h next_h)
  then show ?thesis using producer_publish_inv [OF assms(2)] by simp
next
  case (c_load t)
  then show ?thesis using assms(2) by (simp add: ring_inv_def Let_def)
next
  case (c_none t i h clk)
  then show ?thesis using consumer_load_inv(1) [OF assms(2,3)] by simp
next
  case (c_some t i h clk)
  then show ?thesis using consumer_load_inv(2) [OF assms(2,3)] by simp
next
  case (c_read t)
  then show ?thesis using consumer_read_inv [OF assms(2)] by simp
next
  case (c_publish t v)
  then show ?thesis using consumer_publish_inv [OF assms(2,3)] by simp
qed

lemma ring_reachable_inv:
  assumes "(ring_step (2 ^ k))\<^sup>*\<^sup>* (ring_init d) s" and "k < 32"
  shows "ring_inv (2 ^ k) s"
  using assms(1)
proof (induction rule: rtranclp_induct)
  case base
  then show ?case by (simp add: ring_init_inv)
next
  case (step s s')
  then show ?case using ring_step_inv assms(2) by blast
qed

subsection \<open>Calls that complete\<close>

text \<open>If the producer's load returns the latest index of the consumer and that leaves room, \<^verbatim>\<open>push\<close> runs through;
  likewise \<^verbatim>\<open>pop\<close>.\<close>

lemma push_completes:
  assumes "rg_p s = PIdle" and "last (rg_head s) = (h, c)" and "may_read (th_pos (rg_prod s)) (rg_tail s) i" and "rg_tail s ! i = (t, clk)"
    and "(h + 1) AND kMask N \<noteq> t"
  shows "\<exists>s'. (ring_step N)\<^sup>*\<^sup>* s s' \<and> rg_sent s' = rg_sent s @ [v] \<and> rg_received s' = rg_received s \<and> rg_p s' = PIdle \<and> rg_c s' = rg_c s \<and>
    rg_cons s' = rg_cons s"
proof -
  let ?n = "(h + 1) AND kMask N" and ?th = "atomic_load mo_acquire i clk (rg_prod s)"
  define s1 where "s1 = s\<lparr>rg_p := PLoaded v h ?n\<rparr>"
  define s2 where "s2 = s1\<lparr>rg_prod := ?th, rg_p := PChecked v h ?n\<rparr>"
  define s3 where "s3 = s2\<lparr>rg_cells := (rg_cells s2)(h := (rg_cells s2 h)\<lparr>cell_val := v, cell_w := th_clock (rg_prod s2)\<rparr>),
       rg_raced := rg_raced s2 \<or> th_known (rg_prod s2) < cell_r (rg_cells s2 h), rg_p := PWritten v h ?n\<rparr>"
  define s4 where "s4 = s3\<lparr>rg_head := atomic_store mo_release (th_clock (rg_prod s3)) ?n (rg_head s3),
       rg_prod := (rg_prod s3)\<lparr>th_clock := th_clock (rg_prod s3) + 1\<rparr>, rg_p := PIdle, rg_sent := rg_sent s3 @ [v]\<rparr>"
  have "ring_step N s s1" unfolding s1_def using assms(1,2) by (intro ring_step.p_load) simp_all
  moreover have "ring_step N s1 s2" unfolding s2_def using ring_step.p_room [of s1 v h ?n i t clk N] assms(3-5) by (simp add: s1_def)
  moreover have "ring_step N s2 s3" unfolding s3_def by (rule ring_step.p_write) (simp add: s2_def)
  moreover have "ring_step N s3 s4" unfolding s4_def by (rule ring_step.p_publish) (simp add: s3_def)
  ultimately have "(ring_step N)\<^sup>*\<^sup>* s s4" by (meson rtranclp.rtrancl_into_rtrancl rtranclp.rtrancl_refl)
  then show ?thesis by (intro exI [of _ s4]) (simp add: s1_def s2_def s3_def s4_def)
qed

lemma pop_completes:
  assumes "rg_c s = CIdle" and "last (rg_tail s) = (t, c)" and "may_read (th_pos (rg_cons s)) (rg_head s) i" and "rg_head s ! i = (h, clk)"
    and "t \<noteq> h"
  shows "\<exists>s'. (ring_step N)\<^sup>*\<^sup>* s s' \<and> rg_sent s' = rg_sent s \<and> rg_received s' = rg_received s @ [cell_val (rg_cells s t)]"
proof -
  define s1 where "s1 = s\<lparr>rg_c := CLoaded t\<rparr>"
  define s2 where "s2 = s1\<lparr>rg_cons := atomic_load mo_acquire i clk (rg_cons s1), rg_c := CChecked t\<rparr>"
  define s3 where "s3 = s2\<lparr>rg_cells := (rg_cells s2)(t := (rg_cells s2 t)\<lparr>cell_r := th_clock (rg_cons s2)\<rparr>),
       rg_raced := rg_raced s2 \<or> th_known (rg_cons s2) < cell_w (rg_cells s2 t), rg_c := CRead t (cell_val (rg_cells s2 t))\<rparr>"
  define s4 where "s4 = s3\<lparr>rg_tail := atomic_store mo_release (th_clock (rg_cons s3)) ((t + 1) AND kMask N) (rg_tail s3),
       rg_cons := (rg_cons s3)\<lparr>th_clock := th_clock (rg_cons s3) + 1\<rparr>, rg_c := CIdle, rg_received := rg_received s3 @ [cell_val (rg_cells s t)]\<rparr>"
  have "ring_step N s s1" unfolding s1_def using assms(1,2) by (intro ring_step.c_load) simp_all
  moreover have "ring_step N s1 s2" unfolding s2_def using assms(3-5) by (intro ring_step.c_some [of _ t i h clk]) (simp_all add: s1_def)
  moreover have "ring_step N s2 s3" unfolding s3_def by (rule ring_step.c_read) (simp add: s2_def)
  moreover have "ring_step N s3 s4" unfolding s4_def by (rule ring_step.c_publish) (simp add: s3_def s2_def s1_def)
  ultimately have "(ring_step N)\<^sup>*\<^sup>* s s4" by (meson rtranclp.rtrancl_into_rtrancl rtranclp.rtrancl_refl)
  then show ?thesis by (intro exI [of _ s4]) (simp add: s1_def s2_def s3_def s4_def)
qed

lemma ring_progress:
  assumes "ring_inv (2 ^ k) s" and "k < 32"
  shows "rg_p s = PIdle \<Longrightarrow> Suc (length (rg_sent s)) < length (rg_received s) + 2 ^ k \<Longrightarrow>
      \<exists>s'. (ring_step (2 ^ k))\<^sup>*\<^sup>* s s' \<and> rg_sent s' = rg_sent s @ [v] \<and> rg_received s' = rg_received s"
    and "rg_c s = CIdle \<Longrightarrow> length (rg_received s) < length (rg_sent s) \<Longrightarrow>
      \<exists>s'. (ring_step (2 ^ k))\<^sup>*\<^sup>* s s' \<and> rg_sent s' = rg_sent s \<and> rg_received s' = rg_received s @ [rg_sent s ! length (rg_received s)]"
proof -
  let ?np = "length (rg_sent s)" and ?nc = "length (rg_received s)"
  have b: "rg_head s = index_stores (2 ^ k) ?np" "rg_tail s = index_stores (2 ^ k) ?nc" "th_pos (rg_prod s) \<le> ?nc" "th_pos (rg_cons s) \<le> ?np"
    "?nc \<le> ?np" "?np < ?nc + 2 ^ k" "cells_ok (2 ^ k) ?nc (th_pos (rg_cons s)) (rg_sent s) (rg_cells s)"
    using assms(1) by (auto simp: ring_inv_def Let_def)
  show "\<exists>s'. (ring_step (2 ^ k))\<^sup>*\<^sup>* s s' \<and> rg_sent s' = rg_sent s @ [v] \<and> rg_received s' = rg_received s"
    if "rg_p s = PIdle" "Suc ?np < ?nc + 2 ^ k"
  proof -
    have "Suc ?np mod 2 ^ k \<noteq> ?nc mod 2 ^ k" using same_slot [of ?nc "Suc ?np" "2 ^ k"] that(2) b(5) by auto
    then have "ring_ix (2 ^ k) (Suc ?np) \<noteq> ring_ix (2 ^ k) ?nc" using ring_ix_eq [OF assms(2)] by blast
    then show ?thesis
      using push_completes [OF that(1), of "ring_ix (2 ^ k) ?np" ?np ?nc "ring_ix (2 ^ k) ?nc" ?nc "2 ^ k" v] b ring_ix_Suc [OF assms(2)]
      by (auto simp: may_read_def)
  qed
  show "\<exists>s'. (ring_step (2 ^ k))\<^sup>*\<^sup>* s s' \<and> rg_sent s' = rg_sent s \<and> rg_received s' = rg_received s @ [rg_sent s ! ?nc]"
    if "rg_c s = CIdle" "?nc < ?np"
  proof -
    have "?nc mod 2 ^ k \<noteq> ?np mod 2 ^ k" using same_slot [of ?nc ?np "2 ^ k"] that(2) b(6) by auto
    then have "ring_ix (2 ^ k) ?nc \<noteq> ring_ix (2 ^ k) ?np" using ring_ix_eq [OF assms(2)] by blast
    moreover have "cell_val (rg_cells s (ring_ix (2 ^ k) ?nc)) = rg_sent s ! ?nc" using b(7) that(2) by (simp add: cells_ok_def)
    ultimately show ?thesis
      using pop_completes [OF that(1), of "ring_ix (2 ^ k) ?nc" ?nc ?np "ring_ix (2 ^ k) ?np" ?np "2 ^ k"] b by (auto simp: may_read_def)
  qed
qed

subsection \<open>Properties\<close>

text \<open>C17: The queue is correct under the memory orders it names.  One thread pushes and another pops, and
  a load of the other thread's index may return any store that the C++ rules allow it to see.  Then no
  run has a data race on the array; at every moment what has been received is the beginning of what
  has been sent, and less than a whole ring is in between; and an idle producer that has room, or an
  idle consumer with something to receive, can complete its call with the right value.\<close>

theorem ring_release_acquire:
  assumes "(ring_step (2 ^ k))\<^sup>*\<^sup>* (ring_init d) s" and "k < 32"
  shows "\<not> rg_raced s \<and> (\<exists>rest. rg_sent s = rg_received s @ rest \<and> length rest < 2 ^ k) \<and>
    (rg_p s = PIdle \<and> Suc (length (rg_sent s)) < length (rg_received s) + 2 ^ k \<longrightarrow>
      (\<exists>s'. (ring_step (2 ^ k))\<^sup>*\<^sup>* s s' \<and> rg_sent s' = rg_sent s @ [v] \<and> rg_received s' = rg_received s)) \<and>
    (rg_c s = CIdle \<and> length (rg_received s) < length (rg_sent s) \<longrightarrow>
      (\<exists>s'. (ring_step (2 ^ k))\<^sup>*\<^sup>* s s' \<and> rg_sent s' = rg_sent s \<and> rg_received s' = rg_received s @ [rg_sent s ! length (rg_received s)]))"
proof -
  have inv: "ring_inv (2 ^ k) s" by (rule ring_reachable_inv [OF assms])
  then have "take (length (rg_received s)) (rg_sent s) = rg_received s" "length (rg_sent s) < length (rg_received s) + 2 ^ k" "\<not> rg_raced s"
    by (auto simp: ring_inv_def Let_def)
  moreover from this have "rg_sent s = rg_received s @ drop (length (rg_received s)) (rg_sent s)" by (metis append_take_drop_id)
  moreover have "length (drop (length (rg_received s)) (rg_sent s)) < 2 ^ k"
    unfolding length_drop using calculation(2) zero_less_power [of "2::nat" k] by arith
  ultimately show ?thesis using ring_progress [OF inv assms(2)] by blast
qed

theorem ring_release_acquire_witness:
  "\<exists>s. (ring_step (2 ^ 10))\<^sup>*\<^sup>* (ring_init (0::nat)) s \<and> rg_received s = [7] \<and> \<not> rg_raced s"
proof -
  have i: "(ring_step (2 ^ 10))\<^sup>*\<^sup>* (ring_init (0::nat)) (ring_init 0)" by simp
  obtain s where s: "(ring_step (2 ^ 10))\<^sup>*\<^sup>* (ring_init (0::nat)) s" "rg_sent s = [7]" "rg_received s = []" "rg_c s = CIdle"
    using push_completes [of "ring_init (0::nat)" 0 0 0 0 0 "2 ^ 10" 7] by (auto simp: ring_init_def may_read_def kMask_def)
  obtain s' where s': "(ring_step (2 ^ 10))\<^sup>*\<^sup>* s s'" "rg_received s' = [7]"
    using ring_release_acquire [OF s(1)] s(2-4) by auto
  have r: "(ring_step (2 ^ 10))\<^sup>*\<^sup>* (ring_init 0) s'" using s(1) s'(1) by simp
  show ?thesis using ring_release_acquire [OF r] r s'(2) by auto
qed

end
