(* ===== verification/Shared_Snapshot.thy ===== *)
theory Shared_Snapshot
  imports Release_Acquire Book_Snapshot
begin

text \<open>
  \<^verbatim>\<open>ExchangeSnapshot\<close> of \<^verbatim>\<open>src/oms/book_snapshot.hpp\<close> with the feed thread in \<^verbatim>\<open>update\<close> and the execution thread
  in \<^verbatim>\<open>read\<close> at the same time, under the memory orders of the source (the model of \<open>Release_Acquire\<close>, with a
  position for each of the four atomics).  The three values are stored relaxed and the timestamp with
  release; it carries the positions of the values stored before it, and the acquire load of the
  timestamp moves the reader's positions there.

  The lemmas: every value of a reading is at least as recent as the timestamp of the reading, although
  the values of one reading can come from different updates.
\<close>

subsection \<open>The two threads\<close>

type_synonym snap_args = "double \<times> double \<times> double \<times> u64"

fun arg_vol :: "snap_args \<Rightarrow> double" where "arg_vol (vol, imb, mid, ts) = vol"
fun arg_imb :: "snap_args \<Rightarrow> double" where "arg_imb (vol, imb, mid, ts) = imb"
fun arg_mid :: "snap_args \<Rightarrow> double" where "arg_mid (vol, imb, mid, ts) = mid"
fun arg_ts :: "snap_args \<Rightarrow> u64" where "arg_ts (vol, imb, mid, ts) = ts"

text \<open>Positions in the modification orders of the three values.\<close>

record positions =
  at_vol :: nat
  at_imb :: nat
  at_mid :: nat

definition join_positions :: "memory_order \<Rightarrow> positions \<Rightarrow> positions \<Rightarrow> positions" where
  "join_positions mo carried p = (if mo = mo_acquire
     then \<lparr>at_vol = max (at_vol p) (at_vol carried), at_imb = max (at_imb p) (at_imb carried), at_mid = max (at_mid p) (at_mid carried)\<rparr>
     else p)"

definition carried_positions :: "memory_order \<Rightarrow> positions \<Rightarrow> positions" where
  "carried_positions mo p = (if mo = mo_release then p else \<lparr>at_vol = 0, at_imb = 0, at_mid = 0\<rparr>)"

text \<open>What the writer has stored, and what the reader has loaded: the time it reads for, the position and
  value of the timestamp, then the values.\<close>

datatype feed_pc = FIdle | FVol snap_args | FImb snap_args | FMid snap_args
datatype read_pc = RIdle | RTs u64 nat u64 | RVol u64 nat u64 double | RImb u64 nat u64 double double

record snap_sys =
  sy_vol :: "double list"
  sy_imb :: "double list"
  sy_mid :: "double list"
  sy_ts :: "(u64 \<times> positions) list"
  sy_feed :: feed_pc
  sy_read :: read_pc
  sy_at :: positions
  sy_at_ts :: nat
  sy_updates :: "snap_args list"
  sy_readings :: "Reading list"

definition snap_sys_init :: snap_sys where
  "snap_sys_init = \<lparr>sy_vol = [0], sy_imb = [0], sy_mid = [0], sy_ts = [(0, \<lparr>at_vol = 0, at_imb = 0, at_mid = 0\<rparr>)],
     sy_feed = FIdle, sy_read = RIdle, sy_at = \<lparr>at_vol = 0, at_imb = 0, at_mid = 0\<rparr>, sy_at_ts = 0, sy_updates = [], sy_readings = []\<rparr>"

inductive snap_sys_step :: "snap_sys \<Rightarrow> snap_sys \<Rightarrow> bool" where
  f_vol: "sy_feed s = FIdle \<Longrightarrow>
     snap_sys_step s (s\<lparr>sy_vol := sy_vol s @ [arg_vol a], sy_feed := FVol a, sy_updates := sy_updates s @ [a]\<rparr>)"
| f_imb: "sy_feed s = FVol a \<Longrightarrow> snap_sys_step s (s\<lparr>sy_imb := sy_imb s @ [arg_imb a], sy_feed := FImb a\<rparr>)"
| f_mid: "sy_feed s = FImb a \<Longrightarrow> snap_sys_step s (s\<lparr>sy_mid := sy_mid s @ [arg_mid a], sy_feed := FMid a\<rparr>)"
| f_ts: "sy_feed s = FMid a \<Longrightarrow> here = \<lparr>at_vol = length (sy_vol s) - 1, at_imb = length (sy_imb s) - 1, at_mid = length (sy_mid s) - 1\<rparr> \<Longrightarrow>
     snap_sys_step s (s\<lparr>sy_ts := sy_ts s @ [(arg_ts a, carried_positions mo_release here)], sy_feed := FIdle\<rparr>)"
| r_ts: "sy_read s = RIdle \<Longrightarrow> may_read (sy_at_ts s) (sy_ts s) i \<Longrightarrow> sy_ts s ! i = (ts, carried) \<Longrightarrow>
     snap_sys_step s (s\<lparr>sy_at_ts := i, sy_at := join_positions mo_acquire carried (sy_at s), sy_read := RTs now i ts\<rparr>)"
| r_vol: "sy_read s = RTs now j ts \<Longrightarrow> may_read (at_vol (sy_at s)) (sy_vol s) i \<Longrightarrow>
     snap_sys_step s (s\<lparr>sy_at := (sy_at s)\<lparr>at_vol := i\<rparr>, sy_read := RVol now j ts (sy_vol s ! i)\<rparr>)"
| r_imb: "sy_read s = RVol now j ts vol \<Longrightarrow> may_read (at_imb (sy_at s)) (sy_imb s) i \<Longrightarrow>
     snap_sys_step s (s\<lparr>sy_at := (sy_at s)\<lparr>at_imb := i\<rparr>, sy_read := RImb now j ts vol (sy_imb s ! i)\<rparr>)"
| r_mid: "sy_read s = RImb now j ts vol imb \<Longrightarrow> may_read (at_mid (sy_at s)) (sy_mid s) i \<Longrightarrow>
     snap_sys_step s (s\<lparr>sy_at := (sy_at s)\<lparr>at_mid := i\<rparr>, sy_read := RIdle,
       sy_readings := sy_readings s @ [\<lparr>rd_vol_factor = vol, rd_book_imbalance = imb, rd_mid_price_usd = sy_mid s ! i, rd_ts_ns = ts,
         rd_fresh = (ts > 0 \<and> now - ts < kSnapStaleNs)\<rparr>]\<rparr>)"

subsection \<open>The invariant\<close>

text \<open>Update \<open>n\<close> writes position \<open>n\<close>; position 0 has the initial values.\<close>

definition written :: "snap_sys \<Rightarrow> snap_args list" where
  "written s = (0, 0, 0, 0) # sy_updates s"

fun lag :: "feed_pc \<Rightarrow> nat \<times> nat \<times> nat" where
  "lag FIdle = (0, 0, 0)"
| "lag (FVol a) = (1, 1, 1)"
| "lag (FImb a) = (0, 1, 1)"
| "lag (FMid a) = (0, 0, 1)"

definition feed_inv :: "snap_sys \<Rightarrow> bool" where
  "feed_inv s \<longleftrightarrow> (let n = length (written s); (li, lm, lt) = lag (sy_feed s)
     in sy_vol s = map arg_vol (written s) \<and> sy_imb s = map arg_imb (take (n - li) (written s)) \<and>
        sy_mid s = map arg_mid (take (n - lm) (written s)) \<and>
        map fst (sy_ts s) = map arg_ts (take (n - lt) (written s)) \<and>
        map snd (sy_ts s) = map (\<lambda>i. \<lparr>at_vol = i, at_imb = i, at_mid = i\<rparr>) [0..<n - lt] \<and>
        (\<forall>a. sy_feed s \<in> {FVol a, FImb a, FMid a} \<longrightarrow> sy_updates s \<noteq> [] \<and> last (sy_updates s) = a))"

text \<open>A value from position \<open>i\<close> on.\<close>

definition from_pos :: "(snap_args \<Rightarrow> 'v) \<Rightarrow> snap_args list \<Rightarrow> nat \<Rightarrow> 'v \<Rightarrow> bool" where
  "from_pos f ws i v \<longleftrightarrow> (\<exists>j. i \<le> j \<and> j < length ws \<and> v = f (ws ! j))"

fun reader_inv :: "snap_args list \<Rightarrow> positions \<Rightarrow> read_pc \<Rightarrow> bool" where
  "reader_inv ws p RIdle = True"
| "reader_inv ws p (RTs now i ts) \<longleftrightarrow> i < length ws \<and> ts = arg_ts (ws ! i) \<and> i \<le> at_vol p \<and> i \<le> at_imb p \<and> i \<le> at_mid p"
| "reader_inv ws p (RVol now i ts vol) \<longleftrightarrow> i < length ws \<and> ts = arg_ts (ws ! i) \<and> from_pos arg_vol ws i vol \<and> i \<le> at_imb p \<and> i \<le> at_mid p"
| "reader_inv ws p (RImb now i ts vol imb) \<longleftrightarrow> i < length ws \<and> ts = arg_ts (ws ! i) \<and> from_pos arg_vol ws i vol \<and> from_pos arg_imb ws i imb \<and>
     i \<le> at_mid p"

definition reading_ok :: "snap_args list \<Rightarrow> Reading \<Rightarrow> bool" where
  "reading_ok ws r \<longleftrightarrow> (\<exists>i<length ws. rd_ts_ns r = arg_ts (ws ! i) \<and> from_pos arg_vol ws i (rd_vol_factor r) \<and>
     from_pos arg_imb ws i (rd_book_imbalance r) \<and> from_pos arg_mid ws i (rd_mid_price_usd r))"

definition snap_sys_inv :: "snap_sys \<Rightarrow> bool" where
  "snap_sys_inv s \<longleftrightarrow> feed_inv s \<and> reader_inv (written s) (sy_at s) (sy_read s) \<and> list_all (reading_ok (written s)) (sy_readings s)"

lemma from_pos_append: "from_pos f ws i v \<Longrightarrow> from_pos f (ws @ [a]) i v"
  unfolding from_pos_def by (metis length_append_singleton less_SucI nth_append)

lemma reader_inv_append: "reader_inv ws p r \<Longrightarrow> reader_inv (ws @ [a]) p r"
  by (cases r) (auto simp: nth_append from_pos_append)

lemma reading_ok_append: "reading_ok ws r \<Longrightarrow> reading_ok (ws @ [a]) r"
  unfolding reading_ok_def
proof (elim exE conjE)
  fix i assume "i < length ws" "rd_ts_ns r = arg_ts (ws ! i)" "from_pos arg_vol ws i (rd_vol_factor r)"
    "from_pos arg_imb ws i (rd_book_imbalance r)" "from_pos arg_mid ws i (rd_mid_price_usd r)"
  then show "\<exists>i<length (ws @ [a]). rd_ts_ns r = arg_ts ((ws @ [a]) ! i) \<and> from_pos arg_vol (ws @ [a]) i (rd_vol_factor r) \<and>
      from_pos arg_imb (ws @ [a]) i (rd_book_imbalance r) \<and> from_pos arg_mid (ws @ [a]) i (rd_mid_price_usd r)"
    by (intro exI [of _ i]) (simp add: nth_append from_pos_append)
qed

lemma written_Suc: "written (s\<lparr>sy_updates := sy_updates s @ [a]\<rparr>) = written s @ [a]"
  by (simp add: written_def)

lemma feed_step_inv:
  assumes "feed_inv s" and "snap_sys_step s s'"
  shows "feed_inv s'"
  using assms(2,1)
proof cases
  case (f_vol a)
  then show ?thesis using assms(1) by (simp add: feed_inv_def written_def Let_def)
next
  case (f_imb a)
  then show ?thesis using assms(1) by (cases "sy_updates s" rule: rev_cases) (auto simp: feed_inv_def written_def Let_def)
next
  case (f_mid a)
  then show ?thesis using assms(1) by (cases "sy_updates s" rule: rev_cases) (auto simp: feed_inv_def written_def Let_def)
next
  case (f_ts a here)
  then show ?thesis using assms(1)
    by (cases "sy_updates s" rule: rev_cases) (auto simp: feed_inv_def written_def Let_def carried_positions_def)
qed (use assms(1) in \<open>simp_all add: feed_inv_def written_def\<close>)

text \<open>What the reader can load.\<close>

lemma feed_values:
  assumes "feed_inv s"
  shows "may_read p (sy_vol s) i \<Longrightarrow> from_pos arg_vol (written s) p (sy_vol s ! i)"
    and "may_read p (sy_imb s) i \<Longrightarrow> from_pos arg_imb (written s) p (sy_imb s ! i)"
    and "may_read p (sy_mid s) i \<Longrightarrow> from_pos arg_mid (written s) p (sy_mid s ! i)"
    and "may_read p (sy_ts s) i \<Longrightarrow> i < length (written s) \<and> sy_ts s ! i = (arg_ts (written s ! i), \<lparr>at_vol = i, at_imb = i, at_mid = i\<rparr>)"
proof -
  obtain li lm lt where l: "lag (sy_feed s) = (li, lm, lt)" by (metis prod_cases3)
  let ?n = "length (written s)"
  have h: "sy_vol s = map arg_vol (written s)" "sy_imb s = map arg_imb (take (?n - li) (written s))"
    "sy_mid s = map arg_mid (take (?n - lm) (written s))" and f: "map fst (sy_ts s) = map arg_ts (take (?n - lt) (written s))"
    and g: "map snd (sy_ts s) = map (\<lambda>i. \<lparr>at_vol = i, at_imb = i, at_mid = i\<rparr>) [0..<?n - lt]"
    using assms l by (auto simp: feed_inv_def Let_def)
  show "may_read p (sy_vol s) i \<Longrightarrow> from_pos arg_vol (written s) p (sy_vol s ! i)"
    and "may_read p (sy_imb s) i \<Longrightarrow> from_pos arg_imb (written s) p (sy_imb s ! i)"
    and "may_read p (sy_mid s) i \<Longrightarrow> from_pos arg_mid (written s) p (sy_mid s ! i)"
    unfolding h by (auto simp: may_read_def from_pos_def)
  assume "may_read p (sy_ts s) i"
  then have i: "i < length (sy_ts s)" by (simp add: may_read_def)
  have n: "length (sy_ts s) = ?n - lt" using arg_cong [OF g, of length] by simp
  have "fst (sy_ts s ! i) = arg_ts (written s ! i)" using arg_cong [OF f, of "\<lambda>xs. xs ! i"] i n by simp
  moreover have "snd (sy_ts s ! i) = \<lparr>at_vol = i, at_imb = i, at_mid = i\<rparr>" using arg_cong [OF g, of "\<lambda>xs. xs ! i"] i n by simp
  ultimately show "i < ?n \<and> sy_ts s ! i = (arg_ts (written s ! i), \<lparr>at_vol = i, at_imb = i, at_mid = i\<rparr>)"
    using i n by (simp add: prod_eq_iff)
qed

lemma from_pos_mono: "from_pos f ws p v \<Longrightarrow> i \<le> p \<Longrightarrow> from_pos f ws i v"
  by (auto simp: from_pos_def intro: order_trans)

lemma snap_sys_step_inv:
  assumes "snap_sys_inv s" and "snap_sys_step s s'"
  shows "snap_sys_inv s'"
proof -
  have f: "feed_inv s" "feed_inv s'" using assms feed_step_inv by (auto simp: snap_sys_inv_def)
  note v = feed_values [OF f(1)]
  have r: "reader_inv (written s) (sy_at s) (sy_read s)" "list_all (reading_ok (written s)) (sy_readings s)"
    using assms(1) by (simp_all add: snap_sys_inv_def)
  from assms(2) have "reader_inv (written s') (sy_at s') (sy_read s') \<and> list_all (reading_ok (written s')) (sy_readings s')"
  proof cases
    case (f_vol a)
    then have "written s' = written s @ [a]" by (simp add: written_def)
    then show ?thesis using f_vol r reader_inv_append reading_ok_append by (auto simp: list_all_iff)
  next
    case (r_ts i ts carried now)
    then show ?thesis using r v(4) [of "sy_at_ts s" i] by (auto simp: join_positions_def written_def)
  next
    case (r_vol now j ts i)
    then show ?thesis using r from_pos_mono [OF v(1) [of "at_vol (sy_at s)" i], of j] by (auto simp: written_def)
  next
    case (r_imb now j ts vol i)
    then show ?thesis using r from_pos_mono [OF v(2) [of "at_imb (sy_at s)" i], of j] by (auto simp: written_def)
  next
    case (r_mid now j ts vol imb i)
    then have "from_pos arg_mid (written s) j (sy_mid s ! i)" using r(1) from_pos_mono [OF v(3) [of "at_mid (sy_at s)" i], of j] by simp
    then show ?thesis using r r_mid by (auto simp: written_def reading_ok_def)
  qed (use r in \<open>simp_all add: written_def\<close>)
  then show ?thesis using f(2) by (simp add: snap_sys_inv_def)
qed

lemma snap_sys_reachable_inv:
  assumes "snap_sys_step\<^sup>*\<^sup>* snap_sys_init s"
  shows "snap_sys_inv s"
  using assms
proof (induction rule: rtranclp_induct)
  case base
  then show ?case by (simp add: snap_sys_inv_def snap_sys_init_def feed_inv_def written_def)
next
  case (step s s')
  then show ?case using snap_sys_step_inv by blast
qed

subsection \<open>A mixed reading\<close>

text \<open>One update completes.\<close>

lemma update_completes:
  assumes "sy_feed s = FIdle"
  shows "snap_sys_step\<^sup>*\<^sup>* s (s\<lparr>sy_vol := sy_vol s @ [arg_vol a], sy_updates := sy_updates s @ [a], sy_imb := sy_imb s @ [arg_imb a],
    sy_mid := sy_mid s @ [arg_mid a], sy_ts := sy_ts s @ [(arg_ts a, \<lparr>at_vol = length (sy_vol s), at_imb = length (sy_imb s),
      at_mid = length (sy_mid s)\<rparr>)], sy_feed := FIdle\<rparr>)" (is "snap_sys_step\<^sup>*\<^sup>* s ?s4")
proof -
  define s1 where "s1 = s\<lparr>sy_vol := sy_vol s @ [arg_vol a], sy_feed := FVol a, sy_updates := sy_updates s @ [a]\<rparr>"
  define s2 where "s2 = s1\<lparr>sy_imb := sy_imb s1 @ [arg_imb a], sy_feed := FImb a\<rparr>"
  define s3 where "s3 = s2\<lparr>sy_mid := sy_mid s2 @ [arg_mid a], sy_feed := FMid a\<rparr>"
  have "snap_sys_step s s1" unfolding s1_def by (rule snap_sys_step.f_vol [OF assms])
  moreover have "snap_sys_step s1 s2" unfolding s2_def by (rule snap_sys_step.f_imb) (simp add: s1_def)
  moreover have "snap_sys_step s2 s3" unfolding s3_def by (rule snap_sys_step.f_mid) (simp add: s2_def)
  moreover have "snap_sys_step s3 ?s4" using snap_sys_step.f_ts [of s3 a] assms by (simp add: s1_def s2_def s3_def carried_positions_def)
  ultimately show ?thesis by (meson rtranclp.rtrancl_into_rtrancl rtranclp.rtrancl_refl)
qed

text \<open>The reader takes the timestamp of a first update, then a second one begins.\<close>

lemma mixed_reading:
  "\<exists>s r. snap_sys_step\<^sup>*\<^sup>* snap_sys_init s \<and> sy_updates s = [(Fin 1, Fin 1, Fin 1, 5), (Fin 2, Fin 2, Fin 2, 9)] \<and> sy_readings s = [r] \<and>
     rd_ts_ns r = 5 \<and> rd_vol_factor r = Fin 2 \<and> rd_book_imbalance r = Fin 1"
proof -
  define s1 where "s1 = snap_sys_init\<lparr>sy_vol := [0, Fin 1], sy_imb := [0, Fin 1], sy_mid := [0, Fin 1],
    sy_ts := [(0, \<lparr>at_vol = 0, at_imb = 0, at_mid = 0\<rparr>), (5, \<lparr>at_vol = 1, at_imb = 1, at_mid = 1\<rparr>)], sy_feed := FIdle, sy_updates := [(Fin 1, Fin 1, Fin 1, 5)]\<rparr>"
  define s2 where "s2 = s1\<lparr>sy_at_ts := 1, sy_at := \<lparr>at_vol = 1, at_imb = 1, at_mid = 1\<rparr>, sy_read := RTs 9 1 5\<rparr>"
  define s3 where "s3 = s2\<lparr>sy_vol := sy_vol s2 @ [Fin 2], sy_feed := FVol (Fin 2, Fin 2, Fin 2, 9), sy_updates := sy_updates s2 @ [(Fin 2, Fin 2, Fin 2, 9)]\<rparr>"
  define s4 where "s4 = s3\<lparr>sy_at := (sy_at s3)\<lparr>at_vol := 2\<rparr>, sy_read := RVol 9 1 5 (sy_vol s3 ! 2)\<rparr>"
  define s5 where "s5 = s4\<lparr>sy_at := (sy_at s4)\<lparr>at_imb := 1\<rparr>, sy_read := RImb 9 1 5 (sy_vol s3 ! 2) (sy_imb s4 ! 1)\<rparr>"
  define r where "r = \<lparr>rd_vol_factor = sy_vol s3 ! 2, rd_book_imbalance = sy_imb s4 ! 1, rd_mid_price_usd = sy_mid s5 ! 1, rd_ts_ns = 5,
    rd_fresh = ((5::u64) > 0 \<and> (9::u64) - 5 < kSnapStaleNs)\<rparr>"
  define s6 where "s6 = s5\<lparr>sy_at := (sy_at s5)\<lparr>at_mid := 1\<rparr>, sy_read := RIdle, sy_readings := sy_readings s5 @ [r]\<rparr>"
  have "snap_sys_step\<^sup>*\<^sup>* snap_sys_init s1"
    using update_completes [of snap_sys_init "(Fin 1, Fin 1, Fin 1, 5)"] by (simp add: snap_sys_init_def s1_def)
  moreover have "snap_sys_step s1 s2"
    using snap_sys_step.r_ts [of s1 1 5 "\<lparr>at_vol = 1, at_imb = 1, at_mid = 1\<rparr>" 9]
    by (simp add: s1_def s2_def snap_sys_init_def may_read_def join_positions_def)
  moreover have "snap_sys_step s2 s3"
    using snap_sys_step.f_vol [of s2 "(Fin 2, Fin 2, Fin 2, 9)"] by (simp add: s3_def s2_def s1_def snap_sys_init_def)
  moreover have "snap_sys_step s3 s4"
    unfolding s4_def by (rule snap_sys_step.r_vol) (simp_all add: s3_def s2_def s1_def may_read_def)
  moreover have "snap_sys_step s4 s5"
    unfolding s5_def by (rule snap_sys_step.r_imb) (simp_all add: s4_def s3_def s2_def s1_def may_read_def)
  moreover have "snap_sys_step s5 s6"
    unfolding s6_def r_def by (rule snap_sys_step.r_mid) (simp_all add: s5_def s4_def s3_def s2_def s1_def may_read_def)
  ultimately have "snap_sys_step\<^sup>*\<^sup>* snap_sys_init s6" by (meson rtranclp.rtrancl_into_rtrancl)
  then show ?thesis
    by (intro exI [of _ s6] exI [of _ r]) (simp add: r_def s6_def s5_def s4_def s3_def s2_def s1_def snap_sys_init_def)
qed

subsection \<open>Properties\<close>

text \<open>C23: A reading is never staler than its timestamp says.  The feed thread publishes updates with
  timestamps that do not decrease while the execution thread reads, and every load may return any
  store that the memory orders of the code allow.  Then the timestamp of each reading is that of an
  update (or the initial one), and each of its three values was published by an update of that time or
  later; but they need not be of one update.\<close>

theorem snapshot_reading_recent:
  assumes "snap_sys_step\<^sup>*\<^sup>* snap_sys_init s" and "sorted (map arg_ts (sy_updates s))" and "r \<in> set (sy_readings s)"
  shows "\<exists>t\<in>set (written s). \<exists>x\<in>set (written s). \<exists>y\<in>set (written s). \<exists>z\<in>set (written s).
    rd_ts_ns r = arg_ts t \<and> rd_vol_factor r = arg_vol x \<and> rd_book_imbalance r = arg_imb y \<and> rd_mid_price_usd r = arg_mid z \<and>
    arg_ts t \<le> arg_ts x \<and> arg_ts t \<le> arg_ts y \<and> arg_ts t \<le> arg_ts z"
proof -
  let ?w = "written s"
  have "reading_ok ?w r" using snap_sys_reachable_inv [OF assms(1)] assms(3) by (auto simp: snap_sys_inv_def list_all_iff)
  then obtain i x y z where i: "i < length ?w" "rd_ts_ns r = arg_ts (?w ! i)" and x: "i \<le> x" "x < length ?w" "rd_vol_factor r = arg_vol (?w ! x)"
    and y: "i \<le> y" "y < length ?w" "rd_book_imbalance r = arg_imb (?w ! y)" and z: "i \<le> z" "z < length ?w" "rd_mid_price_usd r = arg_mid (?w ! z)"
    unfolding reading_ok_def from_pos_def by blast
  have "sorted (map arg_ts ?w)" using assms(2) by (simp add: written_def)
  then have "arg_ts (?w ! i) \<le> arg_ts (?w ! j)" if "i \<le> j" "j < length ?w" for j
    using sorted_nth_mono [of "map arg_ts ?w" i j] that by simp
  then show ?thesis using i x y z by (metis nth_mem)
qed

theorem snapshot_reading_recent_witness:
  "\<exists>s r x. snap_sys_step\<^sup>*\<^sup>* snap_sys_init s \<and> r \<in> set (sy_readings s) \<and> rd_ts_ns r = 5 \<and> rd_vol_factor r = Fin 2 \<and>
     rd_book_imbalance r = Fin 1 \<and> x \<in> set (written s) \<and> rd_vol_factor r = arg_vol x \<and> rd_ts_ns r \<le> arg_ts x"
proof -
  obtain s r where s: "snap_sys_step\<^sup>*\<^sup>* snap_sys_init s" "sy_updates s = [(Fin 1, Fin 1, Fin 1, 5), (Fin 2, Fin 2, Fin 2, 9)]"
    "sy_readings s = [r]" "rd_ts_ns r = 5" "rd_vol_factor r = Fin 2" "rd_book_imbalance r = Fin 1"
    using mixed_reading by blast
  have "sorted (map arg_ts (sy_updates s))" "r \<in> set (sy_readings s)" using s(2,3) by simp_all
  from snapshot_reading_recent [OF s(1) this] s show ?thesis by fastforce
qed

end
