(* ===== verification/Interleaving.thy ===== *)
theory Interleaving
  imports Main
begin

text \<open>
  Threads that share memory, each with a list of accesses still to do.  An access is one atomic load or
  store: it changes the shared state or the registers of its thread.  A schedule is a list of thread
  numbers; a thread that has finished does nothing.
\<close>

type_synonym ('s, 'r) access = "'s \<times> 'r \<Rightarrow> 's \<times> 'r"
type_synonym ('s, 'r) threads = "nat \<Rightarrow> 'r \<times> ('s, 'r) access list"

fun thread_step :: "nat \<Rightarrow> 's \<times> ('s, 'r) threads \<Rightarrow> 's \<times> ('s, 'r) threads" where
  "thread_step i (sh, th) =
     (case th i of (r, []) \<Rightarrow> (sh, th) | (r, a # as) \<Rightarrow> let (sh', r') = a (sh, r) in (sh', th(i := (r', as))))"

definition run_schedule :: "nat list \<Rightarrow> 's \<times> ('s, 'r) threads \<Rightarrow> 's \<times> ('s, 'r) threads" where
  "run_schedule sched = fold thread_step sched"

text \<open>All accesses of one thread, from given registers.\<close>

definition run_accesses :: "('s, 'r) access list \<Rightarrow> 's \<times> 'r \<Rightarrow> 's \<times> 'r" where
  "run_accesses as x = fold (\<lambda>a. a) as x"

definition finished :: "('s, 'r) threads \<Rightarrow> bool" where
  "finished th \<longleftrightarrow> (\<forall>i. snd (th i) = [])"

lemma run_accesses_simps [simp]:
  "run_accesses [] x = x" "run_accesses (a # as) x = run_accesses as (a x)" "run_accesses (as @ bs) x = run_accesses bs (run_accesses as x)"
  by (simp_all add: run_accesses_def)

end
