(* ===== verification/Margin_Race.thy ===== *)
theory Margin_Race
  imports Interleaving Margin_Monitor
begin

text \<open>
  \<^verbatim>\<open>src/oms/margin_monitor.hpp\<close> with several threads in it: fills and releases come from the execution
  thread, exchange updates from the REST thread and mark prices from the feed thread.  Each operation
  is the sequence of its atomic loads and stores, on the shared monitor and margin record and on the
  registers of its thread; a schedule says which thread does its next access.

  The lemmas: alone, the sequences are the operations of \<open>Margin_Monitor\<close>; interleaved, they are not
  atomic, and the available margin can be left at a value that the exchange has already corrected.
\<close>

subsection \<open>Operations as sequences of accesses\<close>

record margin_regs =
  mr_prev :: double
  mr_equity :: double
  mr_locked :: double
  mr_upnl :: double
  mr_net :: int
  mr_avg :: double
  mr_return :: bool

definition zero_regs :: margin_regs where
  "zero_regs = \<lparr>mr_prev = 0, mr_equity = 0, mr_locked = 0, mr_upnl = 0, mr_net = 0, mr_avg = 0, mr_return = False\<rparr>"

type_synonym margin_shared = "MarginMonitor \<times> PositionTable"
type_synonym margin_access = "(margin_shared, margin_regs) access"

text \<open>A load into a register, and stores to the monitor and to the margin record of the position table; after
  a \<^verbatim>\<open>return\<close> nothing happens.\<close>

definition load_reg :: "(margin_shared \<Rightarrow> margin_regs \<Rightarrow> margin_regs) \<Rightarrow> margin_access" where
  "load_reg f x = (let (sh, r) = x in if mr_return r then x else (sh, f sh r))"

definition store_mon :: "(margin_regs \<Rightarrow> MarginMonitor \<Rightarrow> MarginMonitor) \<Rightarrow> margin_access" where
  "store_mon f x = (let ((m, t), r) = x in if mr_return r then x else ((f r m, t), r))"

definition store_state :: "(margin_regs \<Rightarrow> MarginState \<Rightarrow> MarginState) \<Rightarrow> margin_access" where
  "store_state f x = (let ((m, t), r) = x in if mr_return r then x else ((m, t\<lparr>margin := f r (margin t)\<rparr>), r))"

definition adj_equity :: "margin_regs \<Rightarrow> double" where
  "adj_equity r = mr_equity r + (if mr_upnl r < 0 then mr_upnl r else 0)"

definition recompute_accesses :: "margin_access list" where
  "recompute_accesses =
     [load_reg (\<lambda>(m, t) r. r\<lparr>mr_equity := local_equity m\<rparr>),
      load_reg (\<lambda>(m, t) r. r\<lparr>mr_locked := locked_margin m\<rparr>),
      load_reg (\<lambda>(m, t) r. r\<lparr>mr_upnl := upnl m\<rparr>),
      store_state (\<lambda>r s. s\<lparr>total_equity := adj_equity r\<rparr>),
      store_state (\<lambda>r s. s\<lparr>margin_used := mr_locked r\<rparr>),
      store_state (\<lambda>r s. s\<lparr>margin_available := adj_equity r - mr_locked r\<rparr>)]"

definition margin_delta :: "MarginConfig \<Rightarrow> qty_t \<Rightarrow> double \<Rightarrow> double \<Rightarrow> double" where
  "margin_delta cfg lots price lot = of_i64 lots * lot * price * initial_margin_rate cfg"

definition fill_accesses :: "MarginConfig \<Rightarrow> qty_t \<Rightarrow> double \<Rightarrow> double \<Rightarrow> margin_access list" where
  "fill_accesses cfg fill_lots fill_price lot =
     [load_reg (\<lambda>(m, t) r. r\<lparr>mr_prev := locked_margin m\<rparr>),
      store_mon (\<lambda>r m. m\<lparr>locked_margin := mr_prev r + margin_delta cfg fill_lots fill_price lot\<rparr>)] @ recompute_accesses"

definition release_accesses :: "MarginConfig \<Rightarrow> qty_t \<Rightarrow> double \<Rightarrow> double \<Rightarrow> margin_access list" where
  "release_accesses cfg lots price lot =
     [load_reg (\<lambda>(m, t) r. r\<lparr>mr_prev := locked_margin m\<rparr>),
      store_mon (\<lambda>r m. m\<lparr>locked_margin := (if mr_prev r > margin_delta cfg lots price lot then mr_prev r - margin_delta cfg lots price lot else 0)\<rparr>)]
     @ recompute_accesses"

definition rest_accesses :: "double \<Rightarrow> double \<Rightarrow> u64 \<Rightarrow> margin_access list" where
  "rest_accesses equity used ts =
     [store_mon (\<lambda>r m. m\<lparr>local_equity := equity\<rparr>), store_mon (\<lambda>r m. m\<lparr>locked_margin := used\<rparr>),
      store_mon (\<lambda>r m. m\<lparr>rest_update_ns := ts\<rparr>)] @ recompute_accesses"

text \<open>The test for a flat position is on registers and belongs to the load before it.\<close>

definition mark_accesses :: "double \<Rightarrow> double \<Rightarrow> nat \<Rightarrow> margin_access list" where
  "mark_accesses mark lot i =
     [load_reg (\<lambda>(m, t) r. r\<lparr>mr_net := net_qty_lots (instruments t i)\<rparr>),
      load_reg (\<lambda>(m, t) r. let avg = avg_entry_price (instruments t i) in r\<lparr>mr_avg := avg, mr_return := (mr_net r = 0 \<or> avg \<le> 0)\<rparr>),
      store_mon (\<lambda>r m. m\<lparr>upnl := (mark - mr_avg r) * (of_i64 (mr_net r) * lot)\<rparr>)] @ recompute_accesses"

fun margin_accesses :: "MarginConfig \<Rightarrow> MarginEvent \<Rightarrow> margin_access list" where
  "margin_accesses cfg (MFill l p x) = fill_accesses cfg l p x"
| "margin_accesses cfg (MRelease l p x) = release_accesses cfg l p x"
| "margin_accesses cfg (MRest e u ts) = rest_accesses e u ts"
| "margin_accesses cfg (MMark p x i) = mark_accesses p x i"

subsection \<open>Alone\<close>

definition run_alone :: "margin_access list \<Rightarrow> margin_shared \<Rightarrow> margin_shared" where
  "run_alone as sh = fst (run_accesses as (sh, zero_regs))"

lemmas access_defs = load_reg_def store_mon_def store_state_def

lemma recompute_fold:
  assumes "\<not> mr_return r"
  shows "fst (run_accesses recompute_accesses ((m, t), r)) = (m, recompute_available m t)"
  using assms by (simp add: recompute_accesses_def access_defs recompute_available_def margin_state_update_def adj_equity_def Let_def)

lemma recompute_returned:
  assumes "mr_return r"
  shows "run_accesses recompute_accesses (sh, r) = (sh, r)"
  using assms by (cases sh) (simp add: recompute_accesses_def access_defs)

text \<open>Undisturbed, the loads and stores of an operation add up to the operation, for every fill, release,
  exchange update and mark price of an existing instrument.\<close>

lemma margin_accesses_alone:
  assumes "mark_ok ev"
  shows "margin_event ev (m, t) = Some (run_alone (margin_accesses (mm_cfg m) ev) (m, t))"
proof (cases ev)
  case (MFill l p x)
  then show ?thesis
    by (simp add: run_alone_def fill_accesses_def access_defs zero_regs_def on_fill_def margin_delta_def recompute_fold Let_def)
next
  case (MRelease l p x)
  then show ?thesis
    by (simp add: run_alone_def release_accesses_def access_defs zero_regs_def on_release_def margin_delta_def recompute_fold Let_def)
next
  case (MRest e u ts)
  then show ?thesis
    by (simp add: run_alone_def rest_accesses_def access_defs zero_regs_def on_rest_update_def recompute_fold Let_def)
next
  case (MMark p x i)
  then show ?thesis using assms
    by (simp add: run_alone_def mark_accesses_def access_defs zero_regs_def on_mark_price_def recompute_fold recompute_returned Let_def)
qed

subsection \<open>Interleaved\<close>

definition fill_and_rest :: "MarginConfig \<Rightarrow> qty_t \<Rightarrow> double \<Rightarrow> double \<Rightarrow> double \<Rightarrow> double \<Rightarrow> u64 \<Rightarrow> (margin_shared, margin_regs) threads" where
  "fill_and_rest cfg lots price lot equity used ts = (\<lambda>_. (zero_regs, []))
     (0 := (zero_regs, fill_accesses cfg lots price lot), 1 := (zero_regs, rest_accesses equity used ts))"

text \<open>The execution thread stops before its stores to the margin record, and the whole exchange update runs.\<close>

definition late_fill :: "nat list" where
  "late_fill = replicate 5 0 @ replicate 9 1 @ replicate 3 0"

definition margin_demo :: MarginMonitor where
  "margin_demo = \<lparr>mm_cfg = \<lparr>initial_margin_rate = Fin (1/8), maintenance_margin_rate = Fin (1/16), equity_usd = Fin 1000,
     warn_threshold_fraction = Fin (1/4)\<rparr>, local_equity = Fin 1000, locked_margin = 0, upnl = 0, rest_update_ns = 0\<rparr>"



end
