(* ===== verification/Two_Producers.thy ===== *)
theory Two_Producers
  imports Interleaving Spsc_Queue
begin

text \<open>
  \<^verbatim>\<open>push\<close> of \<^verbatim>\<open>src/oms/spsc_queue.hpp\<close> called from two threads at once.  The class is for one producer; the
  threading table of the README has one gateway thread per exchange behind the queue of execution
  reports, and the ring of the logger, which has the same accesses, is written from three threads.

  The lemmas: alone, the four accesses of \<^verbatim>\<open>push\<close> are \<open>spsc_push\<close>; with two producers a value can be lost
  although both calls report success.
\<close>

subsection \<open>The accesses of a push\<close>

record push_regs =
  pr_h :: u32
  pr_next_h :: u32
  pr_result :: "bool option"

definition push_start :: push_regs where
  "push_start = \<lparr>pr_h = 0, pr_next_h = 0, pr_result = None\<rparr>"

type_synonym 'a push_access = "('a SpscQueue, push_regs) access"

definition push_load :: "u32 \<Rightarrow> 'a push_access" where
  "push_load N x = (let (q, r) = x in (q, r\<lparr>pr_h := q_head q, pr_next_h := (q_head q + 1) AND kMask N\<rparr>))"

definition push_check :: "'a push_access" where
  "push_check x = (let (q, r) = x in (q, if pr_next_h r = q_tail q then r\<lparr>pr_result := Some False\<rparr> else r))"

definition push_write :: "'a \<Rightarrow> 'a push_access" where
  "push_write v x = (let (q, r) = x in if pr_result r \<noteq> None then x else (q\<lparr>q_buf := (q_buf q)(pr_h r := v)\<rparr>, r))"

definition push_publish :: "'a push_access" where
  "push_publish x = (let (q, r) = x in if pr_result r \<noteq> None then x else (q\<lparr>q_head := pr_next_h r\<rparr>, r\<lparr>pr_result := Some True\<rparr>))"

definition push_accesses :: "u32 \<Rightarrow> 'a \<Rightarrow> 'a push_access list" where
  "push_accesses N v = [push_load N, push_check, push_write v, push_publish]"

lemmas push_access_defs = push_load_def push_check_def push_write_def push_publish_def

lemma push_accesses_alone:
  "let (q', r) = run_accesses (push_accesses N v) (q, push_start) in pr_result r = Some (fst (spsc_push N q v)) \<and> q' = snd (spsc_push N q v)"
  by (simp add: push_accesses_def push_access_defs push_start_def spsc_push_def Let_def)

definition two_pushes :: "u32 \<Rightarrow> 'a \<Rightarrow> 'a \<Rightarrow> ('a SpscQueue, push_regs) threads" where
  "two_pushes N v w = (\<lambda>_. (push_start, []))(0 := (push_start, push_accesses N v), 1 := (push_start, push_accesses N w))"

text \<open>Both threads check before either writes.\<close>

lemma both_checked:
  assumes "(q_head q + 1) AND kMask N \<noteq> q_tail q"
  shows "\<exists>th. run_schedule [0, 0, 1, 1, 0, 0, 1, 1] (q, two_pushes N v w) = (snd (spsc_push N q w), th) \<and> finished th \<and>
    pr_result (fst (th 0)) = Some True \<and> pr_result (fst (th 1)) = Some True"
  using assms
  by (simp add: run_schedule_def two_pushes_def push_accesses_def push_access_defs push_start_def finished_def spsc_push_def Let_def)

text \<open>C32: The queue needs a single producer.  Whenever it is not full there is a schedule in which two threads
  each push a value, both calls return true, and only one of the two values is in the queue: the other
  is lost without a trace.\<close>

theorem two_producers_lose_a_value:
  assumes "k < 32" and "spsc_inv (2 ^ k) q" and "length (spsc_contents (2 ^ k) q) < 2 ^ k - 1"
  shows "\<exists>sched q' th. run_schedule sched (q, two_pushes (2 ^ k) v w) = (q', th) \<and> finished th \<and>
    pr_result (fst (th 0)) = Some True \<and> pr_result (fst (th 1)) = Some True \<and> spsc_contents (2 ^ k) q' = spsc_contents (2 ^ k) q @ [w]"
proof -
  have "fst (spsc_push (2 ^ k) q w)" using spsc_push_fst [OF assms(1,2)] assms(3) by simp
  then have "(q_head q + 1) AND kMask (2 ^ k) \<noteq> q_tail q" by (auto simp: spsc_push_def Let_def split: if_splits)
  note run = both_checked [OF this, of v w]
  have "spsc_contents (2 ^ k) (snd (spsc_push (2 ^ k) q w)) = spsc_contents (2 ^ k) q @ [w]"
    using spsc_push_contents [OF assms(1,2), of w] assms(3) by simp
  with run show ?thesis by (elim exE) (intro exI conjI, auto)
qed

theorem two_producers_lose_a_value_witness:
  "\<exists>sched q th. run_schedule sched (spsc_init (0::nat), two_pushes (2 ^ 10) 7 8) = (q, th) \<and>
     pr_result (fst (th 0)) = Some True \<and> pr_result (fst (th 1)) = Some True \<and> spsc_contents (2 ^ 10) q = [8]"
  using two_producers_lose_a_value [OF _ spsc_init_inv, of 10 "0::nat" 7 8] by (auto simp: spsc_init_contents)

end
