(* ===== verification/Spec2Isabelle.thy ===== *)
theory Spec2Isabelle
  imports Routing_Safe Twap_Scheduler Logger Core_Properties Market_Properties Sor_Example Oms_Example
    Release_Acquire Shared_Snapshot Margin_Race Two_Producers
begin

text \<open>
  Verification of a smart order router and order management system written in C++20
  (\<^verbatim>\<open>src/sor\<close>, \<^verbatim>\<open>src/oms\<close>, \<^verbatim>\<open>src/algos\<close>, and the two programs beside them).

  \<^bold>\<open>The program.\<close>  A strategy pushes order signals into a queue.  The execution core takes each through
  the notional gate, the reduce-only clamp and the pre-trade risk checks, allocates a parent order,
  asks the router to split it over up to five exchanges by effective price, and dispatches one child
  order per slice: a pool slot, a timer, a message on the exchange's queue.  Execution reports come
  back through another queue and update child, parent, position and margin; lost quantity is routed
  again; a child without an answer is cancelled by the timer wheel.

  \<^bold>\<open>Conventions\<close> (\<open>Prelude\<close>, \<open>Double\<close>).  \<^verbatim>\<open>int64_t\<close> quantities and prices are \<open>int\<close>; an overflow would be
  undefined behaviour, so none is modelled, and conversions from doubles go through \<open>to_i64\<close>.
  \<^verbatim>\<open>uint64_t\<close> times and the ring indices are machine words and wrap.  \<^verbatim>\<open>double\<close> is binary64: finite values are
  rationals, every operation rounds to nearest even, with infinities and not-a-number.  A failed
  assertion or an access outside an array is \<open>None\<close>.  Mutable objects are records that are passed on;
  references to orders are pool indices.

  \<^bold>\<open>Theories and the code they model.\<close>
  \<^item> \<open>Sor_Types\<close>: \<^verbatim>\<open>sor/types.hpp\<close>, limits, conversions between ticks, lots and doubles.  Lemmas: the round
    trip of ticks, and the lot that truncation loses.
  \<^item> \<open>Normalized_Book\<close>: \<^verbatim>\<open>sor/normalized_book.hpp\<close>, price levels, cumulative lots, sequence numbers.
    Lemmas: the cumulative array is the prefix sums, a gap in the sequence invalidates the book.
  \<^item> \<open>Exchange_State\<close>: \<^verbatim>\<open>sor/exchange_state.hpp\<close>, latency, lot constraints, routing context.  Lemma: bounds
    of the latency estimate.
  \<^item> \<open>Routing_Engine\<close>: \<^verbatim>\<open>sor/routing_engine.hpp\<close> and \<^verbatim>\<open>.cpp\<close>, cursors, k-way merge, greedy fill, maker
    placement.  \<open>Routing_Merge\<close> shows the merge equal to a stable sort of all usable levels by effective
    price; \<open>Routing_Split\<close> that the fill conserves lots, is of least cost and that a maker order goes to
    the best quote; \<open>Routing_Safe\<close> that the router never faults on arrays of the right shape.
  \<^item> \<open>Spsc_Queue\<close>: \<^verbatim>\<open>oms/spsc_queue.hpp\<close>, the ring buffer, sequentially (contract \<open>bounded_fifo\<close>) and as
    interleaved loads and stores of two threads.
  \<^item> \<open>Oms_Types\<close>, \<open>Order_Pool\<close>: \<^verbatim>\<open>oms/oms_types.hpp\<close>, \<^verbatim>\<open>oms/order_pool.hpp\<close>.  Contract \<open>id_pool\<close>: live
    identifiers are distinct, allocation and freeing are exact.
  \<^item> \<open>Timer_Wheel\<close>: \<^verbatim>\<open>oms/timer_wheel.hpp\<close> with a re-entrant callback.  Contract \<open>timer_client\<close>: a callback
    that keeps an invariant and the clock; then ticks return.  Lemmas: what a tick fires, and when.
  \<^item> \<open>Position_Tracker\<close>, \<open>Risk_Engine\<close>, \<open>Notional_Gate\<close>, \<open>Margin_Monitor\<close>, \<open>Book_Snapshot\<close>: the headers of the
    same names.  Lemmas: positions are sums of fills, accepted orders respect the limits, reduce-only
    orders never turn a position over, the decision of the gate, the margin equation, freshness.
  \<^item> \<open>Twap_Scheduler\<close>: \<^verbatim>\<open>algos/twap_scheduler.hpp\<close>; the random generator is a parameter.  Lemmas: the slices
    add up to the total for every outcome of the draws, and the schedule finishes.
  \<^item> \<open>Logger\<close>, \<open>Dashboard\<close>: \<^verbatim>\<open>oms/logger.hpp\<close>, \<^verbatim>\<open>oms/dashboard.hpp\<close>.  Lemmas: everything the logger accepted
    is in the file, in order, when it has shut down; a dashboard line whose values fit has a fixed width.
  \<^item> \<open>Execution_Core\<close>: \<^verbatim>\<open>oms/execution_core.hpp\<close> and \<^verbatim>\<open>.cpp\<close>, one definition per handler.  \<open>Order_Families\<close>
    has the invariant of parents and children in the pool, \<open>Core_Invariant\<close> the frames and the dispatch
    and re-routing lemmas, \<open>Core_Handlers\<close> the two entry points, \<open>Core_Run\<close> the callback as a
    \<open>timer_client\<close>, the queues, the step relation and reachability, \<open>Core_Properties\<close> the results.
  \<^item> The core against exchanges that keep to a protocol.  \<open>Order_Exposure\<close> defines the exposure of an order,
    the open lots of its working children, and bounds what one dispatch adds to it; \<open>Core_Exposure\<close>
    carries the bound through every handler; \<open>Core_Market\<close> has the protocol, the step relation of the core
    with such a market, and the timeout callback as a second instance of \<open>timer_client\<close>; \<open>Core_Dispatch\<close>
    follows an accepted signal to the messages in the gateway queues; \<open>Market_Properties\<close> has the results:
    no fault, no exposure beyond the order, positions equal to the executed lots, and the exchanges get
    what the router decided.
  \<^item> \<open>Mock_Market\<close>, \<open>Sor_Example\<close>, \<open>Oms_Example\<close>: \<^verbatim>\<open>main_example.cpp\<close> and \<^verbatim>\<open>oms_example.cpp\<close>, the two programs of
    the repository.  The first fills its order and exits with 0; the second sends nothing unless the
    operator confirms, and ends with a position equal to the lots it sent.
  \<^item> Several threads.  \<open>Release_Acquire\<close> has the part of the C++ memory model that the code uses, and the ring
    under it: no data race, and a FIFO.  \<open>Shared_Snapshot\<close> has the feed thread writing a snapshot while
    the execution thread reads it.  \<open>Interleaving\<close> runs threads as lists of accesses under a schedule;
    \<open>Margin_Race\<close> has the margin monitor on three threads, whose updates can undo each other, and
    \<open>Two_Producers\<close> shows that the ring loses values when two threads push.

  \<^bold>\<open>What is assumed of the outside.\<close>  The exponential, the clock readings and the random draws are
  arguments.  The invariant of the core is for inputs that \<open>report_ok\<close> describes: a report is for a
  live child, a fill is at most the open lots of the parent, and a fill that completes the parent
  leaves no sibling working.  The code does not check these.  Signals have non-negative quantities.
  Where all books and instruments share one lot size, \<open>protocol_report\<close> is enough: an exchange reports on
  an order that is working there, and fills at most what that order has open.

  \<^bold>\<open>Bounds and loops.\<close>  The merge, the searches, the slot loop and the capture loop of the demo have
  termination measures.  \<^verbatim>\<open>tick\<close> of the wheel, the two queue loops of the core and the drain loop of the
  logger are partial functions, each with a theorem that it returns.  \<^verbatim>\<open>run\<close> is \<open>run_loop\<close> with a bound on
  the number of turns, since it ends only when another thread stops it.  Quantities up to \<open>2 ^ 50\<close> lots
  are far from the point where doubles skip integers.

  \<^bold>\<open>Not modelled.\<close>  The text of log lines, of the confirmation prompt and of the tables that the example
  programs print (their values are); the sleep of the dashboard; types that no code uses (\<^verbatim>\<open>ConsolidatedBook\<close>, \<^verbatim>\<open>ExchangeId\<close>);
  the tests.
\<close>

end
